(* ===== verification/Prelude.thy ===== *)
theory Prelude
  imports Main "HOL-Library.Word" "HOL-Library.Multiset"
begin

text \<open>
  Vocabulary shared by every component of the yloc model: the machine integers of the
  C++ code, the decimal printing of \<^verbatim>\<open>std::to_string\<close> and of stream output, the loop
  "return the first value an element offers", and the contract of \<^verbatim>\<open>std::sort\<close> as a
  locale (the order of equivalent elements is left open, as the C++ standard leaves it).
\<close>

section \<open>Names and collections\<close>

type_synonym u64 = "64 word"
type_synonym u32 = "32 word"
type_synonym u16 = "16 word"
type_synonym u8 = "8 word"

named_theorems graph_simps "what each graph operation leaves of vertices, edges and identifiers"
named_theorems wf_intros "preservation of the well-formedness of the topology"
named_theorems eval_simps "equations that evaluate the model on concrete input"

section \<open>Loops over vectors\<close>

text \<open>The loop \<^verbatim>\<open>for (a : xs) { r = f(a); if (r.has_value()) return r; } return {};\<close>\<close>

fun first_value :: "('a \<Rightarrow> 'c option) \<Rightarrow> 'a list \<Rightarrow> 'c option" where
  "first_value f [] = None"
| "first_value f (x # xs) = (case f x of Some r \<Rightarrow> Some r | None \<Rightarrow> first_value f xs)"

lemma first_value_append [simp]:
  "first_value f (xs @ ys) =
     (case first_value f xs of Some r \<Rightarrow> Some r | None \<Rightarrow> first_value f ys)"
  by (induction xs) (auto split: option.splits)

lemma first_value_None_iff: "first_value f xs = None \<longleftrightarrow> (\<forall>x \<in> set xs. f x = None)"
  by (induction xs) (auto split: option.splits)

lemma first_value_SomeD: "first_value f xs = Some r \<Longrightarrow> \<exists>x \<in> set xs. f x = Some r"
  by (induction xs) (auto split: option.splits)

lemma first_value_nth:
  "first_value f xs = Some r \<Longrightarrow>
     \<exists>i < length xs. f (xs ! i) = Some r \<and> (\<forall>j < i. f (xs ! j) = None)"
proof (induction xs)
  case Nil
  then show ?case by simp
next
  case (Cons x xs)
  show ?case
  proof (cases "f x")
    case None
    with Cons obtain i where i: "i < length xs" "f (xs ! i) = Some r" "\<forall>j < i. f (xs ! j) = None"
      by auto
    have "f ((x # xs) ! j) = None" if "j < Suc i" for j
      using that None i(3) by (cases j) auto
    with i show ?thesis by (intro exI [of _ "Suc i"]) simp
  next
    case (Some a)
    with Cons.prems show ?thesis by (intro exI [of _ 0]) simp
  qed
qed

lemma first_value_map_option:
  "first_value (\<lambda>x. map_option g (f x)) xs = map_option g (first_value f xs)"
  by (induction xs) (auto split: option.splits)

lemma first_value_cong:
  "(\<And>x. x \<in> set xs \<Longrightarrow> f x = g x) \<Longrightarrow> first_value f xs = first_value g xs"
  by (induction xs) (auto split: option.splits)

text \<open>Text up to the first occurrence of a character.\<close>

lemma split_first_iff:
  "x \<notin> set xs \<Longrightarrow> x \<notin> set ys \<Longrightarrow> xs @ x # us = ys @ x # vs \<longleftrightarrow> xs = ys \<and> us = vs"
proof (induction xs arbitrary: ys)
  case Nil
  then show ?case by (cases ys) auto
next
  case (Cons a xs)
  then show ?case by (cases ys) auto
qed

section \<open>Decimal output\<close>

text \<open>
  \<^verbatim>\<open>std::to_string\<close> and \<^verbatim>\<open>operator<<\<close> of an unsigned integer print it in base ten
  without leading zeros; a signed one gets a minus sign.
\<close>

definition digit_char :: "nat \<Rightarrow> char" where
  "digit_char d = char_of (48 + d)"

fun decimal :: "nat \<Rightarrow> string" where
  "decimal n = (if n < 10 then [digit_char n] else decimal (n div 10) @ [digit_char (n mod 10)])"

declare decimal.simps [simp del]

definition decimal_int :: "int \<Rightarrow> string" where
  "decimal_int z = (if z < 0 then CHR ''-'' # decimal (nat (- z)) else decimal (nat z))"

definition read_decimal :: "string \<Rightarrow> nat" where
  "read_decimal s = foldl (\<lambda>acc c. 10 * acc + (of_char c - 48)) 0 s"

lemma of_char_digit_char [simp]: "d < 10 \<Longrightarrow> of_char (digit_char d) = 48 + d"
  by (simp add: digit_char_def)

lemma read_decimal_snoc: "read_decimal (s @ [c]) = 10 * read_decimal s + (of_char c - 48)"
  by (simp add: read_decimal_def)

lemma read_decimal_decimal: "read_decimal (decimal n) = n"
proof (induction n rule: decimal.induct)
  case (1 n)
  show ?case
  proof (cases "n < 10")
    case True
    then show ?thesis by (simp add: decimal.simps [of n] read_decimal_def)
  next
    case False
    with "1.IH" have "read_decimal (decimal (n div 10)) = n div 10" by simp
    with False show ?thesis
      by (simp add: decimal.simps [of n] read_decimal_snoc)
  qed
qed

lemma decimal_inject [simp]: "decimal m = decimal n \<longleftrightarrow> m = n"
  by (metis read_decimal_decimal)

lemma decimal_digits: "c \<in> set (decimal n) \<Longrightarrow> 48 \<le> (of_char c :: nat) \<and> (of_char c :: nat) \<le> 57"
proof (induction n rule: decimal.induct)
  case (1 n)
  then show ?case
    by (cases "n < 10") (auto simp: decimal.simps [of n] digit_char_def)
qed

section \<open>The contract of \<^verbatim>\<open>std::sort\<close>\<close>

text \<open>
  \<^verbatim>\<open>std::sort(first, last, comp)\<close> permutes the range so that no element is less than an
  earlier one, provided that \<^verbatim>\<open>comp\<close> is a strict weak ordering. It is not stable: the order
  of equivalent elements is unspecified, so a sorter is a parameter of the functions
  that sort, and the locale states what the standard promises of it.
\<close>

definition strict_weak :: "('a \<Rightarrow> 'a \<Rightarrow> bool) \<Rightarrow> bool" where
  "strict_weak lt \<longleftrightarrow> (\<forall>x. \<not> lt x x) \<and> (\<forall>x y z. lt x y \<longrightarrow> lt y z \<longrightarrow> lt x z) \<and>
     (\<forall>x y z. \<not> lt x y \<longrightarrow> \<not> lt y z \<longrightarrow> \<not> lt x z)"

lemma strict_weak_irrefl: "strict_weak lt \<Longrightarrow> \<not> lt x x"
  by (simp add: strict_weak_def)

lemma strict_weak_asym: "strict_weak lt \<Longrightarrow> lt x y \<Longrightarrow> \<not> lt y x"
  unfolding strict_weak_def by blast

lemma strict_weak_incomp: "strict_weak lt \<Longrightarrow> \<not> lt x y \<Longrightarrow> \<not> lt y z \<Longrightarrow> \<not> lt x z"
  unfolding strict_weak_def by blast

lemma strict_weak_key: "strict_weak (\<lambda>a b. (f a :: 'k :: linorder) < f b)"
  by (auto simp: strict_weak_def)

locale std_sort =
  fixes srt :: "('a \<Rightarrow> 'a \<Rightarrow> bool) \<Rightarrow> 'a list \<Rightarrow> 'a list"
  assumes sort_perm: "mset (srt lt xs) = mset xs"
    and sort_sorted: "strict_weak lt \<Longrightarrow> sorted_wrt (\<lambda>x y. \<not> lt y x) (srt lt xs)"
begin

lemma set_sort: "set (srt lt xs) = set xs"
  by (metis sort_perm set_mset_mset)

lemma sort_eq_Nil: "srt lt xs = [] \<longleftrightarrow> xs = []"
  by (metis sort_perm mset_zero_iff)

lemma length_sort: "length (srt lt xs) = length xs"
  by (metis sort_perm size_mset)

lemma sort_first_in: "xs \<noteq> [] \<Longrightarrow> srt lt xs ! 0 \<in> set xs"
  by (metis length_greater_0_conv nth_mem set_sort sort_eq_Nil)

lemma sort_first_least:
  assumes "strict_weak lt" and "x \<in> set xs"
  shows "\<not> lt x (srt lt xs ! 0)"
proof -
  have "x \<in> set (srt lt xs)" using assms(2) by (simp add: set_sort)
  then obtain y ys where ys: "srt lt xs = y # ys" and x: "x = y \<or> x \<in> set ys"
    by (cases "srt lt xs") auto
  from sort_sorted [OF assms(1), of xs] have "\<forall>z \<in> set ys. \<not> lt z y" by (simp add: ys)
  then show ?thesis using x strict_weak_irrefl [OF assms(1), of y] by (auto simp: ys)
qed

end

text \<open>A sorter that satisfies the contract: insertion by the comparison.\<close>

fun insert_by :: "('a \<Rightarrow> 'a \<Rightarrow> bool) \<Rightarrow> 'a \<Rightarrow> 'a list \<Rightarrow> 'a list" where
  "insert_by lt x [] = [x]"
| "insert_by lt x (y # ys) = (if lt y x then y # insert_by lt x ys else x # y # ys)"

fun insertion_sort :: "('a \<Rightarrow> 'a \<Rightarrow> bool) \<Rightarrow> 'a list \<Rightarrow> 'a list" where
  "insertion_sort lt [] = []"
| "insertion_sort lt (x # xs) = insert_by lt x (insertion_sort lt xs)"

lemma mset_insert_by [simp]: "mset (insert_by lt x ys) = add_mset x (mset ys)"
  by (induction ys) auto

lemma set_insert_by [simp]: "set (insert_by lt x ys) = insert x (set ys)"
  by (induction ys) auto

lemma sorted_insert_by:
  assumes "strict_weak lt"
  shows "sorted_wrt (\<lambda>x y. \<not> lt y x) ys \<Longrightarrow> sorted_wrt (\<lambda>x y. \<not> lt y x) (insert_by lt x ys)"
proof (induction ys)
  case Nil
  then show ?case by simp
next
  case (Cons y ys)
  show ?case
  proof (cases "lt y x")
    case True
    with Cons strict_weak_asym [OF assms True] show ?thesis by auto
  next
    case False
    have "\<not> lt z x" if "z \<in> set ys" for z
      using strict_weak_incomp [OF assms _ False, of z] Cons.prems that by simp
    with Cons False show ?thesis by auto
  qed
qed

interpretation ins_sort: std_sort "insertion_sort :: ('a \<Rightarrow> 'a \<Rightarrow> bool) \<Rightarrow> 'a list \<Rightarrow> 'a list"
proof unfold_locales
  show "mset (insertion_sort lt xs) = mset xs" for lt :: "'a \<Rightarrow> 'a \<Rightarrow> bool" and xs
    by (induction xs) auto
  show "sorted_wrt (\<lambda>x y. \<not> lt y x) (insertion_sort lt xs)"
    if "strict_weak lt" for lt :: "'a \<Rightarrow> 'a \<Rightarrow> bool" and xs
    using that by (induction xs) (auto intro: sorted_insert_by)
qed

lemma std_sort_insertion_sort: "std_sort insertion_sort"
  by (rule ins_sort.std_sort_axioms)

section \<open>C strings\<close>

definition NUL :: char where
  "NUL = CHR 0x00"

text \<open>
  A \<^verbatim>\<open>std::string\<close> made from a buffer: the bytes up to the terminator. The buffers of the program have one
  (a name that is gathered has 12 characters); to read on past the end of one without is not modelled.
\<close>

definition c_string :: "char list \<Rightarrow> string" where
  "c_string row = takeWhile (\<lambda>c. c \<noteq> NUL) row"

lemma takeWhile_update:
  assumes "n < length xs" and "\<forall>c \<in> set (take n xs). P c" and "\<not> P x"
  shows "takeWhile P (xs[n := x]) = take n xs"
proof -
  have "xs[n := x] = take n xs @ x # drop (Suc n) xs" using assms(1) by (rule upd_conv_take_nth_drop)
  then show ?thesis using assms(2,3) by (simp add: takeWhile_append)
qed

lemma c_string_cut:
  assumes "k < length row" and "NUL \<notin> set (take k row)"
  shows "c_string (row[k := NUL]) = take k row"
  unfolding c_string_def by (rule takeWhile_update) (use assms in auto)

end
