(* ===== verification/Affinity.thy ===== *)
theory Affinity
  imports Prelude
begin

text \<open>
  The class \<^verbatim>\<open>AffinityMask\<close> of \<^verbatim>\<open>src/src/include/yloc/affinity.h\<close>: a bit set of one bit per
  online processor, its conversions from and to a Linux \<^verbatim>\<open>cpu_set_t\<close> and an hwloc bitmap, and
  the containment tests. The class derives from \<^verbatim>\<open>boost::dynamic_bitset\<close>, which is not part of
  this repository: its operations are the fields of a record that every definition takes as
  an argument, and the locale \<open>dynamic_bitset\<close> states their documented behaviour.
\<close>

unbundle bit_operations_syntax

section \<open>The interface of boost::dynamic_bitset\<close>

record 'b bitset_ops =
  bs_new :: "nat \<Rightarrow> 'b"                      \<comment> \<open>\<^verbatim>\<open>dynamic_bitset(n)\<close>: \<open>n\<close> bits, all zero\<close>
  bs_size :: "'b \<Rightarrow> nat"
  bs_test :: "'b \<Rightarrow> nat \<Rightarrow> bool"              \<comment> \<open>\<^verbatim>\<open>b[i]\<close> read\<close>
  bs_put :: "'b \<Rightarrow> nat \<Rightarrow> bool \<Rightarrow> 'b"          \<comment> \<open>\<^verbatim>\<open>b[i] = v\<close>\<close>
  bs_and :: "'b \<Rightarrow> 'b \<Rightarrow> 'b"                 \<comment> \<open>\<^verbatim>\<open>operator&\<close>\<close>
  bs_eq :: "'b \<Rightarrow> 'b \<Rightarrow> bool"                \<comment> \<open>\<^verbatim>\<open>operator==\<close>\<close>
  bs_any :: "'b \<Rightarrow> bool"
  bs_count :: "'b \<Rightarrow> nat"
  bs_print :: "'b \<Rightarrow> string"                \<comment> \<open>\<^verbatim>\<open>operator<<\<close>\<close>

text \<open>The bits that are set: the value a bit set stands for.\<close>

definition bits :: "'b bitset_ops \<Rightarrow> 'b \<Rightarrow> nat set" where
  "bits B b = {i. i < bs_size B b \<and> bs_test B b i}"

locale dynamic_bitset =
  fixes B :: "'b bitset_ops"
  assumes size_new [simp]: "bs_size B (bs_new B n) = n"
    and test_new [simp]: "i < n \<Longrightarrow> \<not> bs_test B (bs_new B n) i"
    and size_put [simp]: "i < bs_size B b \<Longrightarrow> bs_size B (bs_put B b i v) = bs_size B b"
    and test_put [simp]: "i < bs_size B b \<Longrightarrow> j < bs_size B b \<Longrightarrow>
      bs_test B (bs_put B b i v) j = (if j = i then v else bs_test B b j)"
    and size_and [simp]: "bs_size B a = bs_size B b \<Longrightarrow> bs_size B (bs_and B a b) = bs_size B b"
    and test_and [simp]: "bs_size B a = bs_size B b \<Longrightarrow> i < bs_size B b \<Longrightarrow>
      bs_test B (bs_and B a b) i = (bs_test B a i \<and> bs_test B b i)"
    and eq_iff: "bs_size B a = bs_size B b \<Longrightarrow>
      bs_eq B a b \<longleftrightarrow> (\<forall>i < bs_size B b. bs_test B a i = bs_test B b i)"
    and any_iff: "bs_any B b \<longleftrightarrow> (\<exists>i < bs_size B b. bs_test B b i)"
    and count_eq: "bs_count B b = card {i. i < bs_size B b \<and> bs_test B b i}"

section \<open>Linux cpu sets\<close>

text \<open>
  \<^verbatim>\<open>cpu_set_t\<close> is a fixed array of \<^verbatim>\<open>CPU_SETSIZE\<close> = 1024 bits. The C library's macros check the
  index: \<^verbatim>\<open>CPU_SET\<close> beyond the array does nothing and \<^verbatim>\<open>CPU_ISSET\<close> is false there.
\<close>

type_synonym cpu_set_t = "1024 word"

definition CPU_ZERO :: cpu_set_t where
  "CPU_ZERO = 0"

definition CPU_ISSET :: "nat \<Rightarrow> cpu_set_t \<Rightarrow> bool" where
  "CPU_ISSET cpu cs \<longleftrightarrow> cpu < 1024 \<and> bit cs cpu"

definition CPU_SET :: "nat \<Rightarrow> cpu_set_t \<Rightarrow> cpu_set_t" where
  "CPU_SET cpu cs = (if cpu < 1024 then set_bit cpu cs else cs)"

lemma CPU_ISSET_ZERO [simp]: "\<not> CPU_ISSET i CPU_ZERO"
  by (simp add: CPU_ISSET_def CPU_ZERO_def)

lemma CPU_ISSET_SET [simp]: "CPU_ISSET i (CPU_SET j m) \<longleftrightarrow> CPU_ISSET i m \<or> (i = j \<and> j < 1024)"
  by (auto simp: CPU_ISSET_def CPU_SET_def bit_simps)

section \<open>hwloc bitmaps\<close>

text \<open>
  An hwloc bitmap (also outside the repository): \<open>hb_foreach\<close> is the sequence of indices that
  \<^verbatim>\<open>hwloc_bitmap_foreach_begin ... end\<close> visits (of a finite bitmap).
\<close>

record 'h hwloc_bitmap_ops =
  hb_zero :: 'h                           \<comment> \<open>\<^verbatim>\<open>hwloc_bitmap_alloc\<close> and \<^verbatim>\<open>hwloc_bitmap_zero\<close>\<close>
  hb_set :: "'h \<Rightarrow> nat \<Rightarrow> 'h"
  hb_isset :: "'h \<Rightarrow> nat \<Rightarrow> bool"
  hb_foreach :: "'h \<Rightarrow> nat list"

locale hwloc_bitmap =
  fixes H :: "'h hwloc_bitmap_ops"
  assumes isset_zero [simp]: "\<not> hb_isset H (hb_zero H) i"
    and isset_set [simp]: "hb_isset H (hb_set H m j) i \<longleftrightarrow> i = j \<or> hb_isset H m i"
    and foreach_iff: "i \<in> set (hb_foreach H m) \<longleftrightarrow> hb_isset H m i"

section \<open>The class AffinityMask\<close>

text \<open>The default constructor; \<open>n\<close> is the static member \<^verbatim>\<open>m_nprocs_online\<close>.\<close>

definition affinity_zero :: "'b bitset_ops \<Rightarrow> nat \<Rightarrow> 'b" where
  "affinity_zero B n = bs_new B n"

text \<open>The constructor from a cpu set.\<close>

definition affinity_of_cpuset :: "'b bitset_ops \<Rightarrow> nat \<Rightarrow> cpu_set_t \<Rightarrow> 'b" where
  "affinity_of_cpuset B n cs =
     fold (\<lambda>cpu b. bs_put B b cpu (CPU_ISSET cpu cs)) [0..<n] (bs_new B n)"

text \<open>
  The constructor from an hwloc bitmap. The loop asserts that each index is below
  \<^verbatim>\<open>m_nprocs_online\<close>; \<open>None\<close> is the failed assertion.
\<close>

fun put_hwloc_ids :: "'b bitset_ops \<Rightarrow> 'h hwloc_bitmap_ops \<Rightarrow> nat \<Rightarrow> 'h \<Rightarrow> nat list \<Rightarrow> 'b \<Rightarrow> 'b option" where
  "put_hwloc_ids B H n cs [] b = Some b"
| "put_hwloc_ids B H n cs (i # ids) b =
     (if i < n then put_hwloc_ids B H n cs ids (bs_put B b i (hb_isset H cs i)) else None)"

definition affinity_of_hwloc :: "'b bitset_ops \<Rightarrow> 'h hwloc_bitmap_ops \<Rightarrow> nat \<Rightarrow> 'h \<Rightarrow> 'b option" where
  "affinity_of_hwloc B H n cs = put_hwloc_ids B H n cs (hb_foreach H cs) (bs_new B n)"

definition cpuset_of_affinity :: "'b bitset_ops \<Rightarrow> nat \<Rightarrow> 'b \<Rightarrow> cpu_set_t" where
  "cpuset_of_affinity B n b =
     fold (\<lambda>cpu cs. if bs_test B b cpu then CPU_SET cpu cs else cs) [0..<n] CPU_ZERO"

definition hwloc_of_affinity :: "'b bitset_ops \<Rightarrow> 'h hwloc_bitmap_ops \<Rightarrow> nat \<Rightarrow> 'b \<Rightarrow> 'h" where
  "hwloc_of_affinity B H n b =
     fold (\<lambda>cpu cs. if bs_test B b cpu then hb_set H cs cpu else cs) [0..<n] (hb_zero H)"

definition is_contained_in :: "'b bitset_ops \<Rightarrow> 'b \<Rightarrow> 'b \<Rightarrow> bool" where
  "is_contained_in B this other \<longleftrightarrow> bs_eq B (bs_and B other this) this"

definition is_containing :: "'b bitset_ops \<Rightarrow> 'b \<Rightarrow> 'b \<Rightarrow> bool" where
  "is_containing B this other \<longleftrightarrow> is_contained_in B other this"

section \<open>What the operations compute\<close>

lemma isset_cpuset_fold:
  "CPU_ISSET i (fold (\<lambda>cpu cs. if P cpu then CPU_SET cpu cs else cs) xs m) \<longleftrightarrow>
     CPU_ISSET i m \<or> (i \<in> set xs \<and> P i \<and> i < 1024)"
  by (induction xs arbitrary: m) auto

lemma isset_cpuset_of_affinity:
  "CPU_ISSET i (cpuset_of_affinity B n b) \<longleftrightarrow> i < n \<and> bs_test B b i \<and> i < 1024"
  by (auto simp: cpuset_of_affinity_def isset_cpuset_fold)

context dynamic_bitset
begin

lemma finite_bits [simp]: "finite (bits B b)"
  by (simp add: bits_def)

lemma count_bits: "bs_count B b = card (bits B b)"
  by (simp add: count_eq bits_def)

lemma any_bits: "bs_any B b \<longleftrightarrow> bits B b \<noteq> {}"
  by (auto simp: any_iff bits_def)

lemma eq_bits: "bs_size B a = bs_size B b \<Longrightarrow> bs_eq B a b \<longleftrightarrow> bits B a = bits B b"
  by (auto simp: eq_iff bits_def)

lemma bits_and: "bs_size B a = bs_size B b \<Longrightarrow> bits B (bs_and B a b) = bits B a \<inter> bits B b"
  by (auto simp: bits_def)

lemma bits_zero [simp]: "bits B (affinity_zero B n) = {}" "bs_size B (affinity_zero B n) = n"
  by (auto simp: affinity_zero_def bits_def)

lemma contained_subset:
  assumes "bs_size B a = bs_size B b"
  shows "is_contained_in B a b \<longleftrightarrow> bits B a \<subseteq> bits B b"
proof -
  have "bs_size B (bs_and B b a) = bs_size B a" using assms by simp
  then show ?thesis using assms by (auto simp: is_contained_in_def eq_bits bits_and)
qed

lemma contained_count_eq:
  assumes "bs_size B a = bs_size B b" and "is_contained_in B a b" and "bs_count B b \<le> bs_count B a"
  shows "bits B a = bits B b"
  using assms by (metis contained_subset count_bits card_seteq finite_bits)

lemma put_fold:
  assumes "set xs \<subseteq> {..<bs_size B b}"
  shows "bs_size B (fold (\<lambda>i b. bs_put B b i (P i)) xs b) = bs_size B b"
    and "j < bs_size B b \<Longrightarrow> bs_test B (fold (\<lambda>i b. bs_put B b i (P i)) xs b) j
           \<longleftrightarrow> (if j \<in> set xs then P j else bs_test B b j)"
  using assms by (induction xs arbitrary: b) auto

lemma size_of_cpuset [simp]: "bs_size B (affinity_of_cpuset B n m) = n"
  by (simp add: affinity_of_cpuset_def put_fold lessThan_atLeast0)

lemma bits_of_cpuset: "bits B (affinity_of_cpuset B n m) = {i. i < n \<and> CPU_ISSET i m}"
  by (auto simp: affinity_of_cpuset_def bits_def put_fold lessThan_atLeast0)

lemma put_hwloc_ids_Some:
  assumes "set ids \<subseteq> {..<n}" and "bs_size B b = n"
  shows "put_hwloc_ids B H n m ids b = Some (fold (\<lambda>i b. bs_put B b i (hb_isset H m i)) ids b)"
  using assms by (induction ids arbitrary: b) auto

end

lemma put_hwloc_ids_None: "\<not> set ids \<subseteq> {..<n} \<Longrightarrow> put_hwloc_ids B H n m ids b = None"
  by (induction ids arbitrary: b) auto

section \<open>Instances\<close>

text \<open>Lists of booleans satisfy the interface of the bit set.\<close>

definition bool_list_ops :: "bool list bitset_ops" where
  "bool_list_ops = \<lparr>bs_new = (\<lambda>n. replicate n False), bs_size = length,
     bs_test = (\<lambda>b i. b ! i), bs_put = (\<lambda>b i v. b[i := v]), bs_and = map2 (\<and>),
     bs_eq = (=), bs_any = (\<lambda>b. True \<in> set b), bs_count = (\<lambda>b. length (filter id b)),
     bs_print = (\<lambda>b. map (\<lambda>v. if v then CHR ''1'' else CHR ''0'') (rev b))\<rparr>"

interpretation bool_list: dynamic_bitset bool_list_ops
proof unfold_locales
  show "bs_count bool_list_ops b =
      card {i. i < bs_size bool_list_ops b \<and> bs_test bool_list_ops b i}" for b
    by (simp add: bool_list_ops_def length_filter_conv_card)
qed (auto simp: bool_list_ops_def nth_list_update in_set_conv_nth intro: nth_equalityI)

lemma dynamic_bitset_bool_list: "dynamic_bitset bool_list_ops"
  by (rule bool_list.dynamic_bitset_axioms)

text \<open>Lists of indices satisfy the interface of a finite hwloc bitmap.\<close>

definition index_list_ops :: "nat list hwloc_bitmap_ops" where
  "index_list_ops = \<lparr>hb_zero = [], hb_set = (\<lambda>m i. List.insert i m),
     hb_isset = (\<lambda>m i. i \<in> set m), hb_foreach = (\<lambda>m. m)\<rparr>"

interpretation index_list: hwloc_bitmap index_list_ops
  by unfold_locales (auto simp: index_list_ops_def)

lemma hwloc_bitmap_index_list: "hwloc_bitmap index_list_ops"
  by (rule index_list.hwloc_bitmap_axioms)

section \<open>Properties\<close>

context dynamic_bitset
begin

lemma of_hwloc_exact:
  assumes "hwloc_bitmap H"
  shows "affinity_of_hwloc B H n m =
    (if \<exists>i. hb_isset H m i \<and> n \<le> i then None
     else Some (fold (\<lambda>i b. bs_put B b i (hb_isset H m i)) (hb_foreach H m) (bs_new B n)))"
proof -
  have "set (hb_foreach H m) \<subseteq> {..<n} \<longleftrightarrow> \<not> (\<exists>i. hb_isset H m i \<and> n \<le> i)"
    using hwloc_bitmap.foreach_iff [OF assms, of _ m] by (auto simp: not_le)
  then show ?thesis
    by (auto simp: affinity_of_hwloc_def put_hwloc_ids_Some put_hwloc_ids_None)
qed

lemma of_hwloc_bits:
  assumes "hwloc_bitmap H" and "affinity_of_hwloc B H n m = Some b"
  shows "bs_size B b = n" and "bits B b = {i. hb_isset H m i}"
proof -
  have lt: "set (hb_foreach H m) \<subseteq> {..<bs_size B (bs_new B n)}"
    and b: "b = fold (\<lambda>i b. bs_put B b i (hb_isset H m i)) (hb_foreach H m) (bs_new B n)"
    using assms(2) hwloc_bitmap.foreach_iff [OF assms(1), of _ m]
    by (auto simp: of_hwloc_exact [OF assms(1)] not_le split: if_splits)
  show "bs_size B b = n" using put_fold(1) [OF lt] by (simp add: b)
  then have "i \<in> bits B b \<longleftrightarrow> hb_isset H m i" for i
    using lt hwloc_bitmap.foreach_iff [OF assms(1), of i m] put_fold(2) [OF lt, of i "hb_isset H m"]
    by (cases "hb_isset H m i") (auto simp: bits_def b)
  then show "bits B b = {i. hb_isset H m i}" by auto
qed

end

context hwloc_bitmap
begin

lemma isset_hwloc_fold:
  "hb_isset H (fold (\<lambda>cpu cs. if P cpu then hb_set H cs cpu else cs) xs m) i \<longleftrightarrow>
     hb_isset H m i \<or> (i \<in> set xs \<and> P i)"
  by (induction xs arbitrary: m) auto

lemma isset_hwloc_of_affinity:
  "hb_isset H (hwloc_of_affinity B H n b) i \<longleftrightarrow> i < n \<and> bs_test B b i"
  by (auto simp: hwloc_of_affinity_def isset_hwloc_fold)

end

text \<open>A mask type and a bitmap type together: the conversions between them.\<close>

locale affinity_conversion = dynamic_bitset B + hwloc_bitmap H
  for B :: "'b bitset_ops" and H :: "'h hwloc_bitmap_ops"
begin

lemma hwloc_none: "affinity_of_hwloc B H n m = None \<longleftrightarrow> (\<exists>i. hb_isset H m i \<and> n \<le> i)"
  by (simp add: of_hwloc_exact [OF hwloc_bitmap_axioms])

lemma hwloc_bits: "affinity_of_hwloc B H n m = Some b \<Longrightarrow> bits B b = {i. hb_isset H m i}"
  by (rule of_hwloc_bits(2) [OF hwloc_bitmap_axioms])

lemma hwloc_back:
  assumes "bs_size B a = n"
  shows "\<exists>b. affinity_of_hwloc B H n (hwloc_of_affinity B H n a) = Some b \<and> bs_eq B b a"
proof -
  have "\<not> (\<exists>i. hb_isset H (hwloc_of_affinity B H n a) i \<and> n \<le> i)"
    by (auto simp: isset_hwloc_of_affinity)
  then obtain b where b: "affinity_of_hwloc B H n (hwloc_of_affinity B H n a) = Some b"
    using hwloc_none by fastforce
  have "bits B b = {i. i < n \<and> bs_test B a i}"
    by (simp only: hwloc_bits [OF b] isset_hwloc_of_affinity)
  then have "bits B b = bits B a" by (simp only: bits_def assms)
  moreover have "bs_size B b = bs_size B a"
    by (simp only: of_hwloc_bits(1) [OF hwloc_bitmap_axioms b] assms)
  ultimately show ?thesis using b eq_bits [of b a] by blast
qed

end

interpretation list_conversion: affinity_conversion bool_list_ops index_list_ops
  by unfold_locales

text \<open>
  Containment of affinity masks is inclusion of the processor sets they stand for, for masks
  of the same machine (of the same size); \<^verbatim>\<open>is_containing\<close> is its converse.
\<close>

lemma is_containing_superset:
  assumes "dynamic_bitset B" and "bs_size B a = bs_size B b"
  shows "(is_containing B a b \<longleftrightarrow> bits B b \<subseteq> bits B a) \<and>
    (is_contained_in B a b \<longleftrightarrow> bits B a \<subseteq> bits B b)"
  using assms by (simp add: is_containing_def dynamic_bitset.contained_subset)

text \<open>
  C34. The conversion to a Linux cpu set and back keeps exactly the processors below
  \<^verbatim>\<open>CPU_SETSIZE\<close> = 1024: nothing is lost on machines of at most 1024 processors, and a
  processor with a larger number is dropped without an error.
\<close>

theorem cpuset_round_trip:
  assumes "dynamic_bitset B" and "bs_size B b = n"
  shows "bits B (affinity_of_cpuset B n (cpuset_of_affinity B n b)) = bits B b \<inter> {..<1024}"
  using dynamic_bitset.bits_of_cpuset [OF assms(1)] assms(2)
  by (auto simp: isset_cpuset_of_affinity) (auto simp: bits_def)

theorem cpuset_round_trip_witness:
  "bits bool_list_ops (affinity_of_cpuset bool_list_ops 3
     (cpuset_of_affinity bool_list_ops 3 [True, False, True])) =
   bits bool_list_ops [True, False, True] \<inter> {..<1024} \<and>
   2 \<in> bits bool_list_ops [True, False, True]"
proof -
  have "bs_size bool_list_ops [True, False, True] = 3" by (simp add: bool_list_ops_def)
  from cpuset_round_trip [OF dynamic_bitset_bool_list this] show ?thesis
    by (simp add: bits_def bool_list_ops_def numeral_2_eq_2)
qed



text \<open>
  C35. A mask survives the way to an hwloc bitmap and back: the conversion returns and gives an equal
  mask, on machines of any size.
\<close>

theorem hwloc_round_trip:
  assumes "dynamic_bitset B" and "hwloc_bitmap H" and "bs_size B a = n"
  shows "\<exists>b. affinity_of_hwloc B H n (hwloc_of_affinity B H n a) = Some b \<and> bs_eq B b a"
  by (rule affinity_conversion.hwloc_back [OF affinity_conversion.intro [OF assms(1,2)] assms(3)])

theorem hwloc_round_trip_witness:
  "\<exists>b. affinity_of_hwloc bool_list_ops index_list_ops 3
     (hwloc_of_affinity bool_list_ops index_list_ops 3 [True, False, True]) = Some b \<and>
     bs_eq bool_list_ops b [True, False, True]"
  by (rule hwloc_round_trip [OF dynamic_bitset_bool_list hwloc_bitmap_index_list])
    (simp add: bool_list_ops_def)

end
