(* ===== verification/Adapter.thy ===== *)
theory Adapter
  imports Affinity
begin

text \<open>
  Properties and adapters: \<^verbatim>\<open>src/src/include/yloc/modules/property.h\<close> and
  \<^verbatim>\<open>src/src/include/yloc/modules/adapter.h\<close>. An adapter is the object through which a module
  answers queries about a component. A \<^verbatim>\<open>Property<RT>\<close> holds a pointer to a member function
  of \<^verbatim>\<open>Adapter\<close>; here such a pointer is a \<open>member\<close>, and an adapter is the table of what its
  (virtual) member functions return, so that \<^verbatim>\<open>std::invoke(pf, a)\<close> is a lookup in the table.
\<close>

section \<open>Types, values and member functions\<close>

text \<open>The result types \<^verbatim>\<open>RT\<close> of properties, as \<^verbatim>\<open>typeid\<close> tells them apart.\<close>

datatype rt = RT_uint64 | RT_int64 | RT_AffinityMask

datatype 'b pvalue = U64 u64 | I64 u64 | Mask 'b

primrec rt_of :: "'b pvalue \<Rightarrow> rt" where
  "rt_of (U64 w) = RT_uint64"
| "rt_of (I64 w) = RT_int64"
| "rt_of (Mask b) = RT_AffinityMask"

text \<open>
  The member functions that \<^verbatim>\<open>ADAPTER_PROPERTY\<close> declares, in the order of the class, and the
  further ones that the adapter of a module may add (by name and result type).
\<close>

datatype member_fn =
    Adapter_temperature | Adapter_memory | Adapter_memory_usage | Adapter_memory_load
  | Adapter_memory_frequency | Adapter_bdfid | Adapter_numa_affinity | Adapter_bandwidth
  | Adapter_bandwidth_min | Adapter_bandwidth_max | Adapter_throughput | Adapter_latency
  | Adapter_frequency | Adapter_power | Adapter_usage | Adapter_load | Adapter_pci_throughput
  | Adapter_pci_throughput_read | Adapter_pci_throughput_write | Adapter_cpu_affinity_mask
  | Adapter_mpi_rank
  | Custom rt string

fun member_rt :: "member_fn \<Rightarrow> rt" where
  "member_rt Adapter_temperature = RT_int64"
| "member_rt Adapter_cpu_affinity_mask = RT_AffinityMask"
| "member_rt (Custom t s) = t"
| "member_rt _ = RT_uint64"

section \<open>Property\<close>

record property =
  m_name :: string
  m_rt :: rt                  \<comment> \<open>the template argument \<^verbatim>\<open>RT\<close>\<close>
  m_property_fn :: member_fn

text \<open>\<^verbatim>\<open>make_property_pair\<close>: the template argument is deduced from the member function.\<close>

definition make_property_pair :: "string \<Rightarrow> member_fn \<Rightarrow> string \<times> property" where
  "make_property_pair property_name pf =
     (property_name, \<lparr>m_name = property_name, m_rt = member_rt pf, m_property_fn = pf\<rparr>)"

definition supports :: "property \<Rightarrow> rt \<Rightarrow> bool" where
  "supports p type \<longleftrightarrow> type = m_rt p"

section \<open>Adapter\<close>

text \<open>
  The static map of the predefined properties, \<^verbatim>\<open>Adapter::map()\<close>, in the order of its
  initialiser.
\<close>

definition adapter_map_entries :: "(string \<times> property) list" where
  "adapter_map_entries =
     [make_property_pair ''memory'' Adapter_memory,
      make_property_pair ''memory_usage'' Adapter_memory_usage,
      make_property_pair ''memory_load'' Adapter_memory_load,
      make_property_pair ''memory_frequency'' Adapter_memory_frequency,
      make_property_pair ''bdfid'' Adapter_bdfid,
      make_property_pair ''numa_affinity'' Adapter_numa_affinity,
      make_property_pair ''bandwidth'' Adapter_bandwidth,
      make_property_pair ''bandwidth_min'' Adapter_bandwidth_min,
      make_property_pair ''bandwidth_max'' Adapter_bandwidth_max,
      make_property_pair ''throughput'' Adapter_throughput,
      make_property_pair ''latency'' Adapter_latency,
      make_property_pair ''frequency'' Adapter_frequency,
      make_property_pair ''temperature'' Adapter_temperature,
      make_property_pair ''power'' Adapter_power,
      make_property_pair ''usage'' Adapter_usage,
      make_property_pair ''load'' Adapter_load,
      make_property_pair ''pci_throughput'' Adapter_pci_throughput,
      make_property_pair ''pci_throughput_read'' Adapter_pci_throughput_read,
      make_property_pair ''pci_throughput_write'' Adapter_pci_throughput_write,
      make_property_pair ''mpi_rank'' Adapter_mpi_rank,
      make_property_pair ''cpu_affinity_mask'' Adapter_cpu_affinity_mask]"

definition adapter_map :: "string \<rightharpoonup> property" where
  "adapter_map = map_of adapter_map_entries"

text \<open>
  An adapter object: what its virtual functions return. \<open>vcall\<close> answers the member functions
  of properties, \<open>to_str\<close> is \<^verbatim>\<open>to_string()\<close>, \<open>module_map\<close> the virtual \<^verbatim>\<open>module_map()\<close>.
\<close>

record 'b adapter =
  vcall :: "member_fn \<Rightarrow> 'b pvalue option"
  to_str :: string
  module_map :: "string \<rightharpoonup> property"

text \<open>The base class: every property is empty, the module map is the global one.\<close>

definition base_adapter :: "'b adapter" where
  "base_adapter = \<lparr>vcall = (\<lambda>_. None), to_str = [], module_map = adapter_map\<rparr>"

text \<open>Overriding a member function in a derived class.\<close>

definition override :: "member_fn \<Rightarrow> 'b pvalue option \<Rightarrow> 'b adapter \<Rightarrow> 'b adapter" where
  "override m r a = a\<lparr>vcall := (vcall a)(m := r)\<rparr>"

definition property_value :: "property \<Rightarrow> 'b adapter \<Rightarrow> 'b pvalue option" where
  "property_value p a = vcall a (m_property_fn p)"

text \<open>\<^verbatim>\<open>ss << v.value()\<close>; a signed 64-bit value prints with its sign.\<close>

primrec print_value :: "'b bitset_ops \<Rightarrow> 'b pvalue \<Rightarrow> string" where
  "print_value B (U64 w) = decimal (unat w)"
| "print_value B (I64 w) = decimal_int (sint w)"
| "print_value B (Mask b) = bs_print B b"

definition value_to_string :: "'b bitset_ops \<Rightarrow> property \<Rightarrow> 'b adapter \<Rightarrow> string option" where
  "value_to_string B p a =
     (case property_value p a of Some v \<Rightarrow> Some (print_value B v) | None \<Rightarrow> None)"

section \<open>What the compiler checks\<close>

text \<open>
  C++ types guarantee that a member function returns a value of its declared type, and that the
  template argument of a property is the result type of its member function.
\<close>

definition property_typed :: "property \<Rightarrow> bool" where
  "property_typed p \<longleftrightarrow> m_rt p = member_rt (m_property_fn p)"

definition adapter_typed :: "'b adapter \<Rightarrow> bool" where
  "adapter_typed a \<longleftrightarrow> (\<forall>m v. vcall a m = Some v \<longrightarrow> rt_of v = member_rt m) \<and>
     (\<forall>s p. module_map a s = Some p \<longrightarrow> property_typed p)"

lemma make_property_pair_typed: "property_typed (snd (make_property_pair s m))"
  by (simp add: make_property_pair_def property_typed_def)

lemma fst_make_property_pair [simp]: "fst (make_property_pair s m) = s"
  by (simp add: make_property_pair_def)

lemma adapter_map_entries_typed:
  "e \<in> set adapter_map_entries \<Longrightarrow> property_typed (snd e) \<and> m_name (snd e) = fst e"
proof -
  have "list_all (\<lambda>e. property_typed (snd e) \<and> m_name (snd e) = fst e) adapter_map_entries"
    by (simp add: adapter_map_entries_def make_property_pair_def property_typed_def)
  then show "e \<in> set adapter_map_entries \<Longrightarrow> property_typed (snd e) \<and> m_name (snd e) = fst e"
    by (simp add: list_all_iff)
qed

lemma adapter_map_typed: "adapter_map s = Some p \<Longrightarrow> property_typed p \<and> m_name p = s"
  by (auto simp: adapter_map_def dest!: map_of_SomeD adapter_map_entries_typed)

lemma base_adapter_typed [simp, intro]: "adapter_typed base_adapter"
  by (auto simp: adapter_typed_def base_adapter_def dest: adapter_map_typed)

lemma override_typed [intro]:
  "adapter_typed a \<Longrightarrow> (\<And>v. r = Some v \<Longrightarrow> rt_of v = member_rt m) \<Longrightarrow>
     adapter_typed (override m r a)"
  by (auto simp: adapter_typed_def override_def)

lemma vcall_override [simp]:
  "vcall (override m r a) m' = (if m' = m then r else vcall a m')"
  by (simp add: override_def)

lemma to_str_override [simp]: "to_str (override m r a) = to_str a"
  by (simp add: override_def)

lemma module_map_override [simp]: "module_map (override m r a) = module_map a"
  by (simp add: override_def)

lemma base_adapter_simps [simp]:
  "vcall base_adapter m = None" "to_str base_adapter = []" "module_map base_adapter = adapter_map"
  by (simp_all add: base_adapter_def)

lemma property_value_typed:
  "adapter_typed a \<Longrightarrow> property_typed p \<Longrightarrow> property_value p a = Some v \<Longrightarrow> rt_of v = m_rt p"
  by (simp add: adapter_typed_def property_typed_def property_value_def)

lemma value_to_string_eq: "value_to_string B p a = map_option (print_value B) (property_value p a)"
  by (simp add: value_to_string_def split: option.splits)

text \<open>The names and the member functions of the global map, in full.\<close>

lemma adapter_map_simps [simp]:
  "adapter_map ''memory'' = Some (snd (make_property_pair ''memory'' Adapter_memory))"
  "adapter_map ''bdfid'' = Some (snd (make_property_pair ''bdfid'' Adapter_bdfid))"
  "adapter_map ''temperature'' = Some (snd (make_property_pair ''temperature'' Adapter_temperature))"
  "adapter_map ''mpi_rank'' = Some (snd (make_property_pair ''mpi_rank'' Adapter_mpi_rank))"
  "adapter_map ''cpu_affinity_mask'' =
     Some (snd (make_property_pair ''cpu_affinity_mask'' Adapter_cpu_affinity_mask))"
  by (simp_all add: adapter_map_def adapter_map_entries_def make_property_pair_def)

section \<open>Properties\<close>

text \<open>The name of a predefined member function, as the class declares it.\<close>

primrec member_name :: "member_fn \<Rightarrow> string" where
  "member_name Adapter_temperature = ''temperature''"
| "member_name Adapter_memory = ''memory''"
| "member_name Adapter_memory_usage = ''memory_usage''"
| "member_name Adapter_memory_load = ''memory_load''"
| "member_name Adapter_memory_frequency = ''memory_frequency''"
| "member_name Adapter_bdfid = ''bdfid''"
| "member_name Adapter_numa_affinity = ''numa_affinity''"
| "member_name Adapter_bandwidth = ''bandwidth''"
| "member_name Adapter_bandwidth_min = ''bandwidth_min''"
| "member_name Adapter_bandwidth_max = ''bandwidth_max''"
| "member_name Adapter_throughput = ''throughput''"
| "member_name Adapter_latency = ''latency''"
| "member_name Adapter_frequency = ''frequency''"
| "member_name Adapter_power = ''power''"
| "member_name Adapter_usage = ''usage''"
| "member_name Adapter_load = ''load''"
| "member_name Adapter_pci_throughput = ''pci_throughput''"
| "member_name Adapter_pci_throughput_read = ''pci_throughput_read''"
| "member_name Adapter_pci_throughput_write = ''pci_throughput_write''"
| "member_name Adapter_cpu_affinity_mask = ''cpu_affinity_mask''"
| "member_name Adapter_mpi_rank = ''mpi_rank''"
| "member_name (Custom t s) = s"

definition is_custom :: "member_fn \<Rightarrow> bool" where
  "is_custom m \<longleftrightarrow> (case m of Custom t s \<Rightarrow> True | _ \<Rightarrow> False)"

lemma adapter_names_distinct: "distinct (map fst adapter_map_entries)"
  by (simp add: adapter_map_entries_def)

definition predefined_members :: "member_fn list" where
  "predefined_members =
     [Adapter_memory, Adapter_memory_usage, Adapter_memory_load, Adapter_memory_frequency,
      Adapter_bdfid, Adapter_numa_affinity, Adapter_bandwidth, Adapter_bandwidth_min,
      Adapter_bandwidth_max, Adapter_throughput, Adapter_latency, Adapter_frequency,
      Adapter_temperature, Adapter_power, Adapter_usage, Adapter_load, Adapter_pci_throughput,
      Adapter_pci_throughput_read, Adapter_pci_throughput_write, Adapter_mpi_rank,
      Adapter_cpu_affinity_mask]"

lemma set_predefined_members: "m \<in> set predefined_members \<longleftrightarrow> \<not> is_custom m"
  by (cases m) (simp_all add: predefined_members_def is_custom_def)

lemma adapter_map_entries_eq:
  "adapter_map_entries = map (\<lambda>m. make_property_pair (member_name m) m) predefined_members"
  by (simp add: adapter_map_entries_def predefined_members_def)

text \<open>
  The global property map offers exactly the member functions of the class, each under its own
  name and with its own result type: a name resolves to \<open>p\<close> if and only if \<open>p\<close> is the
  property made of the (predefined) member function of that name.
\<close>

lemma adapter_map_complete:
  "adapter_map s = Some p \<longleftrightarrow>
     (\<exists>m. \<not> is_custom m \<and> member_name m = s \<and>
        p = \<lparr>m_name = s, m_rt = member_rt m, m_property_fn = m\<rparr>)"
proof -
  have "adapter_map s = Some p \<longleftrightarrow> (s, p) \<in> set adapter_map_entries"
    unfolding adapter_map_def by (rule map_of_eq_Some_iff [OF adapter_names_distinct])
  then show ?thesis
    by (auto simp: adapter_map_entries_eq make_property_pair_def set_predefined_members)
qed

end
