(* ===== verification/Component_Types.thy ===== *)
theory Component_Types
  imports Prelude
begin

text \<open>
  The component types of \<^verbatim>\<open>src/src/include/yloc/component_types.h\<close>: the class hierarchy
  that \<^verbatim>\<open>YLOC_DECLARE_TYPE\<close> declares, the run-time test \<^verbatim>\<open>is_a\<close> by \<^verbatim>\<open>dynamic_cast\<close>, the
  virtual \<^verbatim>\<open>test_component\<close> and \<^verbatim>\<open>to_string\<close>, and the registry \<^verbatim>\<open>Component::map()\<close> from
  names to types. Each class has one static object (\<^verbatim>\<open>ptr()\<close>), so a value of \<^verbatim>\<open>ctype\<close>
  stands for a class and for the pointer to its object alike.
\<close>

section \<open>The declared classes\<close>

datatype ctype =
    Component | UnknownComponentType | Node | Compute | CPUCore | LogicalCore | PhysicalCore |
    Storage | Memory | Cache | PersistentStorage | VolatileMemory | NonVolatileMemory |
    DataCache | InstructionCache | UnifiedCache | L1Cache | L2Cache | L3Cache | L4Cache |
    L1DataCache | L2DataCache | L3DataCache | L4DataCache | L1InstructionCache |
    L2InstructionCache | L3InstructionCache | L4InstructionCache | L1UnifiedCache |
    L2UnifiedCache | L3UnifiedCache | L4UnifiedCache | SolidStateDrive | HardDiskDrive |
    PCIDevice | Bridge | LogicalAccelerator | LogicalGPU | Accelerator | GPU | FPGA |
    GPUCore | GPUMemory | InputOutput | NetworkDevice | Link | Bus | Misc | LogicalEdgeType |
    Parent | Child | LogicalComponent | MPIProcess

text \<open>The direct bases, in the order of the declarations.\<close>

primrec bases :: "ctype \<Rightarrow> ctype list" where
  "bases Component = []"
| "bases UnknownComponentType = [Component]"
| "bases Node = [Component]"
| "bases Compute = [Component]"
| "bases CPUCore = [Compute]"
| "bases LogicalCore = [CPUCore]"
| "bases PhysicalCore = [CPUCore]"
| "bases Storage = [Component]"
| "bases Memory = [Storage]"
| "bases Cache = [Storage]"
| "bases PersistentStorage = [Storage]"
| "bases VolatileMemory = [Memory]"
| "bases NonVolatileMemory = [Memory]"
| "bases DataCache = [Cache]"
| "bases InstructionCache = [Cache]"
| "bases UnifiedCache = [DataCache, InstructionCache]"
| "bases L1Cache = [Cache]"
| "bases L2Cache = [Cache]"
| "bases L3Cache = [Cache]"
| "bases L4Cache = [Cache]"
| "bases L1DataCache = [L1Cache, DataCache]"
| "bases L2DataCache = [L2Cache, DataCache]"
| "bases L3DataCache = [L3Cache, DataCache]"
| "bases L4DataCache = [L4Cache, DataCache]"
| "bases L1InstructionCache = [L1Cache, InstructionCache]"
| "bases L2InstructionCache = [L2Cache, InstructionCache]"
| "bases L3InstructionCache = [L3Cache, InstructionCache]"
| "bases L4InstructionCache = [L4Cache, InstructionCache]"
| "bases L1UnifiedCache = [L1Cache, UnifiedCache]"
| "bases L2UnifiedCache = [L2Cache, UnifiedCache]"
| "bases L3UnifiedCache = [L3Cache, UnifiedCache]"
| "bases L4UnifiedCache = [L4Cache, UnifiedCache]"
| "bases SolidStateDrive = [PersistentStorage]"
| "bases HardDiskDrive = [PersistentStorage]"
| "bases PCIDevice = [Component]"
| "bases Bridge = [Component]"
| "bases LogicalAccelerator = [Component]"
| "bases LogicalGPU = [LogicalAccelerator]"
| "bases Accelerator = [PCIDevice]"
| "bases GPU = [Accelerator]"
| "bases FPGA = [Accelerator]"
| "bases GPUCore = [GPU, Compute]"
| "bases GPUMemory = [GPU, Memory]"
| "bases InputOutput = [Component]"
| "bases NetworkDevice = [PCIDevice, InputOutput]"
| "bases Link = [Component]"
| "bases Bus = [Link]"
| "bases Misc = [Component]"
| "bases LogicalEdgeType = [Component]"
| "bases Parent = [LogicalEdgeType]"
| "bases Child = [LogicalEdgeType]"
| "bases LogicalComponent = [Component]"
| "bases MPIProcess = [LogicalComponent]"

primrec type_to_string :: "ctype \<Rightarrow> string" where
  "type_to_string Component = ''Component''"
| "type_to_string UnknownComponentType = ''UnknownComponentType''"
| "type_to_string Node = ''Node''"
| "type_to_string Compute = ''Compute''"
| "type_to_string CPUCore = ''CPUCore''"
| "type_to_string LogicalCore = ''LogicalCore''"
| "type_to_string PhysicalCore = ''PhysicalCore''"
| "type_to_string Storage = ''Storage''"
| "type_to_string Memory = ''Memory''"
| "type_to_string Cache = ''Cache''"
| "type_to_string PersistentStorage = ''PersistentStorage''"
| "type_to_string VolatileMemory = ''VolatileMemory''"
| "type_to_string NonVolatileMemory = ''NonVolatileMemory''"
| "type_to_string DataCache = ''DataCache''"
| "type_to_string InstructionCache = ''InstructionCache''"
| "type_to_string UnifiedCache = ''UnifiedCache''"
| "type_to_string L1Cache = ''L1Cache''"
| "type_to_string L2Cache = ''L2Cache''"
| "type_to_string L3Cache = ''L3Cache''"
| "type_to_string L4Cache = ''L4Cache''"
| "type_to_string L1DataCache = ''L1DataCache''"
| "type_to_string L2DataCache = ''L2DataCache''"
| "type_to_string L3DataCache = ''L3DataCache''"
| "type_to_string L4DataCache = ''L4DataCache''"
| "type_to_string L1InstructionCache = ''L1InstructionCache''"
| "type_to_string L2InstructionCache = ''L2InstructionCache''"
| "type_to_string L3InstructionCache = ''L3InstructionCache''"
| "type_to_string L4InstructionCache = ''L4InstructionCache''"
| "type_to_string L1UnifiedCache = ''L1UnifiedCache''"
| "type_to_string L2UnifiedCache = ''L2UnifiedCache''"
| "type_to_string L3UnifiedCache = ''L3UnifiedCache''"
| "type_to_string L4UnifiedCache = ''L4UnifiedCache''"
| "type_to_string SolidStateDrive = ''SolidStateDrive''"
| "type_to_string HardDiskDrive = ''HardDiskDrive''"
| "type_to_string PCIDevice = ''PCIDevice''"
| "type_to_string Bridge = ''Bridge''"
| "type_to_string LogicalAccelerator = ''LogicalAccelerator''"
| "type_to_string LogicalGPU = ''LogicalGPU''"
| "type_to_string Accelerator = ''Accelerator''"
| "type_to_string GPU = ''GPU''"
| "type_to_string FPGA = ''FPGA''"
| "type_to_string GPUCore = ''GPUCore''"
| "type_to_string GPUMemory = ''GPUMemory''"
| "type_to_string InputOutput = ''InputOutput''"
| "type_to_string NetworkDevice = ''NetworkDevice''"
| "type_to_string Link = ''Link''"
| "type_to_string Bus = ''Bus''"
| "type_to_string Misc = ''Misc''"
| "type_to_string LogicalEdgeType = ''LogicalEdgeType''"
| "type_to_string Parent = ''Parent''"
| "type_to_string Child = ''Child''"
| "type_to_string LogicalComponent = ''LogicalComponent''"
| "type_to_string MPIProcess = ''MPIProcess''"

definition declared_types :: "ctype list" where
  "declared_types =
   [UnknownComponentType, Node, Compute, CPUCore, LogicalCore, PhysicalCore, Storage,
      Memory, Cache, PersistentStorage, VolatileMemory, NonVolatileMemory, DataCache,
      InstructionCache, UnifiedCache, L1Cache, L2Cache, L3Cache, L4Cache, L1DataCache,
      L2DataCache, L3DataCache, L4DataCache, L1InstructionCache, L2InstructionCache,
      L3InstructionCache, L4InstructionCache, L1UnifiedCache, L2UnifiedCache, L3UnifiedCache,
      L4UnifiedCache, SolidStateDrive, HardDiskDrive, PCIDevice, Bridge, LogicalAccelerator,
      LogicalGPU, Accelerator, GPU, FPGA, GPUCore, GPUMemory, InputOutput, NetworkDevice,
      Link, Bus, Misc, LogicalEdgeType, Parent, Child, LogicalComponent, MPIProcess]"

section \<open>Base-class subobjects and dynamic_cast\<close>

text \<open>
  The macro expands to \<^verbatim>\<open>class T : virtual public B1, B2\<close>: only the first base is virtual
  and public, a second base is (by the default of \<^verbatim>\<open>class\<close>) non-virtual and private.
\<close>

definition virtual_bases :: "ctype \<Rightarrow> ctype list" where
  "virtual_bases c = take 1 (bases c)"

definition private_bases :: "ctype \<Rightarrow> ctype list" where
  "private_bases c = drop 1 (bases c)"

text \<open>The classes a class derives from in at most \<open>n\<close> steps, with repetitions.\<close>

fun supers_upto :: "nat \<Rightarrow> ctype \<Rightarrow> ctype list" where
  "supers_upto 0 c = [c]"
| "supers_upto (Suc n) c = c # concat (map (supers_upto n) (bases c))"

text \<open>The hierarchy is five levels deep (\<open>L1UnifiedCache\<close> to \<open>Component\<close>).\<close>

definition supers :: "ctype \<Rightarrow> ctype list" where
  "supers c = supers_upto 5 c"

text \<open>The subobjects that an object of class \<open>c\<close> holds by non-virtual inheritance.\<close>

fun private_part :: "nat \<Rightarrow> ctype \<Rightarrow> ctype list" where
  "private_part 0 c = [c]"
| "private_part (Suc n) c = c # concat (map (private_part n) (private_bases c))"

text \<open>
  All subobjects of a complete object of class \<open>c\<close>: its own non-virtual part, and one part
  for each class that is a virtual base anywhere in it.
\<close>

definition subobjects :: "ctype \<Rightarrow> ctype list" where
  "subobjects c = private_part 5 c @
     concat (map (private_part 5) (remdups (concat (map virtual_bases (supers c)))))"

text \<open>Whether \<open>Component\<close> is reached from \<open>c\<close> through public inheritance only.\<close>

fun public_component_upto :: "nat \<Rightarrow> ctype \<Rightarrow> bool" where
  "public_component_upto 0 c \<longleftrightarrow> c = Component"
| "public_component_upto (Suc n) c \<longleftrightarrow>
     c = Component \<or> list_ex (public_component_upto n) (virtual_bases c)"

text \<open>
  \<^verbatim>\<open>dynamic_cast<const T *>(p)\<close> for a \<^verbatim>\<open>const Component *p\<close> whose object has class \<open>dyn\<close>
  (the run-time check of the C++ standard): it succeeds if the object holds exactly one
  \<open>T\<close> subobject, and \<open>Component\<close> is a public base of it.
\<close>

definition dynamic_cast_ok :: "ctype \<Rightarrow> ctype \<Rightarrow> bool" where
  "dynamic_cast_ok dyn t \<longleftrightarrow> count_list (subobjects dyn) t = 1 \<and> public_component_upto 5 t"

definition is_a :: "ctype \<Rightarrow> ctype \<Rightarrow> bool" where
  "is_a this t \<longleftrightarrow> dynamic_cast_ok this t"

text \<open>The virtual \<^verbatim>\<open>test_component\<close>: constantly true on \<open>Component\<close> itself.\<close>

definition test_component :: "ctype \<Rightarrow> ctype \<Rightarrow> bool" where
  "test_component this other \<longleftrightarrow> (if this = Component then True else dynamic_cast_ok other this)"

section \<open>The registry\<close>

text \<open>
  Every declared type inserts itself once, at static initialisation:
  \<^verbatim>\<open>Component::map()[#type_name] = ptr()\<close>. The base class \<open>Component\<close> does not.
\<close>

definition insert_type_once :: "ctype \<Rightarrow> (string \<rightharpoonup> ctype) \<Rightarrow> (string \<rightharpoonup> ctype)" where
  "insert_type_once t m = m(type_to_string t \<mapsto> t)"

definition component_map :: "string \<rightharpoonup> ctype" where
  "component_map = fold insert_type_once declared_types Map.empty"

section \<open>The hierarchy as an order\<close>

text \<open>The specification: reflexive transitive closure of the declared base relation.\<close>

definition base_rel :: "(ctype \<times> ctype) set" where
  "base_rel = {(c, b). b \<in> set (bases c)}"

lemmas hierarchy_eval = supers_def subobjects_def virtual_bases_def private_bases_def
  eval_nat_numeral

lemma subobjects_distinct: "distinct (subobjects c)"
  by (cases c) (simp_all add: hierarchy_eval)

lemma set_subobjects: "set (subobjects c) = set (supers c)"
  by (cases c) (auto simp add: hierarchy_eval)

lemma public_component: "public_component_upto 5 c"
  by (cases c) (simp_all add: hierarchy_eval)

lemma supers_self: "c \<in> set (supers c)"
  by (simp add: supers_def eval_nat_numeral)

lemma supers_closed: "t \<in> set (supers c) \<Longrightarrow> b \<in> set (bases t) \<Longrightarrow> b \<in> set (supers c)"
  by (cases c) (auto simp add: hierarchy_eval)

lemma supers_upto_rtrancl: "t \<in> set (supers_upto n c) \<Longrightarrow> (c, t) \<in> base_rel\<^sup>*"
proof (induction n arbitrary: c)
  case 0
  then show ?case by simp
next
  case (Suc n)
  then show ?case
    by (auto simp: base_rel_def intro: converse_rtrancl_into_rtrancl)
qed

lemma supers_rtrancl: "t \<in> set (supers c) \<longleftrightarrow> (c, t) \<in> base_rel\<^sup>*"
proof
  assume "t \<in> set (supers c)"
  then show "(c, t) \<in> base_rel\<^sup>*" by (simp add: supers_def supers_upto_rtrancl)
next
  assume "(c, t) \<in> base_rel\<^sup>*"
  then show "t \<in> set (supers c)"
    by (induction rule: rtrancl_induct) (auto simp: supers_self base_rel_def intro: supers_closed)
qed

lemma count_list_distinct: "distinct xs \<Longrightarrow> count_list xs x = (if x \<in> set xs then 1 else 0)"
  by (induction xs) auto

lemma is_a_iff_supers: "is_a c t \<longleftrightarrow> t \<in> set (supers c)"
  using subobjects_distinct [of c] set_subobjects [of c] public_component [of t]
  by (simp add: is_a_def dynamic_cast_ok_def count_list_distinct)

lemma is_a_refl [simp]: "is_a c c"
  by (simp add: is_a_iff_supers supers_self)

lemma is_a_trans: "is_a a b \<Longrightarrow> is_a b c \<Longrightarrow> is_a a c"
  by (simp add: is_a_iff_supers supers_rtrancl)

lemma is_a_Component [simp]: "is_a c Component"
  by (cases c) (simp_all add: is_a_iff_supers hierarchy_eval)

lemma base_position:
  "b \<in> set (bases c) \<Longrightarrow>
     length (takeWhile (\<lambda>x. x \<noteq> b) declared_types) < length (takeWhile (\<lambda>x. x \<noteq> c) declared_types)
       \<or> b = Component"
  by (cases c) (auto simp add: declared_types_def)

definition decl_position :: "ctype \<Rightarrow> nat" where
  "decl_position c =
     (if c = Component then 0 else Suc (length (takeWhile (\<lambda>x. x \<noteq> c) declared_types)))"

lemma base_rel_position: "(c, b) \<in> base_rel \<Longrightarrow> decl_position b < decl_position c"
  using base_position [of b c] by (cases "c = Component") (auto simp: base_rel_def decl_position_def)

lemma base_rel_trancl_position: "(c, b) \<in> base_rel\<^sup>+ \<Longrightarrow> decl_position b < decl_position c"
  by (induction rule: trancl_induct) (auto dest: base_rel_position)

lemma is_a_position: "is_a c t \<Longrightarrow> c = t \<or> decl_position t < decl_position c"
  by (auto simp: is_a_iff_supers supers_rtrancl rtrancl_eq_or_trancl dest: base_rel_trancl_position)

lemma is_a_antisym: "is_a a b \<Longrightarrow> is_a b a \<Longrightarrow> a = b"
  by (auto dest!: is_a_position)

instantiation ctype :: order
begin

definition less_eq_ctype :: "ctype \<Rightarrow> ctype \<Rightarrow> bool" where
  "less_eq_ctype a b \<longleftrightarrow> is_a a b"

definition less_ctype :: "ctype \<Rightarrow> ctype \<Rightarrow> bool" where
  "less_ctype a b \<longleftrightarrow> is_a a b \<and> a \<noteq> b"

instance
proof
  fix a b c :: ctype
  show "a \<le> a" by (simp add: less_eq_ctype_def)
  show "a < b \<longleftrightarrow> a \<le> b \<and> \<not> b \<le> a"
    by (auto simp: less_eq_ctype_def less_ctype_def dest: is_a_antisym)
  show "a \<le> b \<Longrightarrow> b \<le> c \<Longrightarrow> a \<le> c" by (auto simp: less_eq_ctype_def intro: is_a_trans)
  show "a \<le> b \<Longrightarrow> b \<le> a \<Longrightarrow> a = b" by (auto simp: less_eq_ctype_def intro: is_a_antisym)
qed

end

lemmas is_a_eval [eval_simps] = is_a_iff_supers supers_def eval_nat_numeral

lemma set_declared_types: "set declared_types = UNIV - {Component}"
proof -
  have "c \<in> set declared_types \<longleftrightarrow> c \<noteq> Component" for c
    by (cases c) (simp_all add: declared_types_def)
  then show ?thesis by auto
qed

lemma component_map_fold:
  "fold insert_type_once ts m = m ++ map_of (rev (map (\<lambda>t. (type_to_string t, t)) ts))"
proof (induction ts arbitrary: m)
  case Nil
  then show ?case by simp
next
  case (Cons t ts)
  have "fold insert_type_once (t # ts) m =
      insert_type_once t m ++ map_of (rev (map (\<lambda>t. (type_to_string t, t)) ts))"
    by (simp only: fold_simps Cons.IH)
  also have "\<dots> = m ++ map_of (rev (map (\<lambda>t. (type_to_string t, t)) (t # ts)))"
    by (simp add: insert_type_once_def)
  finally show ?case .
qed

lemma declared_names_distinct: "distinct (map type_to_string declared_types)"
  by code_simp

section \<open>Properties\<close>

text \<open>
  C28. The run-time type test agrees with the declared hierarchy: \<^verbatim>\<open>is_a<T>()\<close>, computed from
  the base-class subobjects of the object, succeeds exactly when the class of the object
  is \<open>T\<close> or derives from it through any declared bases, the second and later ones (private
  and non-virtual by the macro) included.
\<close>

theorem is_a_iff_derives: "is_a c t \<longleftrightarrow> (c, t) \<in> base_rel\<^sup>*"
  by (simp add: is_a_iff_supers supers_rtrancl)

text \<open>
  The hierarchy is a partial order below \<open>Component\<close>: two classes that derive from each other
  are the same, and every class is a \<open>Component\<close>.
\<close>

lemma is_a_partial_order: "(is_a a b \<and> is_a b a \<longleftrightarrow> a = b) \<and> is_a a Component"
  by (auto intro: is_a_antisym)

text \<open>
  The registry is the inverse of \<^verbatim>\<open>to_string\<close>: a name is found exactly when it is the name
  of a declared type other than the base class, and the type found prints as that name.
\<close>

lemma component_map_inverse:
  "component_map s = Some t \<longleftrightarrow> t \<noteq> Component \<and> type_to_string t = s"
proof -
  let ?entries = "map (\<lambda>t. (type_to_string t, t)) declared_types"
  have "distinct (map fst (rev ?entries))"
    using declared_names_distinct by (simp add: rev_map [symmetric] comp_def)
  then have "component_map s = Some t \<longleftrightarrow> (s, t) \<in> set (rev ?entries)"
    by (simp add: component_map_def component_map_fold map_of_eq_Some_iff)
  then show ?thesis by (auto simp: set_declared_types)
qed

text \<open>
  The virtual \<^verbatim>\<open>test_component\<close> asks the converse of \<^verbatim>\<open>is_a\<close>: \<open>t\<close> accepts exactly the
  components whose class derives from \<open>t\<close>.
\<close>

lemma test_component_is_a: "test_component t other \<longleftrightarrow> is_a other t"
  by (simp add: test_component_def flip: is_a_def)

end
