(* ===== verification/Graph_Element.thy ===== *)
theory Graph_Element
  imports Adapter Component_Types
begin

text \<open>
  Vertices and edges: \<^verbatim>\<open>src/src/include/yloc/graph_element.h\<close>. A graph element holds shared
  pointers to the adapters of the modules that know the component, a description and a
  component type. Adapters are shared and one of them is mutated after it is attached (by the
  MPI module), so they live in a heap: a list of adapter objects, a \<^verbatim>\<open>shared_ptr\<close> being an
  index into it.
\<close>

section \<open>State\<close>

type_synonym ptr = nat
type_synonym 'b heap = "'b adapter list"

record graph_element =
  m_adapters :: "ptr list"
  m_description :: string
  m_type :: ctype

type_synonym vertex = graph_element

datatype edge_type = PARENT | CHILD | GPU_INTERCONNECT | EDGE_TYPE_MAX

record edge = graph_element +
  m_edgetype :: edge_type

text \<open>The default member initialisers of \<^verbatim>\<open>GraphElement\<close>, and the constructor of \<^verbatim>\<open>Edge\<close>.\<close>

definition new_vertex :: vertex where
  "new_vertex = \<lparr>m_adapters = [], m_description = [], m_type = UnknownComponentType\<rparr>"

definition Edge :: "edge_type \<Rightarrow> edge" where
  "Edge type = \<lparr>m_adapters = [], m_description = [], m_type = UnknownComponentType,
     m_edgetype = type\<rparr>"

section \<open>Operations\<close>

text \<open>
  \<^verbatim>\<open>get<RT>(property_name)\<close>: the first value that an adapter offers, in the order in which the
  adapters were added. A name of the global map is looked up there only; a property of
  another type than \<^verbatim>\<open>RT\<close> gives nothing. Other names are looked up in the module map of each
  adapter.
\<close>

definition get :: "'b heap \<Rightarrow> rt \<Rightarrow> 'e graph_element_scheme \<Rightarrow> string \<Rightarrow> 'b pvalue option" where
  "get h RT el property_name =
     (case adapter_map property_name of
        Some property \<Rightarrow>
          if supports property RT
          then first_value (\<lambda>a. property_value property (h ! a)) (m_adapters el)
          else None
      | None \<Rightarrow>
          first_value (\<lambda>a. case module_map (h ! a) property_name of
              Some property \<Rightarrow>
                if supports property RT then property_value property (h ! a) else None
            | None \<Rightarrow> None) (m_adapters el))"

text \<open>The specialisation \<^verbatim>\<open>get<std::string>\<close>: any property, printed.\<close>

definition get_string ::
  "'b bitset_ops \<Rightarrow> 'b heap \<Rightarrow> 'e graph_element_scheme \<Rightarrow> string \<Rightarrow> string option" where
  "get_string B h el property_name =
     (case adapter_map property_name of
        Some property \<Rightarrow> first_value (\<lambda>a. value_to_string B property (h ! a)) (m_adapters el)
      | None \<Rightarrow>
          first_value (\<lambda>a. case module_map (h ! a) property_name of
              Some property \<Rightarrow> value_to_string B property (h ! a)
            | None \<Rightarrow> None) (m_adapters el))"

text \<open>\<^verbatim>\<open>get<uint64_t>\<close> and \<^verbatim>\<open>get<AffinityMask>\<close> as the callers use them.\<close>

definition get_uint64 :: "'b heap \<Rightarrow> 'e graph_element_scheme \<Rightarrow> string \<Rightarrow> u64 option" where
  "get_uint64 h el s = (case get h RT_uint64 el s of Some (U64 w) \<Rightarrow> Some w | _ \<Rightarrow> None)"

definition get_mask :: "'b heap \<Rightarrow> 'e graph_element_scheme \<Rightarrow> string \<Rightarrow> 'b option" where
  "get_mask h el s = (case get h RT_AffinityMask el s of Some (Mask b) \<Rightarrow> Some b | _ \<Rightarrow> None)"

definition add_adapter :: "ptr \<Rightarrow> 'e graph_element_scheme \<Rightarrow> 'e graph_element_scheme" where
  "add_adapter a el = el\<lparr>m_adapters := m_adapters el @ [a]\<rparr>"

definition element_is_a :: "'e graph_element_scheme \<Rightarrow> ctype \<Rightarrow> bool" where
  "element_is_a el t \<longleftrightarrow> is_a (m_type el) t"

definition element_to_string :: "'e graph_element_scheme \<Rightarrow> string" where
  "element_to_string el = type_to_string (m_type el) @ '': '' @ m_description el"

section \<open>Lemmas\<close>

lemma new_vertex_simps [simp]:
  "m_adapters new_vertex = []" "m_description new_vertex = []"
  "m_type new_vertex = UnknownComponentType"
  by (simp_all add: new_vertex_def)

lemma Edge_simps [simp]: "m_edgetype (Edge t) = t" "m_adapters (Edge t) = []"
  by (simp_all add: Edge_def)

lemma add_adapter_simps [simp]:
  "m_adapters (add_adapter a el) = m_adapters el @ [a]"
  "m_description (add_adapter a el) = m_description el"
  "m_type (add_adapter a el) = m_type el"
  by (simp_all add: add_adapter_def)

text \<open>
  What one adapter answers to \<^verbatim>\<open>get<RT>(name)\<close>: the body of both loops, and the reason why
  \<open>get\<close> is a search for the first adapter with an answer.
\<close>

definition adapter_get :: "rt \<Rightarrow> string \<Rightarrow> 'b adapter \<Rightarrow> 'b pvalue option" where
  "adapter_get RT s a =
     (case (case adapter_map s of Some p \<Rightarrow> Some p | None \<Rightarrow> module_map a s) of
        Some p \<Rightarrow> if supports p RT then property_value p a else None
      | None \<Rightarrow> None)"

lemma first_value_const_None [simp]: "first_value (\<lambda>a. None) xs = None"
  by (induction xs) auto

lemma get_first: "get h RT el s = first_value (\<lambda>a. adapter_get RT s (h ! a)) (m_adapters el)"
  by (cases "adapter_map s")
    (auto simp: get_def adapter_get_def cong: option.case_cong)

lemma adapter_get_typed:
  "adapter_typed a \<Longrightarrow> adapter_get RT s a = Some v \<Longrightarrow> rt_of v = RT"
  by (auto simp: adapter_get_def supports_def adapter_typed_def
      dest!: adapter_map_typed split: option.splits if_splits
      intro: property_value_typed) 

text \<open>A heap in which every adapter is typed, as C++ guarantees.\<close>

definition heap_typed :: "'b heap \<Rightarrow> bool" where
  "heap_typed h \<longleftrightarrow> (\<forall>a \<in> set h. adapter_typed a)"

definition adapters_valid :: "'b heap \<Rightarrow> 'e graph_element_scheme \<Rightarrow> bool" where
  "adapters_valid h el \<longleftrightarrow> (\<forall>a \<in> set (m_adapters el). a < length h)"

lemma heap_typed_nth: "heap_typed h \<Longrightarrow> a < length h \<Longrightarrow> adapter_typed (h ! a)"
  by (simp add: heap_typed_def)

lemma heap_typed_snoc [simp]: "heap_typed (h @ [a]) \<longleftrightarrow> heap_typed h \<and> adapter_typed a"
  by (auto simp: heap_typed_def)

lemma heap_typed_update: "heap_typed h \<Longrightarrow> adapter_typed a \<Longrightarrow> heap_typed (h[i := a])"
  by (auto simp: heap_typed_def dest!: set_update_subset_insert [THEN subsetD])

lemma adapters_valid_new [simp]: "adapters_valid h new_vertex"
  by (simp add: adapters_valid_def)

lemma adapters_valid_add [simp]:
  "adapters_valid h (add_adapter a el) \<longleftrightarrow> adapters_valid h el \<and> a < length h"
  by (auto simp: adapters_valid_def)

lemma adapters_valid_mono:
  "adapters_valid h el \<Longrightarrow> length h \<le> length h' \<Longrightarrow> adapters_valid h' el"
  by (auto simp: adapters_valid_def)

text \<open>A heap that grows, or changes elsewhere, does not change what a valid element answers.\<close>

lemma get_heap_cong:
  "(\<And>a. a \<in> set (m_adapters el) \<Longrightarrow> h ! a = h' ! a) \<Longrightarrow> get h RT el s = get h' RT el s"
  by (auto simp: get_first intro: first_value_cong)

lemma get_heap_append [simp]: "adapters_valid h el \<Longrightarrow> get (h @ h') RT el s = get h RT el s"
  by (rule get_heap_cong) (simp add: adapters_valid_def nth_append)

lemma get_mask_heap_append [simp]: "adapters_valid h el \<Longrightarrow> get_mask (h @ h') el s = get_mask h el s"
  by (simp add: get_mask_def)

lemma get_typed:
  assumes "heap_typed h" and "adapters_valid h el" and "get h RT el s = Some v"
  shows "rt_of v = RT"
  using assms
  by (auto simp: get_first adapters_valid_def dest!: first_value_SomeD
      intro: adapter_get_typed heap_typed_nth)

section \<open>Properties\<close>

text \<open>
  C30. Type safety of queries: when every adapter is typed, whatever \<^verbatim>\<open>get<RT>\<close> returns has type
  \<open>RT\<close>, so the \<^verbatim>\<open>dynamic_pointer_cast\<close> after \<^verbatim>\<open>supports\<close> never goes wrong.
\<close>

theorem get_type_safe:
  assumes "heap_typed h" and "adapters_valid h el"
  shows "case get h RT el s of Some v \<Rightarrow> rt_of v = RT | None \<Rightarrow> True"
  using get_typed [OF assms] by (auto split: option.split)

text \<open>An element with one adapter that knows its memory and its temperature.\<close>

definition sample_heap :: "bool list heap" where
  "sample_heap = [base_adapter,
     override Adapter_memory (Some (U64 4096)) (override Adapter_temperature (Some (I64 (- 5))) base_adapter)]"

definition sample_element :: graph_element where
  "sample_element = add_adapter 1 (add_adapter 0 new_vertex)"

lemma sample_heap_typed: "heap_typed sample_heap"
  by (simp add: heap_typed_def sample_heap_def) (intro override_typed base_adapter_typed; auto)

lemma sample_element_valid: "adapters_valid sample_heap sample_element"
  by (simp add: sample_heap_def sample_element_def)

theorem get_type_safe_witness:
  "(case get sample_heap RT_int64 sample_element ''temperature'' of
      Some v \<Rightarrow> rt_of v = RT_int64 | None \<Rightarrow> True) \<and>
   get sample_heap RT_int64 sample_element ''temperature'' = Some (I64 (- 5))"
  using get_type_safe [OF sample_heap_typed sample_element_valid, of RT_int64 "''temperature''"]
  by (simp add: get_def sample_element_def sample_heap_def make_property_pair_def supports_def
      property_value_def)

text \<open>
  Adapters answer in the order in which they were attached: attaching one more adapter never
  changes an answer the element already gives, and supplies the answer where there was none.
\<close>

lemma get_add_adapter:
  "get h RT (add_adapter a el) s =
     (case get h RT el s of Some v \<Rightarrow> Some v
      | None \<Rightarrow>
          (case (case adapter_map s of Some p \<Rightarrow> Some p | None \<Rightarrow> module_map (h ! a) s) of
             Some p \<Rightarrow> if m_rt p = RT then vcall (h ! a) (m_property_fn p) else None
           | None \<Rightarrow> None))"
  by (auto simp: get_first adapter_get_def supports_def property_value_def
      split: option.splits)

text \<open>
  The untyped query agrees with the typed one: for a property of the global map,
  \<^verbatim>\<open>get<std::string>\<close> prints what \<^verbatim>\<open>get\<close> at the property's own type returns, and \<^verbatim>\<open>get\<close> at any
  other type returns nothing.
\<close>

lemma get_string_prints:
  assumes "adapter_map s = Some p"
  shows "get_string B h el s = map_option (print_value B) (get h (m_rt p) el s) \<and>
    (get h RT el s = None \<or> RT = m_rt p)"
  using assms
  by (simp add: get_string_def get_def supports_def value_to_string_eq first_value_map_option)

end
