(* ===== verification/Yloc_Graph.thy ===== *)
theory Yloc_Graph
  imports Graph_Element
begin

text \<open>
  The topology graph of \<^verbatim>\<open>src/src/include/yloc/graph.h\<close>. The class \<^verbatim>\<open>yloc::Graph\<close> derives from a
  \<^verbatim>\<open>boost::adjacency_list\<close> (vectors of vertices and of out-edges, bidirectional) and adds the
  map from identifiers to vertices and the root vertex. Boost is not part of this
  repository: its operations are the fields of a record over an abstract graph value, and
  the locale \<open>boost_graph\<close> states their documented behaviour.
\<close>

section \<open>The interface of the Boost graph\<close>

type_synonym vertex_t = nat

text \<open>An edge descriptor; two parallel edges differ in the identity of their property.\<close>

record edge_t =
  m_source :: vertex_t
  m_target :: vertex_t
  m_eproperty :: nat

record 'g bgl =
  bg_empty :: 'g
  bg_num_vertices :: "'g \<Rightarrow> nat"
  bg_add_vertex :: "'g \<Rightarrow> vertex_t \<times> 'g"
  bg_vertex :: "'g \<Rightarrow> vertex_t \<Rightarrow> vertex"                  \<comment> \<open>\<^verbatim>\<open>g[v]\<close> read\<close>
  bg_put_vertex :: "'g \<Rightarrow> vertex_t \<Rightarrow> vertex \<Rightarrow> 'g"          \<comment> \<open>\<^verbatim>\<open>g[v]\<close> written\<close>
  bg_add_edge :: "vertex_t \<Rightarrow> vertex_t \<Rightarrow> edge \<Rightarrow> 'g \<Rightarrow> 'g"
  bg_edges :: "'g \<Rightarrow> edge_t list"
  bg_edge :: "'g \<Rightarrow> edge_t \<Rightarrow> edge"                        \<comment> \<open>\<^verbatim>\<open>g[e]\<close>\<close>
  bg_out_edges :: "'g \<Rightarrow> vertex_t \<Rightarrow> edge_t list"
  bg_has_edge :: "'g \<Rightarrow> vertex_t \<Rightarrow> vertex_t \<Rightarrow> bool"        \<comment> \<open>\<^verbatim>\<open>boost::edge(u, v, g).second\<close>\<close>
  bg_filtered_vertices :: "'g \<Rightarrow> (vertex_t \<Rightarrow> bool) \<Rightarrow> vertex_t list"
    \<comment> \<open>\<^verbatim>\<open>vertices(filtered_graph(g, keep_all, P))\<close>\<close>
  bg_filtered_edges :: "'g \<Rightarrow> (vertex_t \<Rightarrow> bool) \<Rightarrow> edge_t list"
    \<comment> \<open>\<^verbatim>\<open>edges(filtered_graph(g, keep_all, P))\<close>\<close>
  bg_filtered_out_edges :: "'g \<Rightarrow> (edge_t \<Rightarrow> bool) \<Rightarrow> vertex_t \<Rightarrow> edge_t list"
    \<comment> \<open>\<^verbatim>\<open>out_edges(v, filtered_graph(g, P, keep_all))\<close>\<close>

locale boost_graph =
  fixes G :: "'g bgl"
  assumes num_empty [simp]: "bg_num_vertices G (bg_empty G) = 0"
    and edges_empty [simp]: "bg_edges G (bg_empty G) = []"
    and add_vertex_fst [simp]: "fst (bg_add_vertex G g) = bg_num_vertices G g"
    and num_add_vertex [simp]: "bg_num_vertices G (snd (bg_add_vertex G g)) = Suc (bg_num_vertices G g)"
    and vertex_add_vertex [simp]: "v \<le> bg_num_vertices G g \<Longrightarrow>
      bg_vertex G (snd (bg_add_vertex G g)) v =
        (if v = bg_num_vertices G g then new_vertex else bg_vertex G g v)"
    and edges_add_vertex [simp]: "bg_edges G (snd (bg_add_vertex G g)) = bg_edges G g"
    and edge_add_vertex [simp]: "e \<in> set (bg_edges G g) \<Longrightarrow>
      bg_edge G (snd (bg_add_vertex G g)) e = bg_edge G g e"
    and num_put_vertex [simp]: "bg_num_vertices G (bg_put_vertex G g v x) = bg_num_vertices G g"
    and vertex_put_vertex [simp]: "u < bg_num_vertices G g \<Longrightarrow> v < bg_num_vertices G g \<Longrightarrow>
      bg_vertex G (bg_put_vertex G g v x) u = (if u = v then x else bg_vertex G g u)"
    and edges_put_vertex [simp]: "bg_edges G (bg_put_vertex G g v x) = bg_edges G g"
    and edge_put_vertex [simp]: "e \<in> set (bg_edges G g) \<Longrightarrow>
      bg_edge G (bg_put_vertex G g v x) e = bg_edge G g e"
    and num_add_edge [simp]: "u < bg_num_vertices G g \<Longrightarrow> v < bg_num_vertices G g \<Longrightarrow>
      bg_num_vertices G (bg_add_edge G u v p g) = bg_num_vertices G g"
    and vertex_add_edge [simp]: "u < bg_num_vertices G g \<Longrightarrow> v < bg_num_vertices G g \<Longrightarrow>
      bg_vertex G (bg_add_edge G u v p g) w = bg_vertex G g w"
    and add_edge_new: "u < bg_num_vertices G g \<Longrightarrow> v < bg_num_vertices G g \<Longrightarrow>
      \<exists>e. m_source e = u \<and> m_target e = v \<and> e \<notin> set (bg_edges G g) \<and>
        mset (bg_edges G (bg_add_edge G u v p g)) = add_mset e (mset (bg_edges G g)) \<and>
        bg_edge G (bg_add_edge G u v p g) e = p \<and>
        (\<forall>e' \<in> set (bg_edges G g). bg_edge G (bg_add_edge G u v p g) e' = bg_edge G g e')"
    and distinct_edges: "distinct (bg_edges G g)"
    and out_edges_iff: "set (bg_out_edges G g v) = {e \<in> set (bg_edges G g). m_source e = v}"
    and has_edge_iff: "bg_has_edge G g u v \<longleftrightarrow>
      (\<exists>e \<in> set (bg_edges G g). m_source e = u \<and> m_target e = v)"
    and filtered_vertices: "bg_filtered_vertices G g P = filter P [0..<bg_num_vertices G g]"
    and filtered_edges: "mset (bg_filtered_edges G g P) =
      filter_mset (\<lambda>e. P (m_source e) \<and> P (m_target e)) (mset (bg_edges G g))"
    and filtered_out_edges: "set (bg_filtered_out_edges G g Q v) =
      {e \<in> set (bg_out_edges G g v). Q e}"

section \<open>The class Graph\<close>

record 'g yloc_graph =
  m_boost :: 'g
  m_identifier_map :: "string \<rightharpoonup> vertex_t"
  m_root_vertex :: vertex_t

definition new_graph :: "'g bgl \<Rightarrow> 'g yloc_graph" where
  "new_graph G = \<lparr>m_boost = bg_empty G, m_identifier_map = Map.empty, m_root_vertex = 0\<rparr>"

text \<open>\<^verbatim>\<open>add_vertex()\<close>: a new unnamed vertex.\<close>

definition add_vertex_unnamed :: "'g bgl \<Rightarrow> 'g yloc_graph \<Rightarrow> vertex_t \<times> 'g yloc_graph" where
  "add_vertex_unnamed G g =
     (let (vd, b) = bg_add_vertex G (m_boost g) in (vd, g\<lparr>m_boost := b\<rparr>))"

text \<open>\<^verbatim>\<open>add_vertex(id)\<close>: the vertex of the identifier, added if there is none.\<close>

definition add_vertex :: "'g bgl \<Rightarrow> string \<Rightarrow> 'g yloc_graph \<Rightarrow> vertex_t \<times> 'g yloc_graph" where
  "add_vertex G i g =
     (case m_identifier_map g i of
        Some vd \<Rightarrow> (vd, g)
      | None \<Rightarrow>
          let (vd, b) = bg_add_vertex G (m_boost g)
          in (vd, g\<lparr>m_boost := b, m_identifier_map := (m_identifier_map g)(i \<mapsto> vd)\<rparr>))"

text \<open>\<^verbatim>\<open>operator[](vertex_t)\<close>: reading, and writing through the reference.\<close>

definition vertex_at :: "'g bgl \<Rightarrow> 'g yloc_graph \<Rightarrow> vertex_t \<Rightarrow> vertex" where
  "vertex_at G g vd = bg_vertex G (m_boost g) vd"

definition modify_vertex ::
  "'g bgl \<Rightarrow> vertex_t \<Rightarrow> (vertex \<Rightarrow> vertex) \<Rightarrow> 'g yloc_graph \<Rightarrow> 'g yloc_graph" where
  "modify_vertex G vd f g =
     g\<lparr>m_boost := bg_put_vertex G (m_boost g) vd (f (vertex_at G g vd))\<rparr>"

text \<open>
  \<^verbatim>\<open>operator[](identifier_t)\<close>: the subscript of \<^verbatim>\<open>std::unordered_map\<close> inserts a
  value-initialised entry (vertex 0) when the identifier is missing.
\<close>

definition vertex_by_id :: "string \<Rightarrow> 'g yloc_graph \<Rightarrow> vertex_t \<times> 'g yloc_graph" where
  "vertex_by_id i g =
     (case m_identifier_map g i of
        Some vd \<Rightarrow> (vd, g)
      | None \<Rightarrow> (0, g\<lparr>m_identifier_map := (m_identifier_map g)(i \<mapsto> 0)\<rparr>))"

definition edge_at :: "'g bgl \<Rightarrow> 'g yloc_graph \<Rightarrow> edge_t \<Rightarrow> edge" where
  "edge_at G g ed = bg_edge G (m_boost g) ed"

definition set_root_vertex :: "vertex_t \<Rightarrow> 'g yloc_graph \<Rightarrow> 'g yloc_graph" where
  "set_root_vertex v g = g\<lparr>m_root_vertex := v\<rparr>"

definition get_root_vertex :: "'g yloc_graph \<Rightarrow> vertex_t" where
  "get_root_vertex g = m_root_vertex g"

text \<open>\<^verbatim>\<open>boost::add_edge(u, v, Edge{type}, g)\<close> on a \<^verbatim>\<open>yloc::Graph\<close>.\<close>

definition add_edge :: "'g bgl \<Rightarrow> vertex_t \<Rightarrow> vertex_t \<Rightarrow> edge \<Rightarrow> 'g yloc_graph \<Rightarrow> 'g yloc_graph" where
  "add_edge G u v p g = g\<lparr>m_boost := bg_add_edge G u v p (m_boost g)\<rparr>"

section \<open>What a graph stands for\<close>

definition num_vertices :: "'g bgl \<Rightarrow> 'g yloc_graph \<Rightarrow> nat" where
  "num_vertices G g = bg_num_vertices G (m_boost g)"

text \<open>The labelled edges, with their multiplicity.\<close>

definition arcs :: "'g bgl \<Rightarrow> 'g yloc_graph \<Rightarrow> (vertex_t \<times> edge_type \<times> vertex_t) multiset" where
  "arcs G g = image_mset (\<lambda>e. (m_source e, m_edgetype (edge_at G g e), m_target e))
     (mset (bg_edges G (m_boost g)))"

text \<open>
  Well-formedness: identifiers name vertices of the graph, two identifiers never name the same
  vertex, and edges join vertices of the graph.
\<close>

definition wf_graph :: "'g bgl \<Rightarrow> 'g yloc_graph \<Rightarrow> bool" where
  "wf_graph G g \<longleftrightarrow>
     (\<forall>i v. m_identifier_map g i = Some v \<longrightarrow> v < num_vertices G g) \<and>
     inj_on (m_identifier_map g) (dom (m_identifier_map g)) \<and>
     (\<forall>a \<in># arcs G g. fst a < num_vertices G g \<and> snd (snd a) < num_vertices G g)"

section \<open>The operations on what a graph stands for\<close>

lemma graph_record_simps [graph_simps]:
  "m_identifier_map (modify_vertex G vd f g) = m_identifier_map g"
  "m_root_vertex (modify_vertex G vd f g) = m_root_vertex g"
  "m_identifier_map (add_edge G u v p g) = m_identifier_map g"
  "m_root_vertex (add_edge G u v p g) = m_root_vertex g"
  "m_identifier_map (set_root_vertex r g) = m_identifier_map g"
  "m_root_vertex (set_root_vertex r g) = r"
  "m_boost (set_root_vertex r g) = m_boost g"
  "num_vertices G (set_root_vertex r g) = num_vertices G g"
  "vertex_at G (set_root_vertex r g) v = vertex_at G g v"
  "arcs G (set_root_vertex r g) = arcs G g"
  "m_root_vertex (snd (add_vertex G i g)) = m_root_vertex g"
  "m_identifier_map (snd (add_vertex_unnamed G g)) = m_identifier_map g"
  "m_root_vertex (snd (add_vertex_unnamed G g)) = m_root_vertex g"
  by (simp_all add: modify_vertex_def add_edge_def set_root_vertex_def num_vertices_def
      vertex_at_def arcs_def edge_at_def add_vertex_def add_vertex_unnamed_def Let_def
      split: option.splits prod.splits)

lemma add_vertex_known: "m_identifier_map g i = Some v \<Longrightarrow> add_vertex G i g = (v, g)"
  by (simp add: add_vertex_def)

lemma arcs_cong:
  assumes "bg_edges G (m_boost g') = bg_edges G (m_boost g)"
    and "\<And>e. e \<in> set (bg_edges G (m_boost g)) \<Longrightarrow>
      bg_edge G (m_boost g') e = bg_edge G (m_boost g) e"
  shows "arcs G g' = arcs G g"
  using assms by (auto simp: arcs_def edge_at_def intro!: image_mset_cong)

lemma wf_graphD:
  assumes "wf_graph G g"
  shows "m_identifier_map g i = Some v \<Longrightarrow> v < num_vertices G g"
    and "m_identifier_map g i = Some v \<Longrightarrow> m_identifier_map g j = Some v \<Longrightarrow> i = j"
    and "(u, t, w) \<in># arcs G g \<Longrightarrow> u < num_vertices G g \<and> w < num_vertices G g"
  using assms by (auto simp: wf_graph_def inj_on_def dom_def)

context boost_graph
begin

lemma new_graph_simps [graph_simps]:
  "num_vertices G (new_graph G) = 0" "arcs G (new_graph G) = {#}"
  "m_identifier_map (new_graph G) = Map.empty" "m_root_vertex (new_graph G) = 0"
  by (simp_all add: num_vertices_def new_graph_def arcs_def)

lemma unnamed_simps [graph_simps]:
  "fst (add_vertex_unnamed G g) = num_vertices G g"
  "num_vertices G (snd (add_vertex_unnamed G g)) = Suc (num_vertices G g)"
  "arcs G (snd (add_vertex_unnamed G g)) = arcs G g"
  "v \<le> num_vertices G g \<Longrightarrow> vertex_at G (snd (add_vertex_unnamed G g)) v =
     (if v = num_vertices G g then new_vertex else vertex_at G g v)"
  by (simp_all add: add_vertex_unnamed_def num_vertices_def vertex_at_def split_def)
    (auto intro!: arcs_cong)

lemma add_vertex_new:
  assumes "m_identifier_map g i = None"
  shows "fst (add_vertex G i g) = num_vertices G g"
    and "num_vertices G (snd (add_vertex G i g)) = Suc (num_vertices G g)"
    and "arcs G (snd (add_vertex G i g)) = arcs G g"
    and "m_identifier_map (snd (add_vertex G i g)) = (m_identifier_map g)(i \<mapsto> num_vertices G g)"
    and "v \<le> num_vertices G g \<Longrightarrow> vertex_at G (snd (add_vertex G i g)) v =
      (if v = num_vertices G g then new_vertex else vertex_at G g v)"
  using assms
  by (simp_all add: add_vertex_def num_vertices_def vertex_at_def split_def)
    (auto intro!: arcs_cong)

lemma num_add_vertex_if: "num_vertices G (snd (add_vertex G i g)) =
    (if m_identifier_map g i = None then Suc (num_vertices G g) else num_vertices G g)"
  by (cases "m_identifier_map g i") (simp_all add: add_vertex_known add_vertex_new)

lemma arcs_add_vertex [graph_simps]: "arcs G (snd (add_vertex G i g)) = arcs G g"
  by (cases "m_identifier_map g i") (simp_all add: add_vertex_known add_vertex_new)

lemma map_add_vertex [graph_simps]:
  "m_identifier_map (snd (add_vertex G i g)) = (m_identifier_map g)(i \<mapsto> fst (add_vertex G i g))"
  by (cases "m_identifier_map g i") (auto simp: add_vertex_known add_vertex_new)

lemma vertex_add_vertex_old:
  "v < num_vertices G g \<Longrightarrow> vertex_at G (snd (add_vertex G i g)) v = vertex_at G g v"
  by (cases "m_identifier_map g i") (simp_all add: add_vertex_known add_vertex_new)

lemma modify_simps [graph_simps]:
  "num_vertices G (modify_vertex G vd f g) = num_vertices G g"
  "arcs G (modify_vertex G vd f g) = arcs G g"
  "v < num_vertices G g \<Longrightarrow> vd < num_vertices G g \<Longrightarrow>
     vertex_at G (modify_vertex G vd f g) v =
       (if v = vd then f (vertex_at G g vd) else vertex_at G g v)"
  by (simp_all add: modify_vertex_def num_vertices_def vertex_at_def)
    (auto intro!: arcs_cong)

lemma add_edge_simps [graph_simps]:
  assumes "u < num_vertices G g" and "v < num_vertices G g"
  shows "num_vertices G (add_edge G u v p g) = num_vertices G g"
    and "vertex_at G (add_edge G u v p g) w = vertex_at G g w"
    and "arcs G (add_edge G u v p g) = add_mset (u, m_edgetype p, v) (arcs G g)"
proof -
  let ?g = "m_boost g"
  let ?g' = "bg_add_edge G u v p ?g"
  show "num_vertices G (add_edge G u v p g) = num_vertices G g"
    and "vertex_at G (add_edge G u v p g) w = vertex_at G g w"
    using assms by (simp_all add: add_edge_def num_vertices_def vertex_at_def)
  obtain e where e: "m_source e = u" "m_target e = v" "bg_edge G ?g' e = p"
      "mset (bg_edges G ?g') = add_mset e (mset (bg_edges G ?g))"
    and old: "\<forall>e' \<in> set (bg_edges G ?g). bg_edge G ?g' e' = bg_edge G ?g e'"
    using add_edge_new [of u ?g v p] assms unfolding num_vertices_def by blast
  show "arcs G (add_edge G u v p g) = add_mset (u, m_edgetype p, v) (arcs G g)"
    using old by (simp add: arcs_def edge_at_def add_edge_def e) (auto intro!: image_mset_cong)
qed

lemma has_edge_arcs:
  "bg_has_edge G (m_boost g) u v \<longleftrightarrow> (\<exists>t. (u, t, v) \<in># arcs G g)"
  by (auto simp: has_edge_iff arcs_def image_iff)

lemma fst_add_vertex_less:
  "wf_graph G g \<Longrightarrow> fst (add_vertex G i g) < num_vertices G (snd (add_vertex G i g))"
  by (cases "m_identifier_map g i") (auto simp: add_vertex_known add_vertex_new dest: wf_graphD(1))

lemma wf_new_graph [wf_intros]: "wf_graph G (new_graph G)"
  by (simp add: wf_graph_def graph_simps)

lemma wf_add_vertex_unnamed [wf_intros]: "wf_graph G g \<Longrightarrow> wf_graph G (snd (add_vertex_unnamed G g))"
  by (auto simp: wf_graph_def graph_simps intro: less_SucI)

lemma wf_add_vertex [wf_intros]:
  assumes "wf_graph G g"
  shows "wf_graph G (snd (add_vertex G i g))"
proof (cases "m_identifier_map g i")
  case (Some v)
  with assms show ?thesis by (simp add: add_vertex_known)
next
  case None
  note new = add_vertex_new [OF None]
  show ?thesis
    unfolding wf_graph_def new
  proof (intro conjI allI ballI impI)
    fix j v
    assume "((m_identifier_map g)(i \<mapsto> num_vertices G g)) j = Some v"
    then show "v < Suc (num_vertices G g)"
      using wf_graphD(1) [OF assms, of j v] by (auto split: if_splits)
  next
    show "inj_on ((m_identifier_map g)(i \<mapsto> num_vertices G g))
        (dom ((m_identifier_map g)(i \<mapsto> num_vertices G g)))"
      using wf_graphD(1) [OF assms] wf_graphD(2) [OF assms]
      by (fastforce simp: inj_on_def dom_def split: if_splits)
  next
    fix a
    assume "a \<in># arcs G g"
    then show "fst a < Suc (num_vertices G g)" "snd (snd a) < Suc (num_vertices G g)"
      using wf_graphD(3) [OF assms, of "fst a" "fst (snd a)" "snd (snd a)"] by auto
  qed
qed

lemma wf_modify_vertex [wf_intros]: "wf_graph G g \<Longrightarrow> wf_graph G (modify_vertex G vd f g)"
  by (simp add: wf_graph_def graph_simps)

lemma wf_set_root_vertex [wf_intros]: "wf_graph G g \<Longrightarrow> wf_graph G (set_root_vertex r g)"
  by (simp add: wf_graph_def graph_simps)

lemma wf_add_edge [wf_intros]:
  "wf_graph G g \<Longrightarrow> u < num_vertices G g \<Longrightarrow> v < num_vertices G g \<Longrightarrow>
     wf_graph G (add_edge G u v p g)"
  by (simp add: wf_graph_def graph_simps)

end

section \<open>An instance of the Boost interface\<close>

text \<open>
  Vertices in a list, edges in the order in which they were added; the descriptor of an edge holds
  its position.
\<close>

record adjlist =
  al_vertices :: "vertex list"
  al_edges :: "(vertex_t \<times> vertex_t \<times> edge) list"

definition al_descriptors :: "adjlist \<Rightarrow> edge_t list" where
  "al_descriptors g = map (\<lambda>i. case al_edges g ! i of (u, v, p) \<Rightarrow>
     \<lparr>m_source = u, m_target = v, m_eproperty = i\<rparr>) [0..<length (al_edges g)]"

definition adjlist_ops :: "adjlist bgl" where
  "adjlist_ops =
    \<lparr>bg_empty = \<lparr>al_vertices = [], al_edges = []\<rparr>,
     bg_num_vertices = (\<lambda>g. length (al_vertices g)),
     bg_add_vertex = (\<lambda>g. (length (al_vertices g), g\<lparr>al_vertices := al_vertices g @ [new_vertex]\<rparr>)),
     bg_vertex = (\<lambda>g v. al_vertices g ! v),
     bg_put_vertex = (\<lambda>g v x. g\<lparr>al_vertices := (al_vertices g)[v := x]\<rparr>),
     bg_add_edge = (\<lambda>u v p g. g\<lparr>al_edges := al_edges g @ [(u, v, p)]\<rparr>),
     bg_edges = al_descriptors,
     bg_edge = (\<lambda>g e. snd (snd (al_edges g ! m_eproperty e))),
     bg_out_edges = (\<lambda>g v. filter (\<lambda>e. m_source e = v) (al_descriptors g)),
     bg_has_edge = (\<lambda>g u v. list_ex (\<lambda>e. m_source e = u \<and> m_target e = v) (al_descriptors g)),
     bg_filtered_vertices = (\<lambda>g P. filter P [0..<length (al_vertices g)]),
     bg_filtered_edges = (\<lambda>g P. filter (\<lambda>e. P (m_source e) \<and> P (m_target e)) (al_descriptors g)),
     bg_filtered_out_edges = (\<lambda>g Q v. filter Q (filter (\<lambda>e. m_source e = v) (al_descriptors g)))\<rparr>"

lemma al_descriptors_snoc:
  "al_descriptors (g\<lparr>al_edges := al_edges g @ [(u, v, p)]\<rparr>) =
     al_descriptors g @ [\<lparr>m_source = u, m_target = v, m_eproperty = length (al_edges g)\<rparr>]"
  by (simp add: al_descriptors_def nth_append)

lemma al_descriptors_vertices [simp]:
  "al_descriptors (g\<lparr>al_vertices := vs\<rparr>) = al_descriptors g"
  by (simp add: al_descriptors_def)

lemma al_descriptors_property: "e \<in> set (al_descriptors g) \<Longrightarrow> m_eproperty e < length (al_edges g)"
  by (auto simp: al_descriptors_def split: prod.splits)

lemma al_descriptors_distinct: "distinct (al_descriptors g)"
proof -
  have "distinct (map m_eproperty (al_descriptors g))"
    by (simp add: al_descriptors_def split_def comp_def)
  then show ?thesis by (rule distinct_map [THEN iffD1, THEN conjunct1])
qed

interpretation adjlist: boost_graph adjlist_ops
proof unfold_locales
  fix u v p and g :: adjlist
  let ?e = "\<lparr>m_source = u, m_target = v, m_eproperty = length (al_edges g)\<rparr>"
  have "?e \<notin> set (al_descriptors g)" using al_descriptors_property by force
  moreover have "\<forall>e' \<in> set (al_descriptors g).
      (al_edges g @ [(u, v, p)]) ! m_eproperty e' = al_edges g ! m_eproperty e'"
    using al_descriptors_property by (auto simp: nth_append)
  ultimately show "\<exists>e. m_source e = u \<and> m_target e = v \<and> e \<notin> set (bg_edges adjlist_ops g) \<and>
      mset (bg_edges adjlist_ops (bg_add_edge adjlist_ops u v p g)) =
        add_mset e (mset (bg_edges adjlist_ops g)) \<and>
      bg_edge adjlist_ops (bg_add_edge adjlist_ops u v p g) e = p \<and>
      (\<forall>e' \<in> set (bg_edges adjlist_ops g).
        bg_edge adjlist_ops (bg_add_edge adjlist_ops u v p g) e' = bg_edge adjlist_ops g e')"
    by (intro exI [of _ ?e]) (simp add: adjlist_ops_def al_descriptors_snoc)
qed (auto simp: adjlist_ops_def nth_append al_descriptors_distinct list_ex_iff
    al_descriptors_def [of "\<lparr>al_vertices = [], al_edges = []\<rparr>"])

lemma boost_graph_adjlist: "boost_graph adjlist_ops"
  by (rule adjlist.boost_graph_axioms)

section \<open>Properties\<close>

text \<open>A sequence of calls of \<^verbatim>\<open>add_vertex\<close>: \<open>None\<close> is the call without an identifier.\<close>

fun add_vertices ::
  "'g bgl \<Rightarrow> string option list \<Rightarrow> 'g yloc_graph \<Rightarrow> vertex_t list \<times> 'g yloc_graph" where
  "add_vertices G [] g = ([], g)"
| "add_vertices G (c # cs) g =
     (let (v, g1) = (case c of None \<Rightarrow> add_vertex_unnamed G g | Some i \<Rightarrow> add_vertex G i g);
          (vs, g2) = add_vertices G cs g1
      in (v # vs, g2))"

definition call_add_vertex ::
  "'g bgl \<Rightarrow> string option \<Rightarrow> 'g yloc_graph \<Rightarrow> vertex_t \<times> 'g yloc_graph" where
  "call_add_vertex G c g =
     (case c of None \<Rightarrow> add_vertex_unnamed G g | Some i \<Rightarrow> add_vertex G i g)"

lemma add_vertices_Cons:
  "add_vertices G (c # cs) g =
     (fst (call_add_vertex G c g) # fst (add_vertices G cs (snd (call_add_vertex G c g))),
      snd (add_vertices G cs (snd (call_add_vertex G c g))))"
  by (simp add: call_add_vertex_def split_def Let_def)

lemma length_add_vertices [simp]: "length (fst (add_vertices G cs g)) = length cs"
  by (induction cs arbitrary: g) (simp_all add: add_vertices_Cons del: add_vertices.simps(2))

context boost_graph
begin

lemma wf_call: "wf_graph G g \<Longrightarrow> wf_graph G (snd (call_add_vertex G c g))"
  by (cases c) (auto simp: call_add_vertex_def intro: wf_intros)

lemma call_less: "wf_graph G g \<Longrightarrow> fst (call_add_vertex G c g) < num_vertices G (snd (call_add_vertex G c g))"
  by (cases c) (auto simp: call_add_vertex_def graph_simps fst_add_vertex_less)

lemma num_call: "num_vertices G g \<le> num_vertices G (snd (call_add_vertex G c g))"
  by (cases c) (auto simp: call_add_vertex_def graph_simps num_add_vertex_if)

lemma map_call: "m_identifier_map (snd (call_add_vertex G c g)) =
    (case c of None \<Rightarrow> m_identifier_map g
     | Some i \<Rightarrow> (m_identifier_map g)(i \<mapsto> fst (call_add_vertex G c g)))"
  by (cases c) (auto simp: call_add_vertex_def graph_simps)

lemma call_result:
  "(\<exists>i. c = Some i \<and> m_identifier_map g i = Some (fst (call_add_vertex G c g))) \<or>
   (fst (call_add_vertex G c g) = num_vertices G g \<and>
     (\<forall>i. c = Some i \<longrightarrow> m_identifier_map g i = None))"
proof (cases c)
  case None
  then show ?thesis by (simp add: call_add_vertex_def graph_simps)
next
  case (Some i)
  then show ?thesis
    by (cases "m_identifier_map g i") (simp_all add: call_add_vertex_def add_vertex_known add_vertex_new)
qed

text \<open>
  A call returns the vertex its identifier already has, or a vertex beyond those of the graph.
\<close>

lemma add_vertices_nth:
  assumes "wf_graph G g" and "k < length cs"
  shows "(\<exists>i. cs ! k = Some i \<and> m_identifier_map g i = Some (fst (add_vertices G cs g) ! k)) \<or>
    (num_vertices G g \<le> fst (add_vertices G cs g) ! k \<and>
      (\<forall>i. cs ! k = Some i \<longrightarrow> m_identifier_map g i = None))"
  using assms
proof (induction cs arbitrary: g k)
  case Nil
  then show ?case by simp
next
  case (Cons c cs)
  let ?v = "fst (call_add_vertex G c g)" and ?g = "snd (call_add_vertex G c g)"
  show ?case
  proof (cases k)
    case 0
    then show ?thesis
      using call_result [of c g] by (auto simp: add_vertices_Cons simp del: add_vertices.simps(2))
  next
    case (Suc k')
    with Cons.prems have "k' < length cs" by simp
    from Cons.IH [OF wf_call [OF Cons.prems(1)] this, of c] num_call [of g c] call_result [of c g]
    show ?thesis
      by (auto simp: Suc add_vertices_Cons map_call simp del: add_vertices.simps(2)
          split: option.splits if_splits)
  qed
qed

lemma call_add_vertex_again:
  assumes wf: "wf_graph G g" and k: "k < length cs"
  shows "fst (call_add_vertex G c g) = fst (add_vertices G cs (snd (call_add_vertex G c g))) ! k \<longleftrightarrow>
    (\<exists>i. c = Some i \<and> cs ! k = Some i)"
proof -
  let ?v = "fst (call_add_vertex G c g)" and ?g = "snd (call_add_vertex G c g)"
  note wf' = wf_call [OF wf, of c]
  from add_vertices_nth [OF wf' k] show ?thesis
  proof (elim disjE exE conjE)
    fix i
    assume i: "cs ! k = Some i" and known: "m_identifier_map ?g i = Some (fst (add_vertices G cs ?g) ! k)"
    show ?thesis
    proof (cases c)
      case None
      with known i wf_graphD(1) [OF wf] show ?thesis by (force simp: call_add_vertex_def graph_simps)
    next
      case (Some i')
      then have "m_identifier_map ?g i' = Some ?v" by (simp add: map_call)
      with known i wf_graphD(2) [OF wf'] Some show ?thesis by (metis option.inject)
    qed
  next
    assume "num_vertices G ?g \<le> fst (add_vertices G cs ?g) ! k"
      and "\<forall>i. cs ! k = Some i \<longrightarrow> m_identifier_map ?g i = None"
    then show ?thesis using call_less [OF wf, of c] by (auto simp: map_call)
  qed
qed

lemma add_vertices_eq_iff:
  assumes "wf_graph G g" and "j < k" and "k < length cs"
  shows "fst (add_vertices G cs g) ! j = fst (add_vertices G cs g) ! k \<longleftrightarrow>
    (\<exists>i. cs ! j = Some i \<and> cs ! k = Some i)"
  using assms
proof (induction cs arbitrary: g j k)
  case (Cons c cs)
  obtain k' where k: "k = Suc k'" and k': "k' < length cs"
    using Cons.prems by (cases k) auto
  show ?case
  proof (cases j)
    case 0
    with call_add_vertex_again [OF Cons.prems(1) k', of c] show ?thesis
      by (simp add: k add_vertices_Cons del: add_vertices.simps(2))
  next
    case (Suc j')
    with Cons.IH [OF wf_call [OF Cons.prems(1), of c], of j' k'] Cons.prems k show ?thesis
      by (simp add: add_vertices_Cons del: add_vertices.simps(2))
  qed
qed simp

end

text \<open>
  C29. Identifiers name vertices: in any sequence of calls of \<^verbatim>\<open>add_vertex\<close> on a well-formed
  graph, two calls return the same vertex exactly when both carry the same identifier (calls
  without one always make a vertex of their own).
\<close>

theorem add_vertex_identity:
  assumes "boost_graph G" and "wf_graph G g" and "j < k" and "k < length cs"
  shows "fst (add_vertices G cs g) ! j = fst (add_vertices G cs g) ! k \<longleftrightarrow>
    (\<exists>i. cs ! j = Some i \<and> cs ! k = Some i)"
  by (rule boost_graph.add_vertices_eq_iff [OF assms])

theorem add_vertex_identity_witness:
  "fst (add_vertices adjlist_ops [Some ''a'', None, Some ''a''] (new_graph adjlist_ops)) ! 0 =
     fst (add_vertices adjlist_ops [Some ''a'', None, Some ''a''] (new_graph adjlist_ops)) ! 2 \<longleftrightarrow>
   (\<exists>i. [Some ''a'', None, Some ''a''] ! 0 = Some i \<and> [Some ''a'', None, Some ''a''] ! 2 = Some i)"
  by (rule add_vertex_identity [OF boost_graph_adjlist adjlist.wf_new_graph]) simp_all

text \<open>
  C38. Reading a vertex by an identifier that the graph does not know is not a mere lookup: it binds
  the identifier to vertex 0. A later \<^verbatim>\<open>add_vertex\<close> of that identifier then returns vertex 0
  and adds nothing, so the two components share one vertex and the graph is no longer
  well-formed if vertex 0 has a name of its own.
\<close>

theorem vertex_by_id_captures:
  assumes "m_identifier_map g i = None" and "m_identifier_map g j = Some 0"
  shows "fst (vertex_by_id i g) = 0 \<and>
    add_vertex G i (snd (vertex_by_id i g)) = (0, snd (vertex_by_id i g)) \<and>
    \<not> wf_graph G (snd (vertex_by_id i g))"
proof -
  let ?g = "snd (vertex_by_id i g)"
  have "i \<noteq> j" using assms by auto
  then have i: "m_identifier_map ?g i = Some 0" and j: "m_identifier_map ?g j = Some 0"
    using assms by (simp_all add: vertex_by_id_def)
  have "\<not> wf_graph G ?g"
    using wf_graphD(2) [OF _ i j] \<open>i \<noteq> j\<close> by blast
  with i assms show ?thesis by (simp add: vertex_by_id_def add_vertex_known)
qed

theorem vertex_by_id_captures_witness:
  "fst (vertex_by_id ''gpu'' (snd (add_vertex adjlist_ops ''machine:h'' (new_graph adjlist_ops)))) = 0"
proof -
  have "m_identifier_map (snd (add_vertex adjlist_ops ''machine:h'' (new_graph adjlist_ops))) ''gpu'' = None"
    "m_identifier_map (snd (add_vertex adjlist_ops ''machine:h'' (new_graph adjlist_ops))) ''machine:h'' = Some 0"
    by (simp_all add: add_vertex_def new_graph_def adjlist_ops_def)
  from vertex_by_id_captures [OF this, of adjlist_ops] show ?thesis by blast
qed

end
