(* ===== verification/Boost_Search.thy ===== *)
theory Boost_Search
  imports Yloc_Graph
begin

text \<open>
  The interface of \<^verbatim>\<open>boost::breadth_first_search\<close>, which \<^verbatim>\<open>query.h\<close> calls with a visitor. What the code
  relies on is the list of edges for which the search calls \<^verbatim>\<open>tree_edge\<close>, in order: the edge by
  which each vertex is discovered. The documented behaviour of the search (vertices wait in a
  queue, the out-edges of a vertex are all examined when it leaves the queue) is stated on that
  list. A plain search over the edges of a graph shows that the interface can be met.
\<close>

section \<open>The order of discovery\<close>

definition discovered :: "vertex_t \<Rightarrow> edge_t list \<Rightarrow> vertex_t list" where
  "discovered s es = s # map m_target es"

definition pos :: "'a list \<Rightarrow> 'a \<Rightarrow> nat" where
  "pos xs x = length (takeWhile (\<lambda>y. y \<noteq> x) xs)"

lemma pos_less: "x \<in> set xs \<Longrightarrow> pos xs x < length xs"
  by (induction xs) (auto simp: pos_def)

lemma nth_pos: "x \<in> set xs \<Longrightarrow> xs ! pos xs x = x"
  by (induction xs) (auto simp: pos_def)

lemma pos_append: "x \<in> set xs \<Longrightarrow> pos (xs @ ys) x = pos xs x"
  by (induction xs) (auto simp: pos_def)

lemma pos_nth: "distinct xs \<Longrightarrow> i < length xs \<Longrightarrow> pos xs (xs ! i) = i"
  using nth_pos [of "xs ! i" xs] pos_less [of "xs ! i" xs] by (simp add: nth_eq_iff_index_eq)

text \<open>
  The tree edges \<open>es\<close> of a breadth-first search from \<open>s\<close> along edges \<open>E\<close>: each leads from a vertex
  discovered before to one that is not; vertices leave the queue in the order in which they were
  discovered; and when a vertex leaves the queue all its out-edges are examined, so that their
  targets are discovered by it at the latest.
\<close>

definition bfs_order :: "edge_t set \<Rightarrow> vertex_t \<Rightarrow> edge_t list \<Rightarrow> bool" where
  "bfs_order E s es \<longleftrightarrow> set es \<subseteq> E \<and> distinct (discovered s es) \<and>
     (\<forall>k < length es. m_source (es ! k) \<in> set (take (Suc k) (discovered s es))) \<and>
     sorted (map (\<lambda>e. pos (discovered s es) (m_source e)) es) \<and>
     (\<forall>e \<in> E. m_source e \<in> set (discovered s es) \<longrightarrow> m_target e \<in> set (discovered s es) \<and>
        (\<forall>t \<in> set es. m_target t = m_target e \<longrightarrow>
           pos (discovered s es) (m_source t) \<le> pos (discovered s es) (m_source e)))"

locale boost_bfs = boost_graph +
  fixes tree_edges :: "'a \<Rightarrow> vertex_t \<Rightarrow> edge_t list"
  assumes tree_edges_order: "vstart < bg_num_vertices G g \<Longrightarrow>
    bfs_order (set (bg_edges G g)) vstart (tree_edges g vstart)"

section \<open>A search in rounds\<close>

text \<open>The edges that discover something, when the vertices of \<open>seen\<close> have been discovered.\<close>

fun scan :: "edge_t list \<Rightarrow> vertex_t list \<Rightarrow> edge_t list" where
  "scan [] seen = []"
| "scan (e # es) seen =
     (if m_target e \<in> set seen then scan es seen else e # scan es (seen @ [m_target e]))"

text \<open>The tree edges after the first \<open>k\<close> vertices have left the queue.\<close>

fun search_rounds :: "edge_t list \<Rightarrow> vertex_t \<Rightarrow> nat \<Rightarrow> edge_t list" where
  "search_rounds E s 0 = []"
| "search_rounds E s (Suc k) =
     (let es = search_rounds E s k; queue = discovered s es
      in if k < length queue then es @ scan (filter (\<lambda>e. m_source e = queue ! k) E) queue else es)"

definition search_edges :: "edge_t list \<Rightarrow> vertex_t \<Rightarrow> edge_t list" where
  "search_edges E s = search_rounds E s (Suc (length E))"

lemma scan_subset: "set (scan es seen) \<subseteq> set es"
  by (induction es seen rule: scan.induct) auto

lemma scan_distinct: "distinct seen \<Longrightarrow> distinct (seen @ map m_target (scan es seen))"
proof (induction es seen rule: scan.induct)
  case (2 e es seen)
  then show ?case by (cases "m_target e \<in> set seen") simp_all
qed simp

lemma scan_all: "e \<in> set es \<Longrightarrow> m_target e \<in> set seen \<union> m_target ` set (scan es seen)"
  by (induction es seen rule: scan.induct) auto

definition bfs_inv :: "edge_t list \<Rightarrow> vertex_t \<Rightarrow> nat \<Rightarrow> edge_t list \<Rightarrow> bool" where
  "bfs_inv E s k es \<longleftrightarrow> set es \<subseteq> set E \<and> distinct (discovered s es) \<and>
     (\<forall>j < length es. m_source (es ! j) \<in> set (take (Suc j) (discovered s es))) \<and>
     (\<forall>e \<in> set es. pos (discovered s es) (m_source e) < k) \<and>
     sorted (map (\<lambda>e. pos (discovered s es) (m_source e)) es) \<and>
     (\<forall>e \<in> set E. m_source e \<in> set (discovered s es) \<longrightarrow> pos (discovered s es) (m_source e) < k \<longrightarrow>
        m_target e \<in> set (discovered s es) \<and>
        (\<forall>t \<in> set es. m_target t = m_target e \<longrightarrow>
           pos (discovered s es) (m_source t) \<le> pos (discovered s es) (m_source e)))"

lemma discovered_append: "discovered s (es @ fs) = discovered s es @ map m_target fs"
  by (simp add: discovered_def)

lemma length_discovered [simp]: "length (discovered s es) = Suc (length es)"
  by (simp add: discovered_def)

lemma bfs_inv_source:
  assumes "bfs_inv E s k es" and "e \<in> set es"
  shows "m_source e \<in> set (discovered s es)"
proof -
  obtain j where "j < length es" "e = es ! j" using assms(2) by (auto simp: in_set_conv_nth)
  then show ?thesis using assms(1) by (auto simp: bfs_inv_def dest: in_set_takeD)
qed

lemma scan_source: "e \<in> set (scan (filter (\<lambda>e. m_source e = u) E) seen) \<Longrightarrow> e \<in> set E \<and> m_source e = u"
  using scan_subset by fastforce

text \<open>The edges that a vertex adds when it leaves the queue do not move what was discovered before.\<close>

lemma bfs_step_positions:
  assumes inv: "bfs_inv E s k es" and k: "k < length (discovered s es)"
  defines "new \<equiv> scan (filter (\<lambda>e. m_source e = discovered s es ! k) E) (discovered s es)"
  shows "distinct (discovered s (es @ new))"
    and "e \<in> set es \<Longrightarrow> pos (discovered s (es @ new)) (m_source e) = pos (discovered s es) (m_source e)"
    and "e \<in> set es \<Longrightarrow> pos (discovered s es) (m_source e) < k"
    and "e \<in> set new \<Longrightarrow> pos (discovered s (es @ new)) (m_source e) = k"
    and "pos (discovered s (es @ new)) u < Suc k \<Longrightarrow>
      u \<in> set (discovered s es) \<and> pos (discovered s (es @ new)) u = pos (discovered s es) u"
proof -
  let ?o = "discovered s es" and ?o' = "discovered s (es @ new)"
  have o': "?o' = ?o @ map m_target new" by (rule discovered_append)
  have dist: "distinct ?o" using inv by (simp add: bfs_inv_def)
  show "distinct ?o'" unfolding o' by (simp only: new_def scan_distinct [OF dist])
  show "e \<in> set es \<Longrightarrow> pos ?o' (m_source e) = pos ?o (m_source e)"
    unfolding o' by (rule pos_append) (rule bfs_inv_source [OF inv])
  show "e \<in> set es \<Longrightarrow> pos ?o (m_source e) < k" using inv by (simp add: bfs_inv_def)
  have in_k: "?o ! k \<in> set ?o" using k by simp
  show "pos ?o' (m_source e) = k" if "e \<in> set new"
  proof -
    have "m_source e = ?o ! k" using scan_source [of e "?o ! k"] that unfolding new_def by blast
    then show ?thesis using pos_append [OF in_k] pos_nth [OF dist k] by (simp add: o')
  qed
  show "u \<in> set ?o \<and> pos ?o' u = pos ?o u" if "pos ?o' u < Suc k"
  proof
    show "u \<in> set ?o"
    proof (rule ccontr)
      assume "u \<notin> set ?o"
      then have "takeWhile (\<lambda>y. y \<noteq> u) ?o' = ?o @ takeWhile (\<lambda>y. y \<noteq> u) (map m_target new)"
        unfolding o' by (intro takeWhile_append2) auto
      then show False using that k by (simp add: pos_def)
    qed
    then show "pos ?o' u = pos ?o u" by (simp add: o' pos_append)
  qed
qed

text \<open>The edges of the vertices that have left the queue are examined.\<close>

lemma bfs_step_examined:
  assumes inv: "bfs_inv E s k es" and k: "k < length (discovered s es)"
  defines "new \<equiv> scan (filter (\<lambda>e. m_source e = discovered s es ! k) E) (discovered s es)"
  assumes e: "e \<in> set E" "pos (discovered s (es @ new)) (m_source e) < Suc k"
  shows "m_target e \<in> set (discovered s (es @ new)) \<and>
    (\<forall>t \<in> set (es @ new). m_target t = m_target e \<longrightarrow>
      pos (discovered s (es @ new)) (m_source t) \<le> pos (discovered s (es @ new)) (m_source e))"
proof -
  let ?o = "discovered s es" and ?o' = "discovered s (es @ new)"
  have o': "?o' = ?o @ map m_target new" by (rule discovered_append)
  note pos = bfs_step_positions [OF inv k, folded new_def]
  have u: "m_source e \<in> set ?o" "pos ?o' (m_source e) = pos ?o (m_source e)" using pos(5) [OF e(2)] by simp_all
  show ?thesis
  proof (cases "pos ?o (m_source e) < k")
    case True
    then have old: "m_target e \<in> set ?o"
      "\<And>t. t \<in> set es \<Longrightarrow> m_target t = m_target e \<Longrightarrow> pos ?o (m_source t) \<le> pos ?o (m_source e)"
      using inv e(1) u(1) by (auto simp: bfs_inv_def)
    have "set ?o \<inter> m_target ` set new = {}" using pos(1) by (simp add: o')
    then have "t \<notin> set new" if "m_target t = m_target e" for t
      using old(1) that by (metis disjoint_iff image_eqI)
    then show ?thesis using old pos(2) u(2) by (auto simp: o')
  next
    case False
    then have here: "pos ?o' (m_source e) = k" "m_source e = ?o ! k"
      using e(2) u nth_pos [OF u(1)] by (simp_all add: less_Suc_eq)
    then have "m_target e \<in> set ?o \<union> m_target ` set new"
      unfolding new_def using e(1) by (intro scan_all) simp
    then show ?thesis using here(1) pos(2,3,4) by (auto simp: o' intro: less_imp_le)
  qed
qed

lemma bfs_inv_step:
  assumes inv: "bfs_inv E s k es" and k: "k < length (discovered s es)"
  defines "new \<equiv> scan (filter (\<lambda>e. m_source e = discovered s es ! k) E) (discovered s es)"
  shows "bfs_inv E s (Suc k) (es @ new)"
proof -
  let ?o = "discovered s es" and ?o' = "discovered s (es @ new)"
  have o': "?o' = ?o @ map m_target new" by (rule discovered_append)
  have new: "e \<in> set E \<and> m_source e = ?o ! k" if "e \<in> set new" for e
    using scan_source that unfolding new_def by blast
  note pos = bfs_step_positions [OF inv k, folded new_def]
  note examined = bfs_step_examined [OF inv k, folded new_def]
  show ?thesis
    unfolding bfs_inv_def
  proof (intro conjI allI ballI impI)
    show "set (es @ new) \<subseteq> set E" using inv new by (auto simp: bfs_inv_def)
    show "distinct ?o'" by (rule pos(1))
  next
    fix j assume j: "j < length (es @ new)"
    show "m_source ((es @ new) ! j) \<in> set (take (Suc j) ?o')"
    proof (cases "j < length es")
      case True
      then show ?thesis using inv by (simp add: bfs_inv_def nth_append o')
    next
      case False
      then have "(es @ new) ! j \<in> set new" using j by (auto simp: nth_append)
      moreover have "take (Suc j) ?o' = ?o @ take (j - length es) (map m_target new)"
        using False by (simp add: o' Suc_diff_le)
      ultimately show ?thesis using new k by auto
    qed
  next
    show "pos ?o' (m_source e) < Suc k" if "e \<in> set (es @ new)" for e
      using that pos(2,3,4) by (auto simp: less_Suc_eq)
  next
    have old: "map (\<lambda>e. pos ?o' (m_source e)) es = map (\<lambda>e. pos ?o (m_source e)) es"
      by (rule map_cong [OF refl]) (rule pos(2))
    have "map (\<lambda>e. pos ?o' (m_source e)) new = map (\<lambda>e. k) new"
      by (rule map_cong [OF refl]) (rule pos(4))
    moreover have "sorted (map (\<lambda>e. pos ?o (m_source e)) es)" using inv by (simp add: bfs_inv_def)
    moreover have "\<forall>x \<in> set (map (\<lambda>e. pos ?o (m_source e)) es). x \<le> k"
      using pos(3) by (auto intro: less_imp_le)
    ultimately show "sorted (map (\<lambda>e. pos ?o' (m_source e)) (es @ new))"
      unfolding map_append sorted_append old by (simp add: map_replicate_const)
  next
    fix e assume "e \<in> set E" "pos ?o' (m_source e) < Suc k"
    from examined [OF this] show "m_target e \<in> set ?o'"
      and "\<And>t. t \<in> set (es @ new) \<Longrightarrow> m_target t = m_target e \<Longrightarrow> pos ?o' (m_source t) \<le> pos ?o' (m_source e)"
      by blast+
  qed
qed

lemma bfs_inv_rounds: "bfs_inv E s k (search_rounds E s k)"
proof (induction k)
  case 0
  then show ?case by (simp add: bfs_inv_def discovered_def)
next
  case (Suc k)
  show ?case
  proof (cases "k < length (discovered s (search_rounds E s k))")
    case True
    then show ?thesis using bfs_inv_step [OF Suc True] by (simp add: Let_def)
  next
    case False
    then have "search_rounds E s (Suc k) = search_rounds E s k" by (simp add: Let_def)
    moreover have "pos (discovered s (search_rounds E s k)) v < k"
      if "v \<in> set (discovered s (search_rounds E s k))" for v
      using pos_less [OF that] False by simp
    ultimately show ?thesis using Suc by (auto simp: bfs_inv_def intro: less_SucI)
  qed
qed

text \<open>As many rounds as there are edges, and one, empty the queue.\<close>

lemma search_edges_order: "bfs_order (set E) s (search_edges E s)"
proof -
  let ?es = "search_edges E s"
  have inv: "bfs_inv E s (Suc (length E)) ?es"
    unfolding search_edges_def by (rule bfs_inv_rounds)
  have "distinct ?es"
    using inv by (auto simp: bfs_inv_def discovered_def distinct_map)
  then have "length ?es = card (set ?es)" by (rule distinct_card [symmetric])
  also have "\<dots> \<le> card (set E)" using inv by (intro card_mono) (simp_all add: bfs_inv_def)
  also have "\<dots> \<le> length E" by (rule card_length)
  finally have "pos (discovered s ?es) v < Suc (length E)" if "v \<in> set (discovered s ?es)" for v
    using pos_less [OF that] by simp
  then show ?thesis using inv by (auto simp: bfs_inv_def bfs_order_def)
qed

interpretation adjlist_bfs: boost_bfs adjlist_ops "\<lambda>g. search_edges (bg_edges adjlist_ops g)"
  by unfold_locales (rule search_edges_order)

end
