(* ===== verification/Boost_Dijkstra.thy ===== *)
theory Boost_Dijkstra
  imports Yloc_Graph
begin

text \<open>
  The interface of \<^verbatim>\<open>boost::dijkstra_shortest_paths\<close> as \<^verbatim>\<open>query.h\<close> calls it: the weights are unsigned
  numbers of 64 bits, and the search fills the vectors of predecessors and distances. Its
  documented result is a property of the two vectors. The loop that always settles the vertex
  with the least tentative distance shows that the interface can be met.
\<close>

section \<open>The documented result\<close>

definition uint64_max :: u64 where
  "uint64_max = - 1"

text \<open>
  No edge can be relaxed any more; a vertex that was reached, the start aside, has a predecessor that
  was reached, and an edge from it that accounts for the difference of the distances; predecessors
  form a tree; the other vertices keep the greatest value of the type and are their own predecessors.
\<close>

definition dijkstra_result ::
  "edge_t set \<Rightarrow> nat \<Rightarrow> vertex_t \<Rightarrow> (edge_t \<Rightarrow> u64) \<Rightarrow> vertex_t list \<times> u64 list \<Rightarrow> bool" where
  "dijkstra_result E n s wt r \<longleftrightarrow> (case r of (pred, dist) \<Rightarrow>
     length pred = n \<and> length dist = n \<and> dist ! s = 0 \<and>
     (\<forall>e \<in> E. dist ! m_source e \<noteq> uint64_max \<longrightarrow> dist ! m_target e \<noteq> uint64_max \<and>
        unat (dist ! m_target e) \<le> unat (dist ! m_source e) + unat (wt e)) \<and>
     (\<forall>v < n. v \<noteq> s \<longrightarrow> dist ! v \<noteq> uint64_max \<longrightarrow> dist ! (pred ! v) \<noteq> uint64_max \<and>
        (\<exists>e \<in> E. m_source e = pred ! v \<and> m_target e = v \<and>
           unat (dist ! v) = unat (dist ! (pred ! v)) + unat (wt e))) \<and>
     acyclic {(pred ! v, v) | v. v < n \<and> v \<noteq> s \<and> dist ! v \<noteq> uint64_max} \<and>
     (\<forall>v < n. dist ! v = uint64_max \<longrightarrow> pred ! v = v))"

text \<open>The sum of all weights bounds every distance; below the greatest value no sum wraps around.\<close>

definition total_weight :: "edge_t set \<Rightarrow> (edge_t \<Rightarrow> u64) \<Rightarrow> nat" where
  "total_weight E wt = (\<Sum>e \<in> E. unat (wt e))"

locale boost_dijkstra = boost_graph +
  fixes dijkstra :: "'a \<Rightarrow> vertex_t \<Rightarrow> (edge_t \<Rightarrow> u64) \<Rightarrow> vertex_t list \<times> u64 list \<Rightarrow> vertex_t list \<times> u64 list"
  assumes dijkstra_returns: "vstart < bg_num_vertices G g \<Longrightarrow>
    \<forall>e \<in> set (bg_edges G g). m_source e < bg_num_vertices G g \<and> m_target e < bg_num_vertices G g \<Longrightarrow>
    length pred = bg_num_vertices G g \<Longrightarrow> length dist = bg_num_vertices G g \<Longrightarrow>
    total_weight (set (bg_edges G g)) wt < unat uint64_max \<Longrightarrow>
    dijkstra_result (set (bg_edges G g)) (bg_num_vertices G g) vstart wt (dijkstra g vstart wt (pred, dist))"

section \<open>Settling vertices\<close>

text \<open>The vertices settled so far with their distances, and the vector of predecessors.\<close>

record settled =
  distance :: "vertex_t \<rightharpoonup> nat"
  predecessor :: "vertex_t list"

definition frontier :: "edge_t list \<Rightarrow> settled \<Rightarrow> edge_t list" where
  "frontier E st = filter (\<lambda>e. distance st (m_source e) \<noteq> None \<and> distance st (m_target e) = None) E"

definition tentative :: "(edge_t \<Rightarrow> u64) \<Rightarrow> settled \<Rightarrow> edge_t \<Rightarrow> nat" where
  "tentative wt st e = the (distance st (m_source e)) + unat (wt e)"

definition settle :: "(edge_t \<Rightarrow> u64) \<Rightarrow> edge_t \<Rightarrow> settled \<Rightarrow> settled" where
  "settle wt e st =
     \<lparr>distance = (distance st)(m_target e \<mapsto> tentative wt st e),
      predecessor = (predecessor st)[m_target e := m_source e]\<rparr>"

fun settle_rounds :: "edge_t list \<Rightarrow> (edge_t \<Rightarrow> u64) \<Rightarrow> nat \<Rightarrow> settled \<Rightarrow> settled" where
  "settle_rounds E wt 0 st = st"
| "settle_rounds E wt (Suc k) st =
     (case frontier E st of
        [] \<Rightarrow> st
      | e # es \<Rightarrow> settle_rounds E wt k (settle wt (arg_min_list (tentative wt st) (e # es)) st))"

definition first_settled :: "nat \<Rightarrow> vertex_t \<Rightarrow> settled" where
  "first_settled n s = \<lparr>distance = [s \<mapsto> 0], predecessor = [0..<n]\<rparr>"

text \<open>The distances of the loop as the 64-bit words the caller reads: none of them is the largest
  word, which stands for a vertex that was not reached.\<close>

definition distance_words :: "nat \<Rightarrow> settled \<Rightarrow> u64 list" where
  "distance_words n st = map (\<lambda>v. case distance st v of Some d \<Rightarrow> of_nat d | None \<Rightarrow> uint64_max) [0..<n]"

definition dijkstra_edges :: "edge_t list \<Rightarrow> nat \<Rightarrow> vertex_t \<Rightarrow> (edge_t \<Rightarrow> u64) \<Rightarrow> vertex_t list \<times> u64 list" where
  "dijkstra_edges E n s wt =
     (let st = settle_rounds E wt (length E) (first_settled n s)
      in (predecessor st, distance_words n st))"

section \<open>The invariant of the loop\<close>

definition tree_rel :: "vertex_t \<Rightarrow> settled \<Rightarrow> (vertex_t \<times> vertex_t) set" where
  "tree_rel s st = (\<lambda>v. (predecessor st ! v, v)) ` (dom (distance st) - {s})"

definition distances_inv :: "edge_t list \<Rightarrow> (edge_t \<Rightarrow> u64) \<Rightarrow> nat \<Rightarrow> vertex_t \<Rightarrow> settled \<Rightarrow> bool" where
  "distances_inv E wt n s st \<longleftrightarrow> distance st s = Some 0 \<and> dom (distance st) \<subseteq> {..<n} \<and>
     (\<forall>e \<in> set E. \<forall>d d'. distance st (m_source e) = Some d \<longrightarrow> distance st (m_target e) = Some d' \<longrightarrow>
        d' \<le> d + unat (wt e)) \<and>
     (\<forall>e \<in> set (frontier E st). \<forall>v d. distance st v = Some d \<longrightarrow> d \<le> tentative wt st e) \<and>
     (\<exists>F \<subseteq> set E. m_target ` F \<subseteq> dom (distance st) \<and>
        (\<forall>v d. distance st v = Some d \<longrightarrow> d \<le> total_weight F wt))"

definition tree_inv :: "edge_t list \<Rightarrow> (edge_t \<Rightarrow> u64) \<Rightarrow> nat \<Rightarrow> vertex_t \<Rightarrow> settled \<Rightarrow> bool" where
  "tree_inv E wt n s st \<longleftrightarrow> length (predecessor st) = n \<and> acyclic (tree_rel s st) \<and>
     (\<forall>v d. v \<noteq> s \<longrightarrow> distance st v = Some d \<longrightarrow>
        (\<exists>e \<in> set E. \<exists>d'. m_source e = predecessor st ! v \<and> m_target e = v \<and>
           distance st (m_source e) = Some d' \<and> d = d' + unat (wt e))) \<and>
     (\<forall>v < n. distance st v = None \<longrightarrow> predecessor st ! v = v)"

lemma frontier_iff: "e \<in> set (frontier E st) \<longleftrightarrow>
    e \<in> set E \<and> (\<exists>d. distance st (m_source e) = Some d) \<and> distance st (m_target e) = None"
  by (auto simp: frontier_def)

lemma settle_simps [simp]:
  "distance (settle wt e st) = (distance st)(m_target e \<mapsto> tentative wt st e)"
  "predecessor (settle wt e st) = (predecessor st)[m_target e := m_source e]"
  by (simp_all add: settle_def)

lemma total_weight_insert:
  assumes "finite F" and "e \<notin> F"
  shows "total_weight (insert e F) wt = total_weight F wt + unat (wt e)"
  using assms by (simp add: total_weight_def)

text \<open>A vertex with the least tentative distance is settled: edges between settled vertices stay relaxed.\<close>

lemma settle_relaxed:
  assumes inv: "distances_inv E wt n s st" and e: "e \<in> set (frontier E st)"
    and least: "\<And>e'. e' \<in> set (frontier E st) \<Longrightarrow> tentative wt st e \<le> tentative wt st e'"
    and f: "f \<in> set E" "distance (settle wt e st) (m_source f) = Some d"
      "distance (settle wt e st) (m_target f) = Some d'"
  shows "d' \<le> d + unat (wt f)"
proof -
  let ?v = "m_target e" and ?t = "tentative wt st e"
  have new: "distance st ?v = None" using e by (simp add: frontier_iff)
  have bound: "\<And>v d. distance st v = Some d \<Longrightarrow> d \<le> ?t" using inv e by (auto simp: distances_inv_def)
  show ?thesis
  proof (cases "m_source f = ?v")
    case True
    then have "d = ?t" using f(2) by simp
    moreover have "d' \<le> ?t" using f(3) bound by (auto split: if_splits)
    ultimately show ?thesis by simp
  next
    case False
    then have src: "distance st (m_source f) = Some d" using f(2) by simp
    show ?thesis
    proof (cases "m_target f = ?v")
      case True
      then have "f \<in> set (frontier E st)" using f(1) src new by (simp add: frontier_iff)
      then show ?thesis using least [of f] f(3) True src by (simp add: tentative_def)
    next
      case False
      then show ?thesis using inv f(1,3) src by (simp add: distances_inv_def)
    qed
  qed
qed

lemma settle_bound:
  assumes inv: "distances_inv E wt n s st" and e: "e \<in> set (frontier E st)"
    and least: "\<And>e'. e' \<in> set (frontier E st) \<Longrightarrow> tentative wt st e \<le> tentative wt st e'"
    and f: "f \<in> set (frontier E (settle wt e st))" and d: "distance (settle wt e st) v = Some d"
  shows "d \<le> tentative wt (settle wt e st) f"
proof -
  have bound: "\<And>v d. distance st v = Some d \<Longrightarrow> d \<le> tentative wt st e" using inv e by (auto simp: distances_inv_def)
  have d: "d \<le> tentative wt st e" using d bound by (auto split: if_splits)
  show ?thesis
  proof (cases "m_source f = m_target e")
    case True
    then show ?thesis using d by (simp add: tentative_def [of wt "settle wt e st"])
  next
    case False
    then have "f \<in> set (frontier E st)" "tentative wt (settle wt e st) f = tentative wt st f"
      using f by (auto simp: frontier_iff tentative_def split: if_splits)
    then show ?thesis using least [of f] d by simp
  qed
qed

lemma distances_inv_settle:
  assumes inv: "distances_inv E wt n s st" and e: "e \<in> set (frontier E st)" "m_target e < n"
    and least: "\<And>e'. e' \<in> set (frontier E st) \<Longrightarrow> tentative wt st e \<le> tentative wt st e'"
  shows "distances_inv E wt n s (settle wt e st)"
proof -
  obtain du where new: "distance st (m_target e) = None" and u: "e \<in> set E" "distance st (m_source e) = Some du"
      "tentative wt st e = du + unat (wt e)"
    using e(1) by (auto simp: frontier_iff tentative_def)
  have s: "distance st s = Some 0" using inv by (simp add: distances_inv_def)
  obtain F where F: "F \<subseteq> set E" "m_target ` F \<subseteq> dom (distance st)"
      "\<And>v d. distance st v = Some d \<Longrightarrow> d \<le> total_weight F wt"
    using inv by (auto simp: distances_inv_def)
  have "e \<notin> F" using F(2) new by auto
  then have total: "total_weight (insert e F) wt = total_weight F wt + unat (wt e)"
    by (intro total_weight_insert finite_subset [OF F(1)]) simp_all
  have "\<forall>v d. distance (settle wt e st) v = Some d \<longrightarrow> d \<le> total_weight (insert e F) wt"
    using F(3) [OF u(2)] F(3) u(3) total by (auto simp: trans_le_add1)
  then have weight: "\<exists>F \<subseteq> set E. m_target ` F \<subseteq> dom (distance (settle wt e st)) \<and>
      (\<forall>v d. distance (settle wt e st) v = Some d \<longrightarrow> d \<le> total_weight F wt)"
    using F(1,2) u(1) by (intro exI [of _ "insert e F"]) auto
  show ?thesis
    unfolding distances_inv_def
  proof (intro conjI ballI allI impI)
    show "distance (settle wt e st) s = Some 0" using s new by auto
  next
    show "dom (distance (settle wt e st)) \<subseteq> {..<n}" using inv e(2) by (auto simp: distances_inv_def)
  next
    fix f d d'
    assume "f \<in> set E" "distance (settle wt e st) (m_source f) = Some d" "distance (settle wt e st) (m_target f) = Some d'"
    then show "d' \<le> d + unat (wt f)" by (rule settle_relaxed [OF inv e(1) least, rotated])
  next
    fix f v d
    assume "f \<in> set (frontier E (settle wt e st))" "distance (settle wt e st) v = Some d"
    then show "d \<le> tentative wt (settle wt e st) f" by (rule settle_bound [OF inv e(1) least, rotated])
  qed (rule weight)
qed

text \<open>The new vertex is a leaf of the tree of predecessors.\<close>

lemma tree_rel_settle:
  assumes inv: "tree_inv E wt n s st" and e: "e \<in> set (frontier E st)" "m_target e < n" and vs: "m_target e \<noteq> s"
  shows "tree_rel s (settle wt e st) = insert (m_source e, m_target e) (tree_rel s st)"
    and "acyclic (tree_rel s (settle wt e st))"
proof -
  let ?v = "m_target e" and ?P = "(predecessor st)[m_target e := m_source e]"
  have new: "distance st ?v = None" and u: "distance st (m_source e) \<noteq> None" using e(1) by (auto simp: frontier_iff)
  have n: "length (predecessor st) = n" using inv by (simp add: tree_inv_def)
  have "dom (distance (settle wt e st)) - {s} = insert ?v (dom (distance st) - {s})"
    using vs by auto
  moreover have "?P ! x = predecessor st ! x" if "x \<in> dom (distance st)" for x
    using that new by (intro nth_list_update_neq) auto
  then have "(\<lambda>x. (?P ! x, x)) ` (dom (distance st) - {s}) = tree_rel s st"
    by (simp add: tree_rel_def cong: image_cong_simp)
  ultimately show rel: "tree_rel s (settle wt e st) = insert (m_source e, ?v) (tree_rel s st)"
    using n e(2) by (simp add: tree_rel_def [of s "settle wt e st"])
  have "(?v, x) \<notin> tree_rel s st" for x
    using inv new by (force simp: tree_rel_def tree_inv_def)
  moreover have "?v \<noteq> m_source e" using new u by auto
  ultimately have "(?v, m_source e) \<notin> (tree_rel s st)\<^sup>*" by (meson converse_rtranclE)
  then show "acyclic (tree_rel s (settle wt e st))"
    unfolding rel using inv by (simp add: acyclic_insert tree_inv_def)
qed

lemma tree_inv_settle:
  assumes inv: "tree_inv E wt n s st" and e: "e \<in> set (frontier E st)" "m_target e < n"
    and s: "distance st s = Some 0"
  shows "tree_inv E wt n s (settle wt e st)"
proof -
  let ?v = "m_target e" and ?P = "(predecessor st)[m_target e := m_source e]"
  obtain du where new: "distance st ?v = None" and u: "e \<in> set E" "distance st (m_source e) = Some du"
    using e(1) by (auto simp: frontier_iff)
  have n: "length (predecessor st) = n" using inv by (simp add: tree_inv_def)
  have vs: "?v \<noteq> s" using s new by auto
  have P: "?P ! ?v = m_source e" "\<And>x. x \<noteq> ?v \<Longrightarrow> ?P ! x = predecessor st ! x"
    using n e(2) by simp_all
  have old: "\<exists>f \<in> set E. \<exists>d'. m_source f = predecessor st ! x \<and> m_target f = x \<and>
      distance st (m_source f) = Some d' \<and> d = d' + unat (wt f)"
    if "x \<noteq> s" "distance st x = Some d" for x d
    using inv that by (auto simp: tree_inv_def)
  show ?thesis
    unfolding tree_inv_def
  proof (intro conjI allI impI)
    show "length (predecessor (settle wt e st)) = n" using n by simp
  next
    show "acyclic (tree_rel s (settle wt e st))" by (rule tree_rel_settle(2) [OF inv e vs])
  next
    fix x d
    assume x: "x \<noteq> s" "distance (settle wt e st) x = Some d"
    show "\<exists>f \<in> set E. \<exists>d'. m_source f = predecessor (settle wt e st) ! x \<and> m_target f = x \<and>
        distance (settle wt e st) (m_source f) = Some d' \<and> d = d' + unat (wt f)"
    proof (cases "x = ?v")
      case True
      moreover have "m_source e \<noteq> ?v" using new u(2) by auto
      ultimately show ?thesis
        using x(2) u P(1) by (intro bexI [of _ e] exI [of _ du]) (auto simp: tentative_def)
    next
      case False
      then have "distance st x = Some d" using x(2) by simp
      from old [OF x(1) this] obtain f d' where f: "f \<in> set E" "m_source f = predecessor st ! x" "m_target f = x"
          "distance st (m_source f) = Some d'" "d = d' + unat (wt f)"
        by blast
      moreover have "m_source f \<noteq> ?v" using f(4) new by auto
      ultimately show ?thesis using P(2) [OF False] by (intro bexI [of _ f] exI [of _ d']) simp_all
    qed
  next
    fix x
    assume "x < n" and "distance (settle wt e st) x = None"
    then show "predecessor (settle wt e st) ! x = x"
      using inv by (auto simp: tree_inv_def split: if_splits)
  qed
qed

text \<open>Every round settles the target of an edge: as many rounds as there are edges leave no frontier.\<close>

definition open_edges :: "edge_t list \<Rightarrow> settled \<Rightarrow> nat" where
  "open_edges E st = length (filter (\<lambda>e. distance st (m_target e) = None) E)"

lemma open_edges_settle:
  assumes "e \<in> set (frontier E st)"
  shows "open_edges E (settle wt e st) < open_edges E st"
proof -
  have "filter (\<lambda>f. distance (settle wt e st) (m_target f) = None) E =
      filter (\<lambda>f. m_target f \<noteq> m_target e) (filter (\<lambda>f. distance st (m_target f) = None) E)"
    by (auto intro: filter_cong)
  moreover have "e \<in> set (filter (\<lambda>f. distance st (m_target f) = None) E)"
    using assms by (simp add: frontier_iff)
  ultimately show ?thesis
    unfolding open_edges_def using length_filter_less [of e _ "\<lambda>f. m_target f \<noteq> m_target e"] by metis
qed

lemma settle_rounds_inv:
  assumes "distances_inv E wt n s st" and "tree_inv E wt n s st" and "open_edges E st \<le> k"
    and E: "\<forall>e \<in> set E. m_target e < n"
  shows "distances_inv E wt n s (settle_rounds E wt k st) \<and> tree_inv E wt n s (settle_rounds E wt k st) \<and>
    frontier E (settle_rounds E wt k st) = []"
  using assms(1-3)
proof (induction k arbitrary: st)
  case 0
  then have "frontier E st = []"
    using frontier_iff by (fastforce simp: open_edges_def filter_empty_conv frontier_def)
  then show ?case using 0 by simp
next
  case (Suc k)
  show ?case
  proof (cases "frontier E st")
    case Nil
    then show ?thesis using Suc.prems by simp
  next
    case (Cons e es)
    define m where "m = arg_min_list (tentative wt st) (e # es)"
    have m: "m \<in> set (frontier E st)" unfolding Cons m_def by (rule arg_min_list_in) simp
    have least: "tentative wt st m \<le> tentative wt st e'" if "e' \<in> set (frontier E st)" for e'
    proof -
      have "tentative wt st m = Min (tentative wt st ` set (frontier E st))"
        unfolding Cons m_def by (rule f_arg_min_list_f) simp
      then show ?thesis using that by simp
    qed
    have lt: "m_target m < n" using E m by (simp add: frontier_iff)
    have D: "distances_inv E wt n s (settle wt m st)"
      by (rule distances_inv_settle [OF Suc.prems(1) m lt least])
    have T: "tree_inv E wt n s (settle wt m st)"
      using Suc.prems(1) by (intro tree_inv_settle [OF Suc.prems(2) m lt]) (simp_all add: distances_inv_def)
    have "open_edges E (settle wt m st) \<le> k" using open_edges_settle [OF m] Suc.prems(3) by (meson less_le_trans less_Suc_eq_le)
    from Suc.IH [OF D T this] show ?thesis by (simp add: Cons m_def)
  qed
qed

lemma first_settled_inv:
  assumes "s < n"
  shows "distances_inv E wt n s (first_settled n s)" and "tree_inv E wt n s (first_settled n s)"
proof -
  show "distances_inv E wt n s (first_settled n s)"
    using assms by (auto simp: distances_inv_def first_settled_def intro: exI [of _ "{}"] split: if_splits)
  have "tree_rel s (first_settled n s) = {}" by (auto simp: tree_rel_def first_settled_def)
  then show "tree_inv E wt n s (first_settled n s)"
    by (auto simp: tree_inv_def first_settled_def acyclic_def split: if_splits)
qed

section \<open>The loop meets the interface\<close>

lemma unat_max: "unat uint64_max = 2 ^ 64 - 1"
  by (simp add: uint64_max_def unsigned_minus_1_eq_mask mask_eq_exp_minus_1)

lemma of_nat_below_max:
  assumes "d < unat uint64_max"
  shows "(of_nat d :: u64) \<noteq> uint64_max" and "unat (of_nat d :: u64) = d"
proof -
  show u: "unat (of_nat d :: u64) = d"
    using assms unfolding unat_max by (simp add: unat_of_nat take_bit_nat_eq_self)
  show "(of_nat d :: u64) \<noteq> uint64_max" using u assms by auto
qed

lemma distance_words_settled:
  assumes D: "distances_inv E wt n s st" and total: "total_weight (set E) wt < unat uint64_max"
  shows "distance st v = Some d \<Longrightarrow> distance_words n st ! v \<noteq> uint64_max \<and> unat (distance_words n st ! v) = d"
    and "v < n \<Longrightarrow> distance_words n st ! v \<noteq> uint64_max \<longleftrightarrow> (\<exists>d. distance st v = Some d)"
proof -
  have below: "d < unat uint64_max" if "distance st v = Some d" for v d
  proof -
    obtain F where "F \<subseteq> set E" "d \<le> total_weight F wt" using D \<open>distance st v = Some d\<close> by (auto simp: distances_inv_def)
    moreover from this(1) have "total_weight F wt \<le> total_weight (set E) wt"
      unfolding total_weight_def by (intro sum_mono2) simp_all
    ultimately show ?thesis using total by simp
  qed
  have in_range: "v < n" if "distance st v = Some d" for v d using D that by (auto simp: distances_inv_def)
  show reached: "distance_words n st ! v \<noteq> uint64_max \<and> unat (distance_words n st ! v) = d"
    if "distance st v = Some d" for v d
    using that in_range [OF that] of_nat_below_max [OF below [OF that]] by (simp add: distance_words_def)
  show "distance_words n st ! v \<noteq> uint64_max \<longleftrightarrow> (\<exists>d. distance st v = Some d)" if "v < n"
  proof (cases "distance st v")
    case None
    then show ?thesis using that by (simp add: distance_words_def)
  next
    case (Some d)
    then show ?thesis using reached by simp
  qed
qed

lemma dijkstra_edges_result:
  assumes "s < n" and E: "\<forall>e \<in> set E. m_source e < n \<and> m_target e < n"
    and total: "total_weight (set E) wt < unat uint64_max"
  shows "dijkstra_result (set E) n s wt (dijkstra_edges E n s wt)"
proof -
  define st where "st = settle_rounds E wt (length E) (first_settled n s)"
  define dist where "dist = distance_words n st"
  have run: "dijkstra_edges E n s wt = (predecessor st, dist)"
    by (simp add: dijkstra_edges_def st_def dist_def Let_def)
  have "open_edges E (first_settled n s) \<le> length E" by (simp add: open_edges_def)
  from settle_rounds_inv [OF first_settled_inv [OF assms(1)] this] E
  have D: "distances_inv E wt n s st" and T: "tree_inv E wt n s st" and done_: "frontier E st = []"
    by (simp_all add: st_def)
  note reached = distance_words_settled(1) [OF D total, folded dist_def]
  note some = distance_words_settled(2) [OF D total, folded dist_def]
  have n: "length (predecessor st) = n" "length dist = n" "distance st s = Some 0"
    using D T by (simp_all add: dist_def distance_words_def tree_inv_def distances_inv_def)
  have start: "dist ! s = 0"
    using reached [OF n(3)] by (simp add: unat_eq_zero)
  have relaxed: "dist ! m_target e \<noteq> uint64_max \<and> unat (dist ! m_target e) \<le> unat (dist ! m_source e) + unat (wt e)"
    if e: "e \<in> set E" "dist ! m_source e \<noteq> uint64_max" for e
  proof -
    obtain d where d: "distance st (m_source e) = Some d" using some e E by blast
    then obtain d' where d': "distance st (m_target e) = Some d'"
      using done_ e(1) frontier_iff [of e E st] by auto
    have "d' \<le> d + unat (wt e)" using D e(1) d d' by (simp add: distances_inv_def)
    then show ?thesis using reached [OF d] reached [OF d'] by simp
  qed
  have parent: "dist ! (predecessor st ! v) \<noteq> uint64_max \<and> (\<exists>e \<in> set E. m_source e = predecessor st ! v \<and>
      m_target e = v \<and> unat (dist ! v) = unat (dist ! (predecessor st ! v)) + unat (wt e))"
    if v: "v < n" "v \<noteq> s" "dist ! v \<noteq> uint64_max" for v
  proof -
    obtain d where d: "distance st v = Some d" using some v by blast
    then obtain e d' where e: "e \<in> set E" "m_source e = predecessor st ! v" "m_target e = v"
        "distance st (m_source e) = Some d'" "d = d' + unat (wt e)"
      using T v(2) unfolding tree_inv_def by blast
    then show ?thesis using reached [OF d] reached [OF e(4)] by auto
  qed
  have "{(predecessor st ! v, v) | v. v < n \<and> v \<noteq> s \<and> dist ! v \<noteq> uint64_max} \<subseteq> tree_rel s st"
    using some by (fastforce simp: tree_rel_def)
  then have tree: "acyclic {(predecessor st ! v, v) | v. v < n \<and> v \<noteq> s \<and> dist ! v \<noteq> uint64_max}"
    using T by (auto simp: tree_inv_def intro: acyclic_subset)
  have self: "predecessor st ! v = v" if "v < n" "dist ! v = uint64_max" for v
    using T that reached by (cases "distance st v") (auto simp: tree_inv_def)
  show ?thesis
    unfolding run dijkstra_result_def prod.case
    using n(1,2) start relaxed parent tree self by simp
qed

interpretation adjlist_dijkstra: boost_dijkstra adjlist_ops
  "\<lambda>g s wt r. dijkstra_edges (bg_edges adjlist_ops g) (bg_num_vertices adjlist_ops g) s wt"
  by unfold_locales (rule dijkstra_edges_result)

end
