(* ===== verification/Topology.thy ===== *)
theory Topology
  imports Yloc_Graph
begin

text \<open>
  The state that the modules build and the queries read: the topology graph (the static object
  behind \<^verbatim>\<open>root_graph()\<close> in \<^verbatim>\<open>src/src/init.cc\<close>) together with the heap of adapters its vertices
  point to; the few steps of which every module's \<^verbatim>\<open>init_graph\<close> is made; and the invariants
  of the whole, each kept by every step.
\<close>

section \<open>State and steps\<close>

record ('g, 'b) world =
  topology :: "'g yloc_graph"
  objects :: "'b heap"

abbreviation nv :: "'g bgl \<Rightarrow> ('g, 'b) world \<Rightarrow> nat" where
  "nv G w \<equiv> num_vertices G (topology w)"

abbreviation vat :: "'g bgl \<Rightarrow> ('g, 'b) world \<Rightarrow> vertex_t \<Rightarrow> vertex" where
  "vat G w v \<equiv> vertex_at G (topology w) v"

abbreviation ids :: "('g, 'b) world \<Rightarrow> string \<rightharpoonup> vertex_t" where
  "ids w \<equiv> m_identifier_map (topology w)"

abbreviation warcs :: "'g bgl \<Rightarrow> ('g, 'b) world \<Rightarrow> (vertex_t \<times> edge_type \<times> vertex_t) multiset" where
  "warcs G w \<equiv> arcs G (topology w)"

text \<open>The static root graph before \<^verbatim>\<open>init()\<close>.\<close>

definition root_graph :: "'g bgl \<Rightarrow> ('g, 'b) world" where
  "root_graph G = \<lparr>topology = new_graph G, objects = []\<rparr>"

definition vertex_named :: "'g bgl \<Rightarrow> string \<Rightarrow> ('g, 'b) world \<Rightarrow> vertex_t \<times> ('g, 'b) world" where
  "vertex_named G i w =
     (fst (add_vertex G i (topology w)), w\<lparr>topology := snd (add_vertex G i (topology w))\<rparr>)"

definition vertex_unnamed :: "'g bgl \<Rightarrow> ('g, 'b) world \<Rightarrow> vertex_t \<times> ('g, 'b) world" where
  "vertex_unnamed G w =
     (fst (add_vertex_unnamed G (topology w)), w\<lparr>topology := snd (add_vertex_unnamed G (topology w))\<rparr>)"

text \<open>\<^verbatim>\<open>std::make_shared<...Adapter>(...)\<close>\<close>

definition make_shared :: "'b adapter \<Rightarrow> ('g, 'b) world \<Rightarrow> ptr \<times> ('g, 'b) world" where
  "make_shared a w = (length (objects w), w\<lparr>objects := objects w @ [a]\<rparr>)"

definition on_vertex :: "'g bgl \<Rightarrow> vertex_t \<Rightarrow> (vertex \<Rightarrow> vertex) \<Rightarrow> ('g, 'b) world \<Rightarrow> ('g, 'b) world" where
  "on_vertex G vd f w = w\<lparr>topology := modify_vertex G vd f (topology w)\<rparr>"

text \<open>\<^verbatim>\<open>g[vd].add_adapter(a)\<close>, \<^verbatim>\<open>g[vd].m_type = t\<close> and \<^verbatim>\<open>g[vd].m_description = s\<close>\<close>

definition attach :: "'g bgl \<Rightarrow> vertex_t \<Rightarrow> ptr \<Rightarrow> ('g, 'b) world \<Rightarrow> ('g, 'b) world" where
  "attach G vd a = on_vertex G vd (add_adapter a)"

definition set_type :: "'g bgl \<Rightarrow> vertex_t \<Rightarrow> ctype \<Rightarrow> ('g, 'b) world \<Rightarrow> ('g, 'b) world" where
  "set_type G vd t = on_vertex G vd (\<lambda>x. x\<lparr>m_type := t\<rparr>)"

definition set_description :: "'g bgl \<Rightarrow> vertex_t \<Rightarrow> string \<Rightarrow> ('g, 'b) world \<Rightarrow> ('g, 'b) world" where
  "set_description G vd s = on_vertex G vd (\<lambda>x. x\<lparr>m_description := s\<rparr>)"

definition connect :: "'g bgl \<Rightarrow> vertex_t \<Rightarrow> vertex_t \<Rightarrow> edge_type \<Rightarrow> ('g, 'b) world \<Rightarrow> ('g, 'b) world" where
  "connect G u v t w = w\<lparr>topology := add_edge G u v (Edge t) (topology w)\<rparr>"

text \<open>The pair of edges by which all modules hang a component below another one.\<close>

definition add_child :: "'g bgl \<Rightarrow> vertex_t \<Rightarrow> vertex_t \<Rightarrow> ('g, 'b) world \<Rightarrow> ('g, 'b) world" where
  "add_child G u v w = connect G v u PARENT (connect G u v CHILD w)"

definition set_root :: "vertex_t \<Rightarrow> ('g, 'b) world \<Rightarrow> ('g, 'b) world" where
  "set_root v w = w\<lparr>topology := set_root_vertex v (topology w)\<rparr>"

section \<open>Invariants\<close>

text \<open>
  A vertex that is a process reports a rank. Adapters that are added later do not change this, as a
  query returns the first value that an adapter offers.
\<close>

definition reports_rank :: "'b heap \<Rightarrow> vertex \<Rightarrow> bool" where
  "reports_rank h x \<longleftrightarrow> m_type x = MPIProcess \<longrightarrow> get_uint64 h x ''mpi_rank'' \<noteq> None"

definition vertex_ok :: "'b heap \<Rightarrow> vertex \<Rightarrow> bool" where
  "vertex_ok h x \<longleftrightarrow> adapters_valid h x \<and> reports_rank h x"

text \<open>
  Every pointer of a vertex points into the heap, processes report their rank, the heap is typed, and
  the root vertex is a vertex (or still the default, 0).
\<close>

definition wf_world :: "'g bgl \<Rightarrow> ('g, 'b) world \<Rightarrow> bool" where
  "wf_world G w \<longleftrightarrow> wf_graph G (topology w) \<and> heap_typed (objects w) \<and>
     (\<forall>v < nv G w. vertex_ok (objects w) (vat G w v)) \<and>
     (m_root_vertex (topology w) = 0 \<or> m_root_vertex (topology w) < nv G w)"

text \<open>
  Each edge has an edge back, of the opposite kind, as often as it occurs: PARENT edges belong to CHILD
  edges, and links between GPUs go both ways.
\<close>

fun opposite :: "edge_type \<Rightarrow> edge_type" where
  "opposite CHILD = PARENT"
| "opposite PARENT = CHILD"
| "opposite t = t"

fun reversed :: "vertex_t \<times> edge_type \<times> vertex_t \<Rightarrow> vertex_t \<times> edge_type \<times> vertex_t" where
  "reversed (u, t, v) = (v, opposite t, u)"

definition paired :: "'g bgl \<Rightarrow> ('g, 'b) world \<Rightarrow> bool" where
  "paired G w \<longleftrightarrow> image_mset reversed (warcs G w) = warcs G w"

lemma opposite_opposite [simp]: "opposite (opposite t) = t"
  by (cases t) simp_all

lemma reversed_reversed [simp]: "reversed (reversed a) = a"
  by (cases a) simp

lemma paired_count:
  assumes "paired G w"
  shows "count (warcs G w) (u, t, v) = count (warcs G w) (v, opposite t, u)"
proof -
  have "count (image_mset reversed M) (reversed a) = count M a" for M a
    by (induction M) (auto dest: arg_cong [where f = reversed])
  from this [of "warcs G w" "(u, t, v)"] show ?thesis using assms by (simp add: paired_def)
qed

lemma paired_member:
  assumes "paired G w" and "(u, t, v) \<in># warcs G w"
  shows "(v, opposite t, u) \<in># warcs G w"
  using paired_count [OF assms(1), of u t v] assms(2) by (metis count_greater_zero_iff)

definition child_rel :: "'g bgl \<Rightarrow> 'g yloc_graph \<Rightarrow> (vertex_t \<times> vertex_t) set" where
  "child_rel G g = {(u, v). (u, CHILD, v) \<in># arcs G g}"

text \<open>Children are numbered after their parents: no cycle of CHILD edges.\<close>

definition increasing :: "'g bgl \<Rightarrow> 'g yloc_graph \<Rightarrow> bool" where
  "increasing G g \<longleftrightarrow> (\<forall>(u, v) \<in> child_rel G g. u < v)"

lemma increasing_acyclic:
  assumes "increasing G g"
  shows "acyclic (child_rel G g)"
proof -
  have "u < v" if "(u, v) \<in> (child_rel G g)\<^sup>+" for u v
    using that assms by (induction rule: trancl_induct) (auto simp: increasing_def)
  then show ?thesis by (auto simp: acyclic_def)
qed

lemma finite_child_rel [simp]: "finite (child_rel G g)"
proof -
  have "child_rel G g \<subseteq> (\<lambda>a. (fst a, snd (snd a))) ` set_mset (arcs G g)"
    by (force simp: child_rel_def)
  then show ?thesis by (rule finite_subset) simp
qed

section \<open>Vertices that are in order\<close>

lemma get_uint64_iff:
  assumes "heap_typed h" and "adapters_valid h x"
  shows "get_uint64 h x s \<noteq> None \<longleftrightarrow> (\<exists>a \<in> set (m_adapters x). adapter_get RT_uint64 s (h ! a) \<noteq> None)"
proof -
  have "get_uint64 h x s \<noteq> None \<longleftrightarrow> get h RT_uint64 x s \<noteq> None"
    using get_typed [OF assms, of RT_uint64 s]
    by (auto simp: get_uint64_def split: option.splits pvalue.splits)
  then show ?thesis unfolding get_first by (simp add: first_value_None_iff)
qed

lemma vertex_ok_iff:
  assumes "heap_typed h"
  shows "vertex_ok h x \<longleftrightarrow> adapters_valid h x \<and> (m_type x = MPIProcess \<longrightarrow>
    (\<exists>a \<in> set (m_adapters x). adapter_get RT_uint64 ''mpi_rank'' (h ! a) \<noteq> None))"
  using get_uint64_iff [OF assms, of x "''mpi_rank''"]
  by (cases "adapters_valid h x") (simp_all add: vertex_ok_def reports_rank_def)

lemma vertex_okD: "vertex_ok h x \<Longrightarrow> adapters_valid h x"
  by (simp add: vertex_ok_def)

lemma vertex_ok_heap_append [simp]:
  "vertex_ok h x \<Longrightarrow> get (h @ h') RT x s = get h RT x s"
  "vertex_ok h x \<Longrightarrow> get_mask (h @ h') x s = get_mask h x s"
  by (simp_all add: vertex_okD)

lemma vertex_ok_new [simp]: "vertex_ok h new_vertex"
  by (simp add: vertex_ok_def reports_rank_def)

lemma vertex_ok_description [simp]: "vertex_ok h (x\<lparr>m_description := s\<rparr>) \<longleftrightarrow> vertex_ok h x"
  by (simp add: vertex_ok_def reports_rank_def adapters_valid_def get_uint64_def get_first)

lemma adapters_valid_type [simp]: "adapters_valid h (x\<lparr>m_type := t\<rparr>) \<longleftrightarrow> adapters_valid h (x :: vertex)"
  by (simp add: adapters_valid_def)

lemma vertex_ok_type: "vertex_ok h x \<Longrightarrow> t \<noteq> MPIProcess \<Longrightarrow> vertex_ok h (x\<lparr>m_type := t\<rparr>)"
  by (simp add: vertex_ok_def reports_rank_def adapters_valid_def)

lemma vertex_ok_add_adapter:
  "heap_typed h \<Longrightarrow> vertex_ok h x \<Longrightarrow> a < length h \<Longrightarrow> vertex_ok h (add_adapter a x)"
  by (auto simp: vertex_ok_iff)

lemma vertex_ok_append:
  assumes "heap_typed (h @ h')" and "vertex_ok h x"
  shows "vertex_ok (h @ h') x"
  using assms vertex_okD [OF assms(2)]
  by (auto simp: vertex_ok_def reports_rank_def get_uint64_def intro: adapters_valid_mono)

section \<open>What the steps do\<close>

lemma step_simps [graph_simps]:
  "topology (snd (make_shared a w)) = topology w"
  "objects (snd (make_shared a w)) = objects w @ [a]"
  "fst (make_shared a w) = length (objects w)"
  "topology (snd (vertex_named G i w)) = snd (add_vertex G i (topology w))"
  "objects (snd (vertex_named G i w)) = objects w"
  "fst (vertex_named G i w) = fst (add_vertex G i (topology w))"
  "topology (snd (vertex_unnamed G w)) = snd (add_vertex_unnamed G (topology w))"
  "objects (snd (vertex_unnamed G w)) = objects w"
  "fst (vertex_unnamed G w) = fst (add_vertex_unnamed G (topology w))"
  "objects (on_vertex G vd f w) = objects w"
  "topology (on_vertex G vd f w) = modify_vertex G vd f (topology w)"
  "objects (attach G vd p w) = objects w"
  "topology (attach G vd p w) = modify_vertex G vd (add_adapter p) (topology w)"
  "objects (set_type G vd t w) = objects w"
  "topology (set_type G vd t w) = modify_vertex G vd (\<lambda>x. x\<lparr>m_type := t\<rparr>) (topology w)"
  "objects (set_description G vd s w) = objects w"
  "topology (set_description G vd s w) = modify_vertex G vd (\<lambda>x. x\<lparr>m_description := s\<rparr>) (topology w)"
  "objects (connect G u v et w) = objects w"
  "topology (connect G u v et w) = add_edge G u v (Edge et) (topology w)"
  "objects (add_child G u v w) = objects w"
  "objects (set_root v w) = objects w"
  "topology (set_root v w) = set_root_vertex v (topology w)"
  "objects (root_graph G) = []"
  "topology (root_graph G) = new_graph G"
  by (simp_all add: make_shared_def vertex_named_def vertex_unnamed_def on_vertex_def attach_def
      set_type_def set_description_def connect_def add_child_def set_root_def root_graph_def)

context boost_graph
begin

lemma add_child_simps [graph_simps]:
  assumes "u < nv G w" and "v < nv G w"
  shows "nv G (add_child G u v w) = nv G w"
    and "vat G (add_child G u v w) x = vat G w x"
    and "warcs G (add_child G u v w) = {#(v, PARENT, u), (u, CHILD, v)#} + warcs G w"
    and "ids (add_child G u v w) = ids w"
  using assms by (simp_all add: add_child_def graph_simps)

lemma wf_root_graph [wf_intros]: "wf_world G (root_graph G)"
  by (simp add: wf_world_def graph_simps wf_new_graph heap_typed_def)

lemma wf_world_graph: "wf_world G w \<Longrightarrow> wf_graph G (topology w)"
  by (simp add: wf_world_def)

lemma wf_make_shared [wf_intros]:
  "wf_world G w \<Longrightarrow> adapter_typed a \<Longrightarrow> wf_world G (snd (make_shared a w))"
  by (auto simp: wf_world_def graph_simps intro: vertex_ok_append)

lemma wf_vertex_named [wf_intros]:
  assumes "wf_world G w"
  shows "wf_world G (snd (vertex_named G i w))"
  using assms unfolding wf_world_def
  by (cases "ids w i")
    (auto simp: graph_simps add_vertex_new add_vertex_known less_Suc_eq_le intro: wf_intros)

lemma wf_vertex_unnamed [wf_intros]:
  "wf_world G w \<Longrightarrow> wf_world G (snd (vertex_unnamed G w))"
  unfolding wf_world_def by (auto simp: graph_simps less_Suc_eq_le intro: wf_intros)

lemma wf_on_vertex [wf_intros]:
  assumes "wf_world G w" and "vd < nv G w"
    and "heap_typed (objects w) \<Longrightarrow> vertex_ok (objects w) (vat G w vd) \<Longrightarrow>
      vertex_ok (objects w) (f (vat G w vd))"
  shows "wf_world G (on_vertex G vd f w)"
  using assms unfolding wf_world_def by (auto simp: graph_simps intro: wf_intros)

lemma wf_attach [wf_intros]:
  "wf_world G w \<Longrightarrow> vd < nv G w \<Longrightarrow> a < length (objects w) \<Longrightarrow> wf_world G (attach G vd a w)"
  unfolding attach_def by (rule wf_on_vertex) (auto intro: vertex_ok_add_adapter)

lemma wf_set_type [wf_intros]:
  "wf_world G w \<Longrightarrow> vd < nv G w \<Longrightarrow> t \<noteq> MPIProcess \<Longrightarrow> wf_world G (set_type G vd t w)"
  unfolding set_type_def by (rule wf_on_vertex) (auto intro: vertex_ok_type)

lemma wf_set_description [wf_intros]:
  "wf_world G w \<Longrightarrow> vd < nv G w \<Longrightarrow> wf_world G (set_description G vd s w)"
  unfolding set_description_def by (rule wf_on_vertex) auto

lemma wf_connect [wf_intros]:
  "wf_world G w \<Longrightarrow> u < nv G w \<Longrightarrow> v < nv G w \<Longrightarrow> wf_world G (connect G u v t w)"
  unfolding wf_world_def by (auto simp: graph_simps intro: wf_intros)

lemma wf_add_child [wf_intros]:
  "wf_world G w \<Longrightarrow> u < nv G w \<Longrightarrow> v < nv G w \<Longrightarrow> wf_world G (add_child G u v w)"
  unfolding add_child_def by (auto intro!: wf_connect simp: graph_simps)

lemma wf_set_root [wf_intros]: "wf_world G w \<Longrightarrow> v < nv G w \<Longrightarrow> wf_world G (set_root v w)"
  unfolding wf_world_def by (auto simp: graph_simps intro: wf_intros)

text \<open>Only edges matter to the pairing and to the numbering of children.\<close>

lemma paired_cong: "warcs G w' = warcs G w \<Longrightarrow> paired G w \<Longrightarrow> paired G w'"
  by (simp add: paired_def)

lemma paired_root_graph: "paired G (root_graph G)"
  by (simp add: paired_def graph_simps)

lemma paired_add_child:
  "paired G w \<Longrightarrow> u < nv G w \<Longrightarrow> v < nv G w \<Longrightarrow> paired G (add_child G u v w)"
  by (auto simp: paired_def graph_simps)

lemma child_rel_add_child:
  "u < nv G w \<Longrightarrow> v < nv G w \<Longrightarrow>
     child_rel G (topology (add_child G u v w)) = insert (u, v) (child_rel G (topology w))"
  by (auto simp: child_rel_def graph_simps)

lemma child_rel_cong: "arcs G g' = arcs G g \<Longrightarrow> child_rel G g' = child_rel G g"
  by (simp add: child_rel_def)

lemma increasing_root_graph: "increasing G (topology (root_graph G))"
  by (simp add: increasing_def child_rel_def graph_simps)

text \<open>A vertex without edges can be hung below any other.\<close>

lemma acyclic_add_child:
  assumes "acyclic (child_rel G (topology w))" and "v \<notin> Field (child_rel G (topology w))"
    and "u \<noteq> v" and "u < nv G w" and "v < nv G w"
  shows "acyclic (child_rel G (topology (add_child G u v w)))"
proof -
  have "(v, u) \<notin> (child_rel G (topology w))\<^sup>*"
    using assms(2,3) by (auto simp: Field_def elim: converse_rtranclE)
  then show ?thesis using assms(1) by (simp add: child_rel_add_child [OF assms(4,5)] acyclic_insert)
qed

lemma wf_call_vertex:
  assumes "wf_world G w"
  shows "wf_world G (w\<lparr>topology := snd (call_add_vertex G c (topology w))\<rparr>)"
  using wf_vertex_unnamed [OF assms] wf_vertex_named [OF assms]
  by (cases c) (auto simp: call_add_vertex_def vertex_named_def vertex_unnamed_def)

lemma vertex_call_old:
  "v < num_vertices G g \<Longrightarrow> vertex_at G (snd (call_add_vertex G c g)) v = vertex_at G g v"
  by (cases c) (simp_all add: call_add_vertex_def graph_simps vertex_add_vertex_old)

lemma vertex_call_new:
  assumes "num_vertices G g \<le> v" and "v < num_vertices G (snd (call_add_vertex G c g))"
  shows "vertex_at G (snd (call_add_vertex G c g)) v = new_vertex"
proof (cases c)
  case None
  with assms show ?thesis by (simp add: call_add_vertex_def graph_simps)
next
  case (Some i)
  with assms show ?thesis
    by (cases "m_identifier_map g i") (simp_all add: call_add_vertex_def add_vertex_known add_vertex_new)
qed

lemma arcs_call [graph_simps]: "arcs G (snd (call_add_vertex G c g)) = arcs G g"
  by (cases c) (simp_all add: call_add_vertex_def graph_simps)

lemma root_call [graph_simps]:
  "m_root_vertex (snd (call_add_vertex G c g)) = m_root_vertex g"
  by (cases c) (simp_all add: call_add_vertex_def graph_simps)

lemma ids_call_le: "m_identifier_map g \<subseteq>\<^sub>m m_identifier_map (snd (call_add_vertex G c g))"
  using call_result [of c g] by (auto simp: map_call map_le_def split: option.splits)

lemma num_call_le: "num_vertices G (snd (call_add_vertex G c g)) \<le> Suc (num_vertices G g)"
  by (cases c) (simp_all add: call_add_vertex_def graph_simps num_add_vertex_if)

text \<open>A component without an identifier, or with a new one, gets a new vertex.\<close>

lemma call_fresh:
  assumes "\<And>i. c = Some i \<Longrightarrow> m_identifier_map g i = None"
  shows "fst (call_add_vertex G c g) = num_vertices G g"
    and "num_vertices G (snd (call_add_vertex G c g)) = Suc (num_vertices G g)"
  using assms by (cases c; simp add: call_add_vertex_def graph_simps add_vertex_new)+

end

section \<open>Growth\<close>

text \<open>
  What every module does to the topology built before it: vertices, edges, identifiers, adapters
  and the adapters of a vertex stay, and types once given stay.
\<close>

definition extends :: "'g bgl \<Rightarrow> ('g, 'b) world \<Rightarrow> ('g, 'b) world \<Rightarrow> bool" where
  "extends G w w' \<longleftrightarrow> nv G w \<le> nv G w' \<and> warcs G w \<subseteq># warcs G w' \<and> ids w \<subseteq>\<^sub>m ids w' \<and>
     (\<exists>new. objects w' = objects w @ new) \<and>
     (\<forall>v < nv G w. (\<exists>ps. m_adapters (vat G w' v) = m_adapters (vat G w v) @ ps) \<and>
        (m_type (vat G w v) \<noteq> UnknownComponentType \<longrightarrow> m_type (vat G w' v) = m_type (vat G w v)))"

lemma extends_refl [simp]: "extends G w w"
  by (simp add: extends_def)

lemma extends_trans:
  assumes ab: "extends G a b" and bc: "extends G b c"
  shows "extends G a c"
  unfolding extends_def
proof (intro conjI allI impI)
  show "nv G a \<le> nv G c" "warcs G a \<subseteq># warcs G c" "ids a \<subseteq>\<^sub>m ids c"
    using assms by (auto simp: extends_def intro: map_le_trans subset_mset.order_trans)
  show "\<exists>new. objects c = objects a @ new"
    using assms by (auto simp: extends_def)
  fix v
  assume v: "v < nv G a"
  with ab have v': "v < nv G b" by (simp add: extends_def)
  obtain ps qs where "m_adapters (vat G b v) = m_adapters (vat G a v) @ ps"
    "m_adapters (vat G c v) = m_adapters (vat G b v) @ qs"
    using ab bc v v' unfolding extends_def by blast
  then show "\<exists>ps. m_adapters (vat G c v) = m_adapters (vat G a v) @ ps" by simp
  assume "m_type (vat G a v) \<noteq> UnknownComponentType"
  then show "m_type (vat G c v) = m_type (vat G a v)"
    using ab bc v v' unfolding extends_def by metis
qed

lemma extendsD:
  assumes "extends G w w'"
  shows "nv G w \<le> nv G w'" and "a \<in># warcs G w \<Longrightarrow> a \<in># warcs G w'"
    and "ids w i = Some v \<Longrightarrow> ids w' i = Some v"
    and "p < length (objects w) \<Longrightarrow> objects w' ! p = objects w ! p"
    and "length (objects w) \<le> length (objects w')"
    and "v < nv G w \<Longrightarrow> p \<in> set (m_adapters (vat G w v)) \<Longrightarrow> p \<in> set (m_adapters (vat G w' v))"
    and "v < nv G w \<Longrightarrow> m_type (vat G w v) \<noteq> UnknownComponentType \<Longrightarrow>
      m_type (vat G w' v) = m_type (vat G w v)"
proof -
  show "v < nv G w \<Longrightarrow> p \<in> set (m_adapters (vat G w v)) \<Longrightarrow> p \<in> set (m_adapters (vat G w' v))"
    using assms unfolding extends_def by (metis UnI1 set_append)
qed (use assms in \<open>auto simp: extends_def nth_append map_le_def dom_def dest: mset_subset_eqD\<close>)

text \<open>The steps extend the topology.\<close>

context boost_graph
begin

lemma extends_call: "extends G w (w\<lparr>topology := snd (call_add_vertex G c (topology w))\<rparr>)"
  by (auto simp: extends_def graph_simps num_call ids_call_le vertex_call_old)

lemma extends_vertex_named: "extends G w (snd (vertex_named G i w))"
  using extends_call [of w "Some i"] by (simp add: vertex_named_def call_add_vertex_def)

lemma extends_vertex_unnamed: "extends G w (snd (vertex_unnamed G w))"
  using extends_call [of w None] by (simp add: vertex_unnamed_def call_add_vertex_def)

lemma extends_make_shared: "extends G w (snd (make_shared a w))"
  by (auto simp: extends_def graph_simps)

lemma extends_set_root: "extends G w (set_root v w)"
  by (auto simp: extends_def graph_simps)

lemma extends_on_vertex:
  assumes "v < nv G w"
    and "\<exists>ps. m_adapters (f (vat G w v)) = m_adapters (vat G w v) @ ps"
    and "m_type (vat G w v) \<noteq> UnknownComponentType \<Longrightarrow> m_type (f (vat G w v)) = m_type (vat G w v)"
  shows "extends G w (on_vertex G v f w)"
  using assms by (auto simp: extends_def graph_simps)

lemma extends_attach: "v < nv G w \<Longrightarrow> extends G w (attach G v p w)"
  unfolding attach_def by (rule extends_on_vertex) auto

lemma extends_set_description: "v < nv G w \<Longrightarrow> extends G w (set_description G v s w)"
  unfolding set_description_def by (rule extends_on_vertex) auto

lemma extends_set_type:
  "v < nv G w \<Longrightarrow> m_type (vat G w v) = UnknownComponentType \<Longrightarrow> extends G w (set_type G v t w)"
  unfolding set_type_def by (rule extends_on_vertex) auto

lemma extends_connect:
  "u < nv G w \<Longrightarrow> v < nv G w \<Longrightarrow> extends G w (connect G u v t w)"
  by (auto simp: extends_def graph_simps)

lemma extends_add_child:
  "u < nv G w \<Longrightarrow> v < nv G w \<Longrightarrow> extends G w (add_child G u v w)"
  unfolding add_child_def
  by (rule extends_trans; rule extends_connect) (simp_all add: graph_simps)

lemmas extends_steps = extends_vertex_named extends_vertex_unnamed extends_make_shared
  extends_set_root extends_attach extends_set_description extends_set_type extends_connect
  extends_add_child

end

end
