(* ===== verification/Query.thy ===== *)
theory Query
  imports Boost_Search Boost_Dijkstra Topology
begin

text \<open>
  The queries of \<^verbatim>\<open>src/src/include/yloc/query.h\<close>: distances by breadth-first search, the map of edge
  weights, and shortest paths. The searches of Boost are parameters: \<^verbatim>\<open>breadth_first_search\<close> is the
  list of edges for which it calls \<^verbatim>\<open>tree_edge\<close> (\<open>boost_bfs\<close>), \<^verbatim>\<open>dijkstra_shortest_paths\<close> is what it
  leaves in the two vectors (\<open>boost_dijkstra\<close>).
\<close>

section \<open>The hash of an edge\<close>

text \<open>\<^verbatim>\<open>std::hash<std::size_t>\<close> is the argument \<open>h\<close>; the shift binds stronger than the exclusive or.\<close>

definition edge_hash :: "(u64 \<Rightarrow> u64) \<Rightarrow> edge_t \<Rightarrow> u64" where
  "edge_hash h f = h (of_nat (m_source f)) XOR push_bit 1 (h (of_nat (m_target f)))"

section \<open>Breadth-first search\<close>

text \<open>
  The visitor holds the map of distances and the function; \<^verbatim>\<open>tree_edge\<close> writes the distance of the
  target of the edge.
\<close>

record 't bfs_tree_edge_visitor =
  m_distmap :: "'t list"
  m_on_tree_edge :: "edge_t \<Rightarrow> 't \<Rightarrow> 't"

definition tree_edge :: "edge_t \<Rightarrow> 't bfs_tree_edge_visitor \<Rightarrow> 't bfs_tree_edge_visitor" where
  "tree_edge e vis =
     (let u = m_source e; v = m_target e
      in vis\<lparr>m_distmap := (m_distmap vis)[v := m_on_tree_edge vis e (m_distmap vis ! u)]\<rparr>)"

text \<open>\<open>zero\<close> is the value-initialised \<^verbatim>\<open>T\<close>.\<close>

definition bfs_distance_vector :: "'g bgl \<Rightarrow> ('g \<Rightarrow> vertex_t \<Rightarrow> edge_t list) \<Rightarrow> 't \<Rightarrow> 'g yloc_graph \<Rightarrow>
    vertex_t \<Rightarrow> (edge_t \<Rightarrow> 't \<Rightarrow> 't) \<Rightarrow> 't list" where
  "bfs_distance_vector G bfs zero graph vstart on_tree_edge =
     (let distances = replicate (num_vertices G graph) zero;
          visitor = \<lparr>m_distmap = distances, m_on_tree_edge = on_tree_edge\<rparr>
      in m_distmap (fold tree_edge (bfs (m_boost graph) vstart) visitor))"

text \<open>The version for hops; a C \<^verbatim>\<open>int\<close> has 32 bits.\<close>

definition bfs_hop_vector :: "'g bgl \<Rightarrow> ('g \<Rightarrow> vertex_t \<Rightarrow> edge_t list) \<Rightarrow> 'g yloc_graph \<Rightarrow>
    vertex_t \<Rightarrow> 32 word list" where
  "bfs_hop_vector G bfs graph vstart =
     bfs_distance_vector G bfs 0 graph vstart (\<lambda>e val_pre. val_pre + 1)"

section \<open>Edge weights and shortest paths\<close>

definition make_edge_weight_map :: "'g bgl \<Rightarrow> 'g yloc_graph \<Rightarrow> (edge_t \<Rightarrow> 't) \<Rightarrow> (edge_t \<rightharpoonup> 't)" where
  "make_edge_weight_map G graph edge_weight_fn =
     fold (\<lambda>e edge_weight_map. edge_weight_map(e \<mapsto> edge_weight_fn e))
       (bg_edges G (m_boost graph)) Map.empty"

text \<open>
  \<^verbatim>\<open>make_assoc_property_map\<close> reads with the subscript of the map, which gives a missing edge the
  value-initialised weight. \<open>dijkstra\<close> takes the graph, the start, the weights and the two vectors.
\<close>

definition dijkstra_path_distance_vector ::
  "'g bgl \<Rightarrow> ('g \<Rightarrow> vertex_t \<Rightarrow> (edge_t \<Rightarrow> 't) \<Rightarrow> vertex_t list \<times> 't list \<Rightarrow> vertex_t list \<times> 't list) \<Rightarrow>
    't \<Rightarrow> 'g yloc_graph \<Rightarrow> vertex_t \<Rightarrow> (edge_t \<rightharpoonup> 't) \<Rightarrow> vertex_t list \<times> 't list" where
  "dijkstra_path_distance_vector G dijkstra zero graph vstart edge_weight_map =
     (let predecessors = replicate (num_vertices G graph) 0;
          distances = replicate (num_vertices G graph) zero
      in dijkstra (m_boost graph) vstart (\<lambda>e. case edge_weight_map e of Some t \<Rightarrow> t | None \<Rightarrow> zero)
           (predecessors, distances))"

section \<open>Paths\<close>

inductive path :: "edge_t set \<Rightarrow> vertex_t \<Rightarrow> edge_t list \<Rightarrow> vertex_t \<Rightarrow> bool" for E s where
  path_start: "path E s [] s"
| path_step: "path E s p (m_source e) \<Longrightarrow> e \<in> E \<Longrightarrow> path E s (p @ [e]) (m_target e)"

definition shortest_path :: "edge_t set \<Rightarrow> vertex_t \<Rightarrow> edge_t list \<Rightarrow> vertex_t \<Rightarrow> bool" where
  "shortest_path E s p v \<longleftrightarrow> path E s p v \<and> (\<forall>q. path E s q v \<longrightarrow> length p \<le> length q)"

abbreviation edges_of :: "'g bgl \<Rightarrow> 'g yloc_graph \<Rightarrow> edge_t set" where
  "edges_of G g \<equiv> set (bg_edges G (m_boost g))"

lemma edges_wf:
  assumes "wf_graph G g" and "e \<in> edges_of G g"
  shows "m_source e < num_vertices G g" and "m_target e < num_vertices G g"
proof -
  have "(m_source e, m_edgetype (edge_at G g e), m_target e) \<in># arcs G g"
    using assms(2) by (auto simp: arcs_def)
  then show "m_source e < num_vertices G g" "m_target e < num_vertices G g"
    using wf_graphD(3) [OF assms(1)] by blast+
qed

section \<open>What the visitor computes\<close>

text \<open>Edges that lead from vertices discovered before to vertices not discovered.\<close>

definition growing :: "vertex_t \<Rightarrow> edge_t list \<Rightarrow> bool" where
  "growing s es \<longleftrightarrow> distinct (discovered s es) \<and>
     (\<forall>k < length es. m_source (es ! k) \<in> set (take (Suc k) (discovered s es)))"

lemma growing_Nil [simp]: "growing s []"
  by (simp add: growing_def discovered_def)

lemma growing_snoc:
  "growing s (es @ [e]) \<longleftrightarrow> growing s es \<and> m_source e \<in> set (discovered s es) \<and>
     m_target e \<notin> set (discovered s es)"
proof -
  have "(\<forall>k < length (es @ [e]). m_source ((es @ [e]) ! k) \<in> set (take (Suc k) (discovered s (es @ [e])))) \<longleftrightarrow>
      (\<forall>k < length es. m_source (es ! k) \<in> set (take (Suc k) (discovered s es))) \<and>
      m_source e \<in> set (discovered s es)"
    by (auto simp: discovered_append nth_append less_Suc_eq)
  then show ?thesis by (auto simp: growing_def discovered_append)
qed

lemma growing_source:
  assumes "growing s es" and "e \<in> set es"
  shows "m_source e \<in> set (discovered s es)"
proof -
  obtain k where "k < length es" "e = es ! k" using assms(2) by (auto simp: in_set_conv_nth)
  then show ?thesis using assms(1) by (auto simp: growing_def dest: in_set_takeD)
qed

definition tree_edges_fold :: "(edge_t \<Rightarrow> 't \<Rightarrow> 't) \<Rightarrow> edge_t list \<Rightarrow> 't list \<Rightarrow> 't list" where
  "tree_edges_fold fn es D = m_distmap (fold tree_edge es \<lparr>m_distmap = D, m_on_tree_edge = fn\<rparr>)"

lemma fold_tree_edge_fn: "m_on_tree_edge (fold tree_edge es vis) = m_on_tree_edge vis"
  by (induction es arbitrary: vis) (simp_all add: tree_edge_def Let_def)

lemma tree_edges_fold_simps [simp]:
  "tree_edges_fold fn [] D = D"
  "tree_edges_fold fn (es @ [e]) D =
     (tree_edges_fold fn es D)[m_target e := fn e (tree_edges_fold fn es D ! m_source e)]"
  by (simp_all add: tree_edges_fold_def tree_edge_def Let_def fold_tree_edge_fn)

lemma length_tree_edges_fold [simp]: "length (tree_edges_fold fn es D) = length D"
  by (induction es rule: rev_induct) simp_all

lemma tree_edges_fold_value:
  assumes "growing s es" and "\<forall>e \<in> set es. m_target e < length D"
  shows "(\<forall>e \<in> set es. tree_edges_fold fn es D ! m_target e = fn e (tree_edges_fold fn es D ! m_source e)) \<and>
    (\<forall>v. v \<notin> m_target ` set es \<longrightarrow> tree_edges_fold fn es D ! v = D ! v)"
  using assms
proof (induction es rule: rev_induct)
  case (snoc e es)
  have g: "growing s es" "m_source e \<in> set (discovered s es)" "m_target e \<notin> set (discovered s es)"
    using snoc.prems(1) by (simp_all add: growing_snoc)
  have other: "m_source e' \<noteq> m_target e \<and> m_target e' \<noteq> m_target e" if e': "e' \<in> set es" for e'
  proof -
    have "m_source e' \<in> set (discovered s es)" by (rule growing_source [OF g(1) e'])
    moreover have "m_target e' \<in> set (discovered s es)" using e' by (simp add: discovered_def)
    ultimately show ?thesis using g(3) by metis
  qed
  have self: "m_source e \<noteq> m_target e" using g by auto
  let ?D = "tree_edges_fold fn es D"
  have t: "m_target e < length ?D" using snoc.prems(2) by simp
  have IH: "\<forall>e \<in> set es. ?D ! m_target e = fn e (?D ! m_source e)"
    "\<forall>v. v \<notin> m_target ` set es \<longrightarrow> ?D ! v = D ! v"
    using snoc.IH [OF g(1)] snoc.prems(2) by simp_all
  have "?D[m_target e := x] ! m_source e' = ?D ! m_source e' \<and> ?D[m_target e := x] ! m_target e' = ?D ! m_target e'"
    if "e' \<in> set es" for e' x
    using other [OF that] by (simp add: nth_list_update_neq)
  then show ?case using IH self t by (simp add: nth_list_update_neq nth_list_update_eq)
qed simp

text \<open>The distance of a vertex is the fold of the function along the path by which it was discovered.\<close>

lemma tree_paths:
  assumes g: "growing s es" and n: "\<forall>e \<in> set es. m_target e < n" "s < n" and E: "set es \<subseteq> E"
  defines "P \<equiv> tree_edges_fold (\<lambda>e p. p @ [e]) es (replicate n [])"
  shows "v \<in> set (discovered s es) \<Longrightarrow> path E s (P ! v) v"
    and "v \<in> set (discovered s es) \<Longrightarrow> tree_edges_fold fn es (replicate n z) ! v = fold fn (P ! v) z"
    and "k < length (discovered s es) \<Longrightarrow> length (P ! (discovered s es ! k)) \<le> k"
    and "P ! s = []" and "e \<in> set es \<Longrightarrow> P ! m_target e = P ! m_source e @ [e]"
proof -
  let ?D = "tree_edges_fold fn es (replicate n z)"
  have P: "\<forall>e \<in> set es. P ! m_target e = P ! m_source e @ [e]"
    "\<forall>v. v \<notin> m_target ` set es \<longrightarrow> P ! v = replicate n [] ! v"
    using tree_edges_fold_value [OF g, of "replicate n []" "\<lambda>e p. p @ [e]"] n by (simp_all add: P_def)
  have D: "\<forall>e \<in> set es. ?D ! m_target e = fn e (?D ! m_source e)"
    "\<forall>v. v \<notin> m_target ` set es \<longrightarrow> ?D ! v = replicate n z ! v"
    using tree_edges_fold_value [OF g, of "replicate n z" fn] n by simp_all
  have s: "s \<notin> m_target ` set es" using g by (auto simp: growing_def discovered_def)
  then show P_s: "P ! s = []" using P(2) n(2) by simp
  show "e \<in> set es \<Longrightarrow> P ! m_target e = P ! m_source e @ [e]" using P(1) by blast
  have D_s: "?D ! s = z" using D(2) s n(2) by simp
  have all: "path E s (P ! (discovered s es ! k)) (discovered s es ! k) \<and>
      ?D ! (discovered s es ! k) = fold fn (P ! (discovered s es ! k)) z \<and>
      length (P ! (discovered s es ! k)) \<le> k" if "k < length (discovered s es)" for k
    using that
  proof (induction k rule: less_induct)
    case (less k)
    show ?case
    proof (cases k)
      case 0
      then show ?thesis using P_s D_s by (simp add: discovered_def path_start)
    next
      case (Suc j)
      then have j: "j < length es" and at: "discovered s es ! k = m_target (es ! j)"
        using less.prems by (simp_all add: discovered_def)
      obtain i where i: "i < k" "m_source (es ! j) = discovered s es ! i"
        using g j Suc by (auto simp: growing_def in_set_conv_nth)
      have "i < length (discovered s es)" using i(1) less.prems by simp
      note IH = less.IH [OF i(1) this]
      have in_es: "es ! j \<in> set es" using j by simp
      have "path E s (P ! m_source (es ! j) @ [es ! j]) (m_target (es ! j))"
        using IH i(2) in_es E by (intro path_step) auto
      then show ?thesis using IH P(1) D(1) in_es i at by auto
    qed
  qed
  show "v \<in> set (discovered s es) \<Longrightarrow> path E s (P ! v) v"
    and "v \<in> set (discovered s es) \<Longrightarrow> ?D ! v = fold fn (P ! v) z"
    using all by (auto simp: in_set_conv_nth)
  show "k < length (discovered s es) \<Longrightarrow> length (P ! (discovered s es ! k)) \<le> k"
    using all by blast
qed

text \<open>Breadth-first order makes these paths shortest.\<close>

lemma bfs_order_growing: "bfs_order E s es \<Longrightarrow> growing s es"
  by (simp add: bfs_order_def growing_def)

lemma pos_discovered:
  assumes "bfs_order E s es" and "k < length es"
  shows "pos (discovered s es) (m_source (es ! k)) \<le> k"
proof -
  obtain i where "i < length (take (Suc k) (discovered s es))" "take (Suc k) (discovered s es) ! i = m_source (es ! k)"
    using assms by (auto simp: bfs_order_def in_set_conv_nth)
  then have i: "i \<le> k" "i < length (discovered s es)" "discovered s es ! i = m_source (es ! k)"
    by simp_all
  moreover have "distinct (discovered s es)" using assms(1) by (simp add: bfs_order_def)
  ultimately show ?thesis using pos_nth [of "discovered s es" i] by simp
qed

text \<open>A depth that grows by one along tree edges never falls along the order of discovery.\<close>

lemma depth_mono:
  fixes d :: "vertex_t \<Rightarrow> nat"
  assumes order: "bfs_order E s es" and d: "d s = 0" "\<forall>e \<in> set es. d (m_target e) = Suc (d (m_source e))"
  shows "j < length (discovered s es) \<Longrightarrow> i \<le> j \<Longrightarrow> d (discovered s es ! i) \<le> d (discovered s es ! j)"
proof (induction j arbitrary: i rule: less_induct)
  case (less j)
  let ?o = "discovered s es"
  show ?case
  proof (cases i)
    case 0
    then show ?thesis using d(1) by (simp add: discovered_def)
  next
    case (Suc i')
    then obtain j' where j: "j = Suc j'" "i' \<le> j'" using less.prems(2) by (cases j) auto
    have lt: "i' < length es" "j' < length es" using less.prems(1) j by simp_all
    let ?p = "\<lambda>k. pos ?o (m_source (es ! k))"
    have at: "d (?o ! Suc k) = Suc (d (?o ! ?p k))" if "k < length es" for k
    proof -
      have "m_source (es ! k) \<in> set ?o"
        using growing_source [OF bfs_order_growing [OF order]] that by simp
      then show ?thesis using d(2) that by (simp add: discovered_def [of s es] nth_pos)
    qed
    have "?p i' \<le> ?p j'"
      using order j(2) lt sorted_nth_mono [of "map (\<lambda>e. pos ?o (m_source e)) es" i' j']
      by (simp add: bfs_order_def)
    moreover have "?p j' < j" using pos_discovered [OF order lt(2)] j(1) by simp
    ultimately have "d (?o ! ?p i') \<le> d (?o ! ?p j')" using less.IH [of "?p j'"] less.prems(1) by simp
    then show ?thesis using at [OF lt(1)] at [OF lt(2)] Suc j(1) by simp
  qed
qed

lemma path_discovered:
  assumes order: "bfs_order E s es" and d: "d s = 0" "\<forall>e \<in> set es. d (m_target e) = Suc (d (m_source e))"
    and p: "path E s p v"
  shows "v \<in> set (discovered s es) \<and> d v \<le> length p"
  using p
proof induction
  case path_start
  then show ?case using d(1) by (simp add: discovered_def)
next
  case (path_step p e)
  let ?o = "discovered s es"
  have t: "m_target e \<in> set ?o"
    and first: "\<forall>t \<in> set es. m_target t = m_target e \<longrightarrow> pos ?o (m_source t) \<le> pos ?o (m_source e)"
    using order path_step by (auto simp: bfs_order_def)
  have "d (m_target e) \<le> Suc (d (m_source e))"
  proof (cases "m_target e = s")
    case False
    then obtain t where t: "t \<in> set es" "m_target t = m_target e"
      using t by (auto simp: discovered_def)
    have "m_source t \<in> set ?o"
      by (rule growing_source [OF bfs_order_growing [OF order] t(1)])
    moreover have "pos ?o (m_source e) < length ?o" using path_step by (intro pos_less) simp
    ultimately have "d (m_source t) \<le> d (m_source e)"
      using depth_mono [OF order d, of "pos ?o (m_source e)" "pos ?o (m_source t)"] first t path_step
      by (simp add: nth_pos)
    then show ?thesis using d(2) t by force
  qed (simp add: d(1))
  then show ?case using t path_step by simp
qed

context boost_bfs
begin

text \<open>The distances of a search: the function folded along shortest paths.\<close>

lemma distance_path:
  assumes wf: "wf_graph G g" and s: "s < num_vertices G g"
  defines "E \<equiv> edges_of G g"
  shows "(\<exists>q. path E s q v) \<Longrightarrow> \<exists>p. shortest_path E s p v \<and> length p < num_vertices G g \<and>
      bfs_distance_vector G tree_edges zero g s fn ! v = fold fn p zero"
    and "\<not> (\<exists>q. path E s q v) \<Longrightarrow> v < num_vertices G g \<Longrightarrow>
      bfs_distance_vector G tree_edges zero g s fn ! v = zero"
proof -
  let ?n = "num_vertices G g"
  define es where "es = tree_edges (m_boost g) s"
  have order: "bfs_order E s es"
    using tree_edges_order [of s "m_boost g"] s by (simp add: E_def es_def num_vertices_def)
  then have es: "set es \<subseteq> E" "growing s es" by (simp add: bfs_order_def, rule bfs_order_growing)
  have lt: "\<forall>e \<in> set es. m_target e < ?n" using es(1) edges_wf(2) [OF wf] by (auto simp: E_def)
  have D: "bfs_distance_vector G tree_edges zero g s fn = tree_edges_fold fn es (replicate ?n zero)"
    by (simp add: bfs_distance_vector_def tree_edges_fold_def es_def)
  define P where "P = tree_edges_fold (\<lambda>e p. p @ [e]) es (replicate ?n [])"
  note tp = tree_paths [OF es(2) lt s es(1), folded P_def]
  have depth: "length (P ! s) = 0" "\<forall>e \<in> set es. length (P ! m_target e) = Suc (length (P ! m_source e))"
    using tp(4,5) by simp_all
  note pd = path_discovered [where d = "\<lambda>v. length (P ! v)", OF order depth]
  have disc: "set (discovered s es) \<subseteq> {..<?n}" using lt s by (auto simp: discovered_def)
  {
    assume "\<exists>q. path E s q v"
    then have v: "v \<in> set (discovered s es)" using pd by blast
    obtain k where k: "k < length (discovered s es)" "discovered s es ! k = v"
      using v by (auto simp: in_set_conv_nth)
    have "length (discovered s es) = card (set (discovered s es))"
      using order distinct_card by (metis bfs_order_def)
    also have "\<dots> \<le> ?n" using card_mono [OF _ disc] by simp
    finally have "length (P ! v) < ?n" using tp(3) [OF k(1)] k by simp
    moreover have "shortest_path E s (P ! v) v"
      using tp(1) [OF v] pd by (auto simp: shortest_path_def)
    ultimately show "\<exists>p. shortest_path E s p v \<and> length p < ?n \<and>
        bfs_distance_vector G tree_edges zero g s fn ! v = fold fn p zero"
      unfolding D using tp(2) [OF v, of fn zero] by blast
  }
  assume no: "\<not> (\<exists>q. path E s q v)" and v: "v < ?n"
  then have "v \<notin> set (discovered s es)" using tp(1) by blast
  then show "bfs_distance_vector G tree_edges zero g s fn ! v = zero"
    using tree_edges_fold_value [OF es(2), of "replicate ?n zero" fn] lt v
    by (simp add: D discovered_def)
qed

end

text \<open>Distances in hops.\<close>

definition hops :: "edge_t set \<Rightarrow> vertex_t \<Rightarrow> vertex_t \<Rightarrow> nat" where
  "hops E s v = (LEAST n. \<exists>p. path E s p v \<and> length p = n)"

lemma hops_shortest: "shortest_path E s p v \<Longrightarrow> hops E s v = length p"
  unfolding hops_def shortest_path_def by (rule Least_equality) auto

lemma fold_hops: "fold (\<lambda>e val_pre. val_pre + 1) p (k :: 32 word) = k + of_nat (length p)"
  by (induction p arbitrary: k) (simp_all add: ac_simps)

lemma sint_small:
  assumes "n < 2 ^ 31"
  shows "sint (of_nat n :: 32 word) = int n"
proof -
  define y where "y = int n"
  have "0 \<le> y" "y < 2 ^ 31" using assms by (simp_all add: y_def)
  then have "signed_take_bit (LENGTH(32) - Suc 0) y = y"
    by (intro signed_take_bit_int_eq_self) simp_all
  then show ?thesis unfolding signed_of_nat y_def [symmetric] of_int_eq_id id_def .
qed

lemma path_Cons:
  assumes "path E (m_target e) p v" and "e \<in> E"
  shows "path E (m_source e) (e # p) v"
  using assms(1)
proof induction
  case path_start
  then show ?case using path.path_step [OF path.path_start assms(2), simplified] by simp
next
  case (path_step p e')
  then show ?case using path.path_step [OF path_step.IH path_step.hyps(2)] by simp
qed

lemma path_back:
  assumes "path E s p v" and opposite: "\<And>e. e \<in> E \<Longrightarrow> \<exists>e' \<in> E. m_source e' = m_target e \<and> m_target e' = m_source e"
  shows "\<exists>q. path E v q s \<and> length q = length p"
  using assms(1)
proof induction
  case path_start
  then show ?case using path.path_start by fastforce
next
  case (path_step p e)
  then obtain q where q: "path E (m_source e) q s" "length q = length p" by blast
  obtain e' where e': "e' \<in> E" "m_source e' = m_target e" "m_target e' = m_source e"
    using opposite [OF path_step.hyps(2)] by blast
  then have "path E (m_source e') (e' # q) s" using q(1) by (intro path_Cons) simp_all
  then show ?case using q(2) e'(2) by (intro exI [of _ "e' # q"]) simp
qed

lemma hop_path:
  assumes "boost_bfs G bfs" and "wf_graph G g" and "s < num_vertices G g"
    and "\<exists>q. path (edges_of G g) s q v"
  shows "\<exists>p. shortest_path (edges_of G g) s p v \<and> length p < num_vertices G g \<and>
    bfs_hop_vector G bfs g s ! v = of_nat (length p)"
  using boost_bfs.distance_path(1) [where zero = "0 :: 32 word" and fn = "\<lambda>e val_pre. val_pre + 1", OF assms]
  unfolding bfs_hop_vector_def fold_hops add_0 .

lemma hop_no_path:
  assumes "boost_bfs G bfs" and "wf_graph G g" and "s < num_vertices G g"
    and "\<not> (\<exists>q. path (edges_of G g) s q v)" and "v < num_vertices G g"
  shows "bfs_hop_vector G bfs g s ! v = 0"
  unfolding bfs_hop_vector_def by (rule boost_bfs.distance_path(2) [OF assms])

lemma bfs_hop_vector_hops_value:
  assumes "boost_bfs G bfs" and "wf_graph G g" and "s < num_vertices G g" and "v < num_vertices G g"
    and "num_vertices G g \<le> 2 ^ 31"
  shows "sint (bfs_hop_vector G bfs g s ! v) =
    (if \<exists>p. path (edges_of G g) s p v then int (hops (edges_of G g) s v) else 0)"
proof (cases "\<exists>p. path (edges_of G g) s p v")
  case True
  obtain p where p: "shortest_path (edges_of G g) s p v" "length p < num_vertices G g"
      "bfs_hop_vector G bfs g s ! v = of_nat (length p)"
    using hop_path [OF assms(1-3) True] by blast
  have "length p < 2 ^ 31" using p(2) assms(5) by simp
  then show ?thesis
    unfolding if_P [OF True] p(3) hops_shortest [OF p(1)] by (rule sint_small)
next
  case False
  then show ?thesis using hop_no_path [OF assms(1-3) False assms(4)] by simp
qed

text \<open>Sums of weights along paths.\<close>

definition path_weight :: "(edge_t \<Rightarrow> u64) \<Rightarrow> edge_t list \<Rightarrow> nat" where
  "path_weight wt p = sum_list (map (\<lambda>e. unat (wt e)) p)"

lemma path_weight_simps [simp]:
  "path_weight wt [] = 0" "path_weight wt (p @ q) = path_weight wt p + path_weight wt q"
  "path_weight wt [e] = unat (wt e)"
  by (simp_all add: path_weight_def)

lemma dijkstra_bound:
  assumes r: "dijkstra_result E n s wt (pred, dist)" and "path E s p v"
  shows "dist ! v \<noteq> uint64_max \<and> unat (dist ! v) \<le> path_weight wt p"
  using assms(2)
proof induction
  case path_start
  then show ?case using r by (simp add: dijkstra_result_def uint64_max_def)
next
  case (path_step p e)
  then have "dist ! m_target e \<noteq> uint64_max \<and> unat (dist ! m_target e) \<le> unat (dist ! m_source e) + unat (wt e)"
    using r by (simp add: dijkstra_result_def)
  then show ?case using path_step.IH by simp
qed

lemma dijkstra_tree_path:
  assumes r: "dijkstra_result E n s wt (pred, dist)" and E: "\<And>e. e \<in> E \<Longrightarrow> m_source e < n"
    and v: "v < n" "dist ! v \<noteq> uint64_max"
  shows "\<exists>p. path E s p v \<and> (\<forall>e \<in> set p. pred ! m_target e = m_source e) \<and> path_weight wt p = unat (dist ! v)"
proof -
  let ?R = "{(pred ! v, v) | v. v < n \<and> v \<noteq> s \<and> dist ! v \<noteq> uint64_max}"
  have "?R = (\<lambda>v. (pred ! v, v)) ` {v. v < n \<and> v \<noteq> s \<and> dist ! v \<noteq> uint64_max}" by auto
  then have "finite ?R" by simp
  then have "wf ?R" using r by (intro finite_acyclic_wf) (simp_all add: dijkstra_result_def)
  then show ?thesis
    using v
  proof (induction v rule: wf_induct_rule)
    case (less v)
    show ?case
    proof (cases "v = s")
      case True
      then show ?thesis using r by (auto simp: dijkstra_result_def intro: path_start)
    next
      case False
      then obtain e where e: "e \<in> E" "m_source e = pred ! v" "m_target e = v"
          "unat (dist ! v) = unat (dist ! (pred ! v)) + unat (wt e)" and d: "dist ! (pred ! v) \<noteq> uint64_max"
        using r less.prems unfolding dijkstra_result_def by blast
      have "(pred ! v, v) \<in> ?R" using less.prems False by blast
      moreover have "pred ! v < n" using E [OF e(1)] e(2) by simp
      ultimately obtain p where p: "path E s p (m_source e)" "\<forall>e \<in> set p. pred ! m_target e = m_source e"
          "path_weight wt p = unat (dist ! (pred ! v))"
        using less.IH [of "pred ! v"] d e(2) by auto
      show ?thesis
        using path_step [OF p(1) e(1)] p(2,3) e by (intro exI [of _ "p @ [e]"]) simp
    qed
  qed
qed

text \<open>
  \<^verbatim>\<open>make_edge_weight_map\<close> gives every edge of the graph, parallel edges apart, the weight that the
  function computes for it, and holds no other edge.
\<close>

lemma make_edge_weight_map_complete:
  "make_edge_weight_map G g fn = (\<lambda>e. if e \<in> edges_of G g then Some (fn e) else None)"
proof -
  have "fold (\<lambda>e m. m(e \<mapsto> fn e)) es m = (\<lambda>e. if e \<in> set es then Some (fn e) else m e)" for es m
    by (induction es arbitrary: m) auto
  then show ?thesis by (simp add: make_edge_weight_map_def)
qed

text \<open>The documented result depends on the weights of the edges of the graph only.\<close>

lemma dijkstra_result_cong:
  assumes "\<And>e. e \<in> E \<Longrightarrow> wt e = wt' e"
  shows "dijkstra_result E n s wt r = dijkstra_result E n s wt' r" and "total_weight E wt = total_weight E wt'"
proof -
  show "total_weight E wt = total_weight E wt'"
    unfolding total_weight_def using assms by (intro sum.cong) simp_all
  show "dijkstra_result E n s wt r = dijkstra_result E n s wt' r"
    unfolding dijkstra_result_def using assms by (simp cong: bex_cong)
qed

lemma dijkstra_vector_result:
  assumes "boost_dijkstra G dijkstra" and "wf_graph G g" and "s < num_vertices G g"
    and "total_weight (edges_of G g) fn < unat uint64_max"
  shows "dijkstra_result (edges_of G g) (num_vertices G g) s fn
    (dijkstra_path_distance_vector G dijkstra 0 g s (make_edge_weight_map G g fn))"
proof -
  let ?n = "num_vertices G g"
  define wt where "wt = (\<lambda>e. case make_edge_weight_map G g fn e of Some t \<Rightarrow> t | None \<Rightarrow> 0)"
  have wt: "e \<in> edges_of G g \<Longrightarrow> wt e = fn e" for e by (simp add: wt_def make_edge_weight_map_complete)
  have "total_weight (edges_of G g) wt < unat uint64_max"
    using assms(4) dijkstra_result_cong(2) [OF wt] by simp
  then have "dijkstra_result (edges_of G g) ?n s wt (dijkstra (m_boost g) s wt (replicate ?n 0, replicate ?n 0))"
    using assms(3) edges_wf [OF assms(2)] unfolding num_vertices_def
    by (intro boost_dijkstra.dijkstra_returns [OF assms(1)]) simp_all
  then have "dijkstra_result (edges_of G g) ?n s fn (dijkstra (m_boost g) s wt (replicate ?n 0, replicate ?n 0))"
    using dijkstra_result_cong(1) [OF wt] by simp
  then show ?thesis by (simp add: dijkstra_path_distance_vector_def Let_def wt_def)
qed

lemma path_append:
  assumes "path E a p b" and "path E b q c"
  shows "path E a (p @ q) c"
  using assms(2)
proof induction
  case path_start
  then show ?case using assms(1) by simp
next
  case (path_step q e)
  then show ?case using path.path_step [of E a "p @ q" e] by simp
qed

lemma child_path: "(u, v) \<in> (child_rel G g)\<^sup>* \<Longrightarrow> \<exists>p. path (edges_of G g) u p v"
proof (induction rule: rtrancl_induct)
  case base
  then show ?case using path.path_start by blast
next
  case (step v x)
  then obtain p where p: "path (edges_of G g) u p v" by blast
  from step.hyps(2) obtain e where "e \<in> edges_of G g" "m_source e = v" "m_target e = x"
    by (auto simp: child_rel_def arcs_def)
  with p show ?case using path.path_step [of "edges_of G g" u p e] by blast
qed

text \<open>Where every edge has its edge back, the way back is as short.\<close>

lemma paired_opposite:
  assumes "paired G w" and "e \<in> edges_of G (topology w)"
  shows "\<exists>e' \<in> edges_of G (topology w). m_source e' = m_target e \<and> m_target e' = m_source e"
proof -
  have "(m_source e, m_edgetype (edge_at G (topology w) e), m_target e) \<in># warcs G w"
    using assms(2) by (auto simp: arcs_def)
  from paired_member [OF assms(1) this] show ?thesis by (auto simp: arcs_def)
qed

lemma hops_symmetric:
  assumes "boost_bfs G bfs" and "wf_world G w" and "paired G w" and "s < nv G w" and "v < nv G w"
  shows "bfs_hop_vector G bfs (topology w) s ! v = bfs_hop_vector G bfs (topology w) v ! s"
proof -
  let ?g = "topology w"
  let ?E = "edges_of G ?g"
  have wf: "wf_graph G ?g" using assms(2) by (simp add: wf_world_def)
  note opposite = paired_opposite [OF assms(3)]
  have rev_path: "shortest_path ?E a p b \<Longrightarrow> shortest_path ?E b q a \<Longrightarrow> length p = length q" for a b p q
    unfolding shortest_path_def using path_back [OF _ opposite] by (metis order_antisym)
  show ?thesis
  proof (cases "\<exists>p. path ?E s p v")
    case True
    then have to_s: "\<exists>p. path ?E v p s" using path_back [OF _ opposite] by blast
    obtain p where p: "shortest_path ?E s p v" "bfs_hop_vector G bfs ?g s ! v = of_nat (length p)"
      using hop_path [OF assms(1) wf assms(4) True] by blast
    obtain q where q: "shortest_path ?E v q s" "bfs_hop_vector G bfs ?g v ! s = of_nat (length q)"
      using hop_path [OF assms(1) wf assms(5) to_s] by blast
    show ?thesis unfolding p(2) q(2) rev_path [OF p(1) q(1)] ..
  next
    case False
    then have no: "\<nexists>p. path ?E v p s" using path_back [OF _ opposite] by blast
    show ?thesis
      using hop_no_path [OF assms(1) wf assms(4) False assms(5)] hop_no_path [OF assms(1) wf assms(5) no assms(4)]
      by simp
  qed
qed

section \<open>A graph with a vertex apart\<close>

definition sample_graph :: "adjlist yloc_graph" where
  "sample_graph =
    \<lparr>m_boost = \<lparr>al_vertices = replicate 4 new_vertex,
        al_edges = [(0, 1, Edge CHILD), (1, 0, Edge PARENT), (1, 2, Edge CHILD), (2, 1, Edge PARENT)]\<rparr>,
     m_identifier_map = Map.empty, m_root_vertex = 0\<rparr>"

lemma sample_edges: "bg_edges adjlist_ops (m_boost sample_graph) =
   [\<lparr>m_source = 0, m_target = 1, m_eproperty = 0\<rparr>, \<lparr>m_source = 1, m_target = 0, m_eproperty = 1\<rparr>,
    \<lparr>m_source = 1, m_target = 2, m_eproperty = 2\<rparr>, \<lparr>m_source = 2, m_target = 1, m_eproperty = 3\<rparr>]"
  by (simp add: sample_graph_def adjlist_ops_def al_descriptors_def upt_conv_Cons)

lemma sample_wf: "wf_graph adjlist_ops sample_graph" "num_vertices adjlist_ops sample_graph = 4"
proof -
  show n: "num_vertices adjlist_ops sample_graph = 4"
    by (simp add: num_vertices_def sample_graph_def adjlist_ops_def)
  show "wf_graph adjlist_ops sample_graph"
    unfolding wf_graph_def n arcs_def sample_edges by (simp add: sample_graph_def)
qed

abbreviation sample_bfs :: "adjlist \<Rightarrow> vertex_t \<Rightarrow> edge_t list" where
  "sample_bfs \<equiv> \<lambda>g. search_edges (bg_edges adjlist_ops g)"

lemma boost_bfs_adjlist: "boost_bfs adjlist_ops sample_bfs"
  by (rule adjlist_bfs.boost_bfs_axioms)

lemma sample_reach: "\<exists>q. path (edges_of adjlist_ops sample_graph) 0 q 2"
proof -
  let ?e = "\<lparr>m_source = 0, m_target = 1, m_eproperty = 0\<rparr> :: edge_t"
  let ?f = "\<lparr>m_source = 1, m_target = 2, m_eproperty = 2\<rparr> :: edge_t"
  have "path (edges_of adjlist_ops sample_graph) 0 ([] @ [?e]) (m_target ?e)"
    by (rule path_step) (simp_all add: path_start sample_edges)
  then have "path (edges_of adjlist_ops sample_graph) 0 (([] @ [?e]) @ [?f]) (m_target ?f)"
    by (intro path_step) (simp_all add: sample_edges)
  then show ?thesis by auto
qed

section \<open>Properties\<close>

text \<open>
  C16. \<^verbatim>\<open>bfs_distance_vector\<close> with a function: the entry of a vertex that can be reached is the function
  applied along a path to it with the fewest edges, first edge first, beginning with the
  value-initialised distance. All other entries, and that of the start, keep that first value.
\<close>

theorem bfs_distance_vector_path:
  assumes "boost_bfs G bfs" and "wf_graph G g" and "s < num_vertices G g" and "v < num_vertices G g"
  shows "if \<exists>q. path (edges_of G g) s q v
    then \<exists>p. shortest_path (edges_of G g) s p v \<and> bfs_distance_vector G bfs zero g s fn ! v = fold fn p zero
    else bfs_distance_vector G bfs zero g s fn ! v = zero"
  using boost_bfs.distance_path [OF assms(1-3), of v zero fn] assms(4) by auto

theorem bfs_distance_vector_path_witness:
  "\<exists>p. shortest_path (edges_of adjlist_ops sample_graph) 0 p 2 \<and>
     bfs_distance_vector adjlist_ops sample_bfs (0 :: nat) sample_graph 0 (\<lambda>e d. d + 10) ! 2 =
       fold (\<lambda>e d. d + 10) p 0"
  using bfs_distance_vector_path [OF boost_bfs_adjlist sample_wf(1), of 0 2 "0 :: nat" "\<lambda>e d. d + 10"]
  unfolding sample_wf(2) if_P [OF sample_reach] by simp

text \<open>
  C15. The hop count of \<^verbatim>\<open>bfs_distance_vector\<close>: in a graph with at most \<open>2^31\<close> vertices no \<^verbatim>\<open>int\<close> overflows, and
  the entry of a vertex is the least number of edges of a path from the start to it. A vertex that
  cannot be reached has the entry 0, as the start has.
\<close>

theorem bfs_hop_vector_hops:
  assumes "boost_bfs G bfs" and "wf_graph G g" and "s < num_vertices G g" and "v < num_vertices G g"
    and "num_vertices G g \<le> 2 ^ 31"
  shows "sint (bfs_hop_vector G bfs g s ! v) =
    (if \<exists>p. path (edges_of G g) s p v then int (hops (edges_of G g) s v) else 0)"
  by (rule bfs_hop_vector_hops_value [OF assms])

theorem bfs_hop_vector_hops_witness:
  "sint (bfs_hop_vector adjlist_ops sample_bfs sample_graph 0 ! 2) =
     int (hops (edges_of adjlist_ops sample_graph) 0 2) \<and>
   bfs_hop_vector adjlist_ops sample_bfs sample_graph 0 = [0, 1, 2, 0]"
proof
  show "sint (bfs_hop_vector adjlist_ops sample_bfs sample_graph 0 ! 2) =
     int (hops (edges_of adjlist_ops sample_graph) 0 2)"
    using bfs_hop_vector_hops [OF boost_bfs_adjlist sample_wf(1), of 0 2]
    unfolding sample_wf(2) if_P [OF sample_reach] by simp
  show "bfs_hop_vector adjlist_ops sample_bfs sample_graph 0 = [0, 1, 2, 0]"
    unfolding bfs_hop_vector_def bfs_distance_vector_def sample_wf(2) sample_edges
    by (simp add: search_edges_def discovered_def tree_edge_def Let_def numeral_eq_Suc)
qed

text \<open>
  C17. Shortest paths under the weights of \<^verbatim>\<open>make_edge_weight_map\<close>, whose sum does not reach the greatest
  value of the type: the distance of a vertex that can be reached is the least sum of weights over
  all paths to it, and following the predecessors back leads along such a path; the other vertices
  have the greatest value of the type and are their own predecessors.
\<close>

theorem dijkstra_path_distance_vector_shortest:
  assumes "boost_dijkstra G dijkstra" and "wf_graph G g" and "s < num_vertices G g" and "v < num_vertices G g"
    and "total_weight (edges_of G g) fn < unat uint64_max"
  shows "case dijkstra_path_distance_vector G dijkstra 0 g s (make_edge_weight_map G g fn) of
    (pred, dist) \<Rightarrow>
      if \<exists>q. path (edges_of G g) s q v
      then \<exists>p. path (edges_of G g) s p v \<and> (\<forall>e \<in> set p. pred ! m_target e = m_source e) \<and>
        unat (dist ! v) = path_weight fn p \<and>
        (\<forall>q. path (edges_of G g) s q v \<longrightarrow> path_weight fn p \<le> path_weight fn q)
      else dist ! v = uint64_max \<and> pred ! v = v"
proof -
  let ?E = "edges_of G g"
  obtain pred dist where run: "dijkstra_path_distance_vector G dijkstra 0 g s (make_edge_weight_map G g fn) = (pred, dist)"
    by fastforce
  have r: "dijkstra_result ?E (num_vertices G g) s fn (pred, dist)"
    unfolding run [symmetric] by (rule dijkstra_vector_result [OF assms(1,2,3,5)])
  show ?thesis
  proof (cases "\<exists>q. path ?E s q v")
    case True
    then have reached: "dist ! v \<noteq> uint64_max" using dijkstra_bound [OF r] by blast
    obtain p where p: "path ?E s p v" "\<forall>e \<in> set p. pred ! m_target e = m_source e" "path_weight fn p = unat (dist ! v)"
      using dijkstra_tree_path [OF r edges_wf(1) [OF assms(2)] assms(4) reached] by blast
    have "\<forall>q. path ?E s q v \<longrightarrow> path_weight fn p \<le> path_weight fn q"
      using dijkstra_bound [OF r] p(3) by simp
    with p show ?thesis unfolding run prod.case if_P [OF True] by auto
  next
    case False
    have far: "dist ! v = uint64_max"
      using dijkstra_tree_path [OF r edges_wf(1) [OF assms(2)] assms(4)] False by blast
    then have "pred ! v = v" using r assms(4) by (simp add: dijkstra_result_def)
    then show ?thesis unfolding run prod.case if_not_P [OF False] using far by simp
  qed
qed

abbreviation sample_dijkstra ::
  "adjlist \<Rightarrow> vertex_t \<Rightarrow> (edge_t \<Rightarrow> u64) \<Rightarrow> vertex_t list \<times> u64 list \<Rightarrow> vertex_t list \<times> u64 list" where
  "sample_dijkstra \<equiv> \<lambda>g s wt r. dijkstra_edges (bg_edges adjlist_ops g) (bg_num_vertices adjlist_ops g) s wt"

lemma boost_dijkstra_adjlist: "boost_dijkstra adjlist_ops sample_dijkstra"
  by (rule adjlist_dijkstra.boost_dijkstra_axioms)

text \<open>Every edge of the sample weighs 5.\<close>

theorem dijkstra_path_distance_vector_shortest_witness:
  "\<exists>p. path (edges_of adjlist_ops sample_graph) 0 p 2 \<and> path_weight (\<lambda>e. 5) p = 10 \<and>
    (\<forall>q. path (edges_of adjlist_ops sample_graph) 0 q 2 \<longrightarrow> path_weight (\<lambda>e. 5) p \<le> path_weight (\<lambda>e. 5) q)"
proof -
  have weights: "make_edge_weight_map adjlist_ops sample_graph (\<lambda>e. 5 :: u64) e =
      (if e \<in> edges_of adjlist_ops sample_graph then Some 5 else None)" for e
    by (simp add: make_edge_weight_map_complete)
  have run: "dijkstra_path_distance_vector adjlist_ops sample_dijkstra 0 sample_graph 0
      (make_edge_weight_map adjlist_ops sample_graph (\<lambda>e. 5)) = ([0, 0, 1, 3], [0, 5, 10, uint64_max])"
    unfolding dijkstra_path_distance_vector_def Let_def dijkstra_edges_def distance_words_def sample_wf(2) [unfolded num_vertices_def]
      weights sample_edges
    by (simp add: first_settled_def frontier_def settle_def tentative_def upt_conv_Cons)
  have "total_weight (edges_of adjlist_ops sample_graph) (\<lambda>e. 5) < unat uint64_max"
    unfolding unat_max sample_edges by (simp add: total_weight_def)
  from dijkstra_path_distance_vector_shortest [OF boost_dijkstra_adjlist sample_wf(1) _ _ this, of 0 2]
  show ?thesis
    unfolding run prod.case if_P [OF sample_reach] sample_wf(2) by auto
qed

end
