(* ===== verification/Topology_Util.thy ===== *)
theory Topology_Util
  imports Topology
begin

text \<open>
  \<^verbatim>\<open>src/src/util.cc\<close> and \<^verbatim>\<open>src/src/include/yloc/util.h\<close>: the descent to the lowest vertex whose
  processors contain a given mask, the size of a graph view, and the text of graph labels.
\<close>

section \<open>lowest_containing_vertex\<close>

text \<open>
  Whether a vertex qualifies in the descent for \<open>msk\<close>: it has an affinity mask that contains
  \<open>msk\<close> and it is not an MPI process.
\<close>

definition qualifies :: "'b bitset_ops \<Rightarrow> 'g bgl \<Rightarrow> ('g, 'b) world \<Rightarrow> 'b \<Rightarrow> vertex_t \<Rightarrow> bool" where
  "qualifies B G w msk target \<longleftrightarrow>
     (case get_mask (objects w) (vat G w target) ''cpu_affinity_mask'' of
        Some target_mask \<Rightarrow>
          is_containing B target_mask msk \<and> \<not> element_is_a (vat G w target) MPIProcess
      | None \<Rightarrow> False)"

text \<open>The loop over the child edges, on the view of the graph that shows only those.\<close>

definition candidates ::
  "'b bitset_ops \<Rightarrow> 'g bgl \<Rightarrow> ('g, 'b) world \<Rightarrow> 'b \<Rightarrow> vertex_t \<Rightarrow> vertex_t list" where
  "candidates B G w msk vertex =
     filter (qualifies B G w msk)
       (map m_target
         (bg_filtered_out_edges G (m_boost (topology w))
           (\<lambda>e. m_edgetype (edge_at G (topology w) e) = CHILD) vertex))"

text \<open>The number of processors of a vertex (of a candidate, which has a mask).\<close>

definition mask_count :: "'b bitset_ops \<Rightarrow> 'g bgl \<Rightarrow> ('g, 'b) world \<Rightarrow> vertex_t \<Rightarrow> nat" where
  "mask_count B G w v =
     bs_count B (the (get_mask (objects w) (vat G w v) ''cpu_affinity_mask''))"

text \<open>
  The recursion of the static function; \<open>srt\<close> is \<^verbatim>\<open>std::sort\<close>, and \<open>None\<close> is a recursion that
  does not end.
\<close>

type_synonym sorter = "(vertex_t \<Rightarrow> vertex_t \<Rightarrow> bool) \<Rightarrow> vertex_t list \<Rightarrow> vertex_t list"

partial_function (option) lowest_from ::
  "'b bitset_ops \<Rightarrow> 'g bgl \<Rightarrow> sorter \<Rightarrow> ('g, 'b) world \<Rightarrow> 'b \<Rightarrow> vertex_t \<Rightarrow> vertex_t option" where
  "lowest_from B G srt w msk vertex =
     (if candidates B G w msk vertex = [] then Some vertex
      else lowest_from B G srt w msk
        (srt (\<lambda>a b. mask_count B G w a < mask_count B G w b) (candidates B G w msk vertex) ! 0))"

definition lowest_containing_vertex ::
  "'b bitset_ops \<Rightarrow> 'g bgl \<Rightarrow> sorter \<Rightarrow> ('g, 'b) world \<Rightarrow> 'b \<Rightarrow> vertex_t option" where
  "lowest_containing_vertex B G srt w msk =
     lowest_from B G srt w msk (get_root_vertex (topology w))"

text \<open>
  The specification of one step, for any sorter: to a candidate with the fewest processors.
\<close>

inductive descends ::
  "'b bitset_ops \<Rightarrow> 'g bgl \<Rightarrow> ('g, 'b) world \<Rightarrow> 'b \<Rightarrow> vertex_t \<Rightarrow> vertex_t \<Rightarrow> bool"
  for B G w msk where
  descend: "c \<in> set (candidates B G w msk v) \<Longrightarrow>
    (\<And>d. d \<in> set (candidates B G w msk v) \<Longrightarrow> mask_count B G w c \<le> mask_count B G w d) \<Longrightarrow>
    descends B G w msk v c"

inductive_cases descendsE: "descends B G w msk v c"
inductive_simps descends_iff: "descends B G w msk v c"

text \<open>
  Masks shrink towards the leaves: a component that qualifies for some mask hangs below components
  with masks (of the same size) that include its own. hwloc's topologies are like this:
  below a component without a mask there is none with a mask.
\<close>

definition processor_mask :: "'g bgl \<Rightarrow> ('g, 'b) world \<Rightarrow> vertex_t \<Rightarrow> 'b option" where
  "processor_mask G w v =
     (if element_is_a (vat G w v) MPIProcess then None
      else get_mask (objects w) (vat G w v) ''cpu_affinity_mask'')"

definition masks_nested :: "'b bitset_ops \<Rightarrow> 'g bgl \<Rightarrow> ('g, 'b) world \<Rightarrow> bool" where
  "masks_nested B G w \<longleftrightarrow> (\<forall>(u, v) \<in> child_rel G (topology w). \<forall>mv.
     processor_mask G w v = Some mv \<longrightarrow>
       (\<exists>mu. processor_mask G w u = Some mu \<and> bs_size B mu = bs_size B mv \<and>
          bits B mv \<subseteq> bits B mu))"

lemma qualifies_iff: "qualifies B G w msk v \<longleftrightarrow>
    (\<exists>m. processor_mask G w v = Some m \<and> is_containing B m msk)"
  by (auto simp: qualifies_def processor_mask_def split: option.splits)

locale topology_search = boost_graph G + dynamic_bitset B + std_sort srt
  for G :: "'g bgl" and B :: "'b bitset_ops" and srt :: sorter
begin

lemma set_candidates:
  "set (candidates B G w msk v) = {t. (v, t) \<in> child_rel G (topology w) \<and> qualifies B G w msk t}"
  by (auto simp: candidates_def filtered_out_edges out_edges_iff child_rel_def arcs_def)

lemma descends_child: "descends B G w msk v c \<Longrightarrow> (v, c) \<in> child_rel G (topology w) \<and> qualifies B G w msk c"
  by (auto elim!: descendsE simp: set_candidates)

lemma first_sorted_descends:
  assumes "candidates B G w msk v \<noteq> []"
  shows "descends B G w msk v
    (srt (\<lambda>a b. mask_count B G w a < mask_count B G w b) (candidates B G w msk v) ! 0)"
proof
  show "srt (\<lambda>a b. mask_count B G w a < mask_count B G w b) (candidates B G w msk v) ! 0
      \<in> set (candidates B G w msk v)"
    by (rule sort_first_in [OF assms])
  show "mask_count B G w (srt (\<lambda>a b. mask_count B G w a < mask_count B G w b)
      (candidates B G w msk v) ! 0) \<le> mask_count B G w d"
    if "d \<in> set (candidates B G w msk v)" for d
    using sort_first_least [OF strict_weak_key that, of "mask_count B G w"] by simp
qed

lemma lowest_from_descends:
  assumes "lowest_from B G srt w msk v = Some r"
  shows "(descends B G w msk)\<^sup>*\<^sup>* v r \<and> candidates B G w msk r = []"
proof (rule lowest_from.raw_induct
    [where P = "\<lambda>B' G' srt' w' msk' v r. B' = B \<and> G' = G \<and> srt' = srt \<and> w' = w \<and> msk' = msk \<longrightarrow>
        (descends B G w msk)\<^sup>*\<^sup>* v r \<and> candidates B G w msk r = []",
      OF _ assms, THEN mp], goal_cases)
  case (1 f B' G' srt' w' msk' v r)
  then show ?case
    using first_sorted_descends [of w msk v]
    by (auto split: if_splits intro: converse_rtranclp_into_rtranclp)
next
  case 2
  show ?case by simp
qed

lemma lowest_from_total:
  assumes "acyclic (child_rel G (topology w))"
  shows "\<exists>r. lowest_from B G srt w msk v = Some r"
proof -
  have "wf ((child_rel G (topology w))\<inverse>)"
    by (rule finite_acyclic_wf_converse [OF finite_child_rel assms])
  then show ?thesis
  proof (induction v rule: wf_induct_rule)
    case (less v)
    show ?case
    proof (cases "candidates B G w msk v = []")
      case True
      then show ?thesis by (simp add: lowest_from.simps [of B G srt w msk v])
    next
      case False
      from descends_child [OF first_sorted_descends [OF False]] less.IH
      show ?thesis by (simp add: lowest_from.simps [of B G srt w msk v] False)
    qed
  qed
qed

lemma descends_rtrancl:
  "(descends B G w msk)\<^sup>*\<^sup>* v r \<Longrightarrow>
     (v, r) \<in> (child_rel G (topology w))\<^sup>* \<and> (r = v \<or> qualifies B G w msk r)"
  by (induction rule: rtranclp_induct) (auto dest: descends_child intro: rtrancl_into_rtrancl)

text \<open>Above a vertex that contains the mask, with nested masks, every vertex but the top does.\<close>

lemma nested_contains:
  assumes "masks_nested B G w" and "(c, d) \<in> (child_rel G (topology w))\<^sup>*"
    and "processor_mask G w d = Some md" and "bs_size B md = bs_size B msk"
    and "bits B msk \<subseteq> bits B md"
  shows "\<exists>mc. processor_mask G w c = Some mc \<and> bs_size B mc = bs_size B msk \<and>
    bits B msk \<subseteq> bits B mc"
  using assms(2-)
proof (induction arbitrary: md rule: rtrancl_induct)
  case base
  then show ?case by blast
next
  case (step y z)
  from assms(1) step.hyps(2) step.prems(1) obtain my where
    "processor_mask G w y = Some my" "bs_size B my = bs_size B md" "bits B md \<subseteq> bits B my"
    by (fastforce simp: masks_nested_def)
  with step.IH [of my] step.prems show ?case by auto
qed

lemma lowest_from_deepest:
  assumes "masks_nested B G w" and "lowest_from B G srt w msk v = Some r"
    and "(r, d) \<in> (child_rel G (topology w))\<^sup>+" and "processor_mask G w d = Some md"
    and "bs_size B md = bs_size B msk"
  shows "\<not> is_containing B md msk"
proof
  assume "is_containing B md msk"
  then have sub: "bits B msk \<subseteq> bits B md"
    using assms(5) by (simp add: is_containing_def contained_subset)
  from assms(3) obtain c where c: "(r, c) \<in> child_rel G (topology w)"
    "(c, d) \<in> (child_rel G (topology w))\<^sup>*"
    by (blast dest: tranclD)
  from nested_contains [OF assms(1) c(2) assms(4,5) sub] obtain mc where
    "processor_mask G w c = Some mc" "bs_size B mc = bs_size B msk" "bits B msk \<subseteq> bits B mc"
    by blast
  then have "qualifies B G w msk c"
    by (auto simp: qualifies_iff is_containing_def contained_subset)
  with c(1) have "c \<in> set (candidates B G w msk r)" by (simp add: set_candidates)
  with lowest_from_descends [OF assms(2)] show False by simp
qed

lemma lowest_from_correct:
  assumes "lowest_from B G srt w msk v = Some r"
  shows "(descends B G w msk)\<^sup>*\<^sup>* v r \<and> (v, r) \<in> (child_rel G (topology w))\<^sup>* \<and>
    (r = v \<or> qualifies B G w msk r) \<and>
    (\<forall>c. (r, c) \<in> child_rel G (topology w) \<longrightarrow> \<not> qualifies B G w msk c)"
proof -
  from lowest_from_descends [OF assms]
  have run: "(descends B G w msk)\<^sup>*\<^sup>* v r" and "set (candidates B G w msk r) = {}" by auto
  then have "\<forall>c. (r, c) \<in> child_rel G (topology w) \<longrightarrow> \<not> qualifies B G w msk c"
    by (auto simp: set_candidates)
  with run descends_rtrancl [OF run] show ?thesis by blast
qed

end

interpretation list_search: topology_search adjlist_ops bool_list_ops insertion_sort
  by unfold_locales

lemma topology_search_lists: "topology_search adjlist_ops bool_list_ops insertion_sort"
  by (rule list_search.topology_search_axioms)

section \<open>Graph views and labels\<close>

text \<open>
  \<^verbatim>\<open>num_vertices_view\<close> counts the steps of the iterator; the argument is the sequence of
  vertices of the view.
\<close>

definition num_vertices_view :: "vertex_t list \<Rightarrow> nat" where
  "num_vertices_view vs = fold (\<lambda>_ n. n + 1) vs 0"

definition newline :: string where
  "newline = [CHR 0x0A]"

text \<open>\<^verbatim>\<open>print_property\<close>: what is written to the standard output.\<close>

definition print_property ::
  "'b bitset_ops \<Rightarrow> 'b heap \<Rightarrow> 'e graph_element_scheme \<Rightarrow> string \<Rightarrow> string" where
  "print_property B h el property =
     property @ ''='' @
     (case get_string B h el property of
        Some p \<Rightarrow> p @ newline
      | None \<Rightarrow> ''has no value'' @ newline)"

text \<open>The label of a vertex in \<^verbatim>\<open>write_graph_dot_file\<close>.\<close>

definition property_line ::
  "'b bitset_ops \<Rightarrow> 'b heap \<Rightarrow> 'e graph_element_scheme \<Rightarrow> string \<Rightarrow> string" where
  "property_line B h el property =
     (case get_string B h el property of
        Some p \<Rightarrow> property @ ''='' @ p @ newline
      | None \<Rightarrow> [])"

definition vertex_label ::
  "'b bitset_ops \<Rightarrow> 'g bgl \<Rightarrow> ('g, 'b) world \<Rightarrow> string list \<Rightarrow> vertex_t \<Rightarrow> string" where
  "vertex_label B G w vertex_properties vd =
     element_to_string (vat G w vd) @ newline @ ''VD='' @ decimal vd @ newline @
     concat (map (property_line B (objects w) (vat G w vd)) vertex_properties)"

definition edge_label :: "bool \<Rightarrow> edge_type \<Rightarrow> string" where
  "edge_label edge_labels edgetype =
     (if edge_labels then
        (case edgetype of
           PARENT \<Rightarrow> ''parent'' | CHILD \<Rightarrow> ''child'' | GPU_INTERCONNECT \<Rightarrow> ''gpu2gpu''
         | _ \<Rightarrow> [])
      else [])"

text \<open>
  \<^verbatim>\<open>write_graph_dot_file\<close>: what \<^verbatim>\<open>boost::write_graphviz\<close> is given to write, the labelled vertices and edges of a
  graph or a view of it.
\<close>

record dot_file =
  dot_vertices :: "(vertex_t \<times> string) list"
  dot_edges :: "(vertex_t \<times> string \<times> vertex_t) list"

definition write_graph_dot_file :: "'b bitset_ops \<Rightarrow> 'g bgl \<Rightarrow> ('g, 'b) world \<Rightarrow> vertex_t list \<Rightarrow> edge_t list \<Rightarrow>
    string list \<Rightarrow> bool \<Rightarrow> dot_file" where
  "write_graph_dot_file B G w vertices edges vertex_properties edge_labels =
     \<lparr>dot_vertices = map (\<lambda>vd. (vd, vertex_label B G w vertex_properties vd)) vertices,
      dot_edges = map (\<lambda>e. (m_source e, edge_label edge_labels (m_edgetype (edge_at G (topology w) e)), m_target e)) edges\<rparr>"

lemma num_vertices_view_length: "num_vertices_view vs = length vs"
proof -
  have "fold (\<lambda>_ n. n + 1) vs k = length vs + k" for k
    by (induction vs arbitrary: k) auto
  then show ?thesis by (simp add: num_vertices_view_def)
qed

section \<open>Properties\<close>

text \<open>
  C31. The descent terminates: when no CHILD edges form a cycle, \<^verbatim>\<open>lowest_containing_vertex\<close> returns
  a vertex, whatever the mask and however \<^verbatim>\<open>std::sort\<close> orders candidates of equal size.
\<close>

theorem lowest_containing_vertex_terminates:
  assumes "topology_search G B srt" and "acyclic (child_rel G (topology w))"
  shows "\<exists>r. lowest_containing_vertex B G srt w msk = Some r"
  unfolding lowest_containing_vertex_def
  by (rule topology_search.lowest_from_total [OF assms])

text \<open>
  C4. The result is lowest: it is reached from the root vertex along CHILD edges, each step going
  to a qualifying child with the fewest processors; it qualifies itself (or is the root); and
  none of its own children has a mask that contains the given one, except MPI processes.
\<close>

theorem lowest_containing_vertex_correct:
  assumes "topology_search G B srt" and "lowest_containing_vertex B G srt w msk = Some r"
  shows "(descends B G w msk)\<^sup>*\<^sup>* (m_root_vertex (topology w)) r \<and>
    (m_root_vertex (topology w), r) \<in> (child_rel G (topology w))\<^sup>* \<and>
    (r = m_root_vertex (topology w) \<or> qualifies B G w msk r) \<and>
    (\<forall>c. (r, c) \<in> child_rel G (topology w) \<longrightarrow> \<not> qualifies B G w msk c)"
  unfolding lowest_containing_vertex_def
  by (rule topology_search.lowest_from_correct
      [OF assms(1) assms(2) [unfolded lowest_containing_vertex_def get_root_vertex_def]])

text \<open>
  A machine (vertex 0) with two processors, one of its cores (vertex 1, processor 0), and a
  process on it (vertex 2) with the same mask.
\<close>

definition sample_mask_adapter :: "bool list \<Rightarrow> bool list adapter" where
  "sample_mask_adapter m = override Adapter_cpu_affinity_mask (Some (Mask m)) base_adapter"

definition sample_machine :: "(adjlist, bool list) world" where
  "sample_machine =
    \<lparr>topology = \<lparr>m_boost = \<lparr>al_vertices =
        [\<lparr>m_adapters = [0], m_description = ''host'', m_type = Node\<rparr>,
         \<lparr>m_adapters = [1], m_description = ''Core'', m_type = PhysicalCore\<rparr>,
         \<lparr>m_adapters = [1], m_description = [], m_type = MPIProcess\<rparr>],
        al_edges = [(0, 1, Edge CHILD), (1, 0, Edge PARENT), (1, 2, Edge CHILD), (2, 1, Edge PARENT)]\<rparr>,
      m_identifier_map = Map.empty, m_root_vertex = 0\<rparr>,
     objects = [sample_mask_adapter [True, True], sample_mask_adapter [True, False]]\<rparr>"

lemma sample_descriptors: "al_descriptors (m_boost (topology sample_machine)) =
   [\<lparr>m_source = 0, m_target = 1, m_eproperty = 0\<rparr>, \<lparr>m_source = 1, m_target = 0, m_eproperty = 1\<rparr>,
    \<lparr>m_source = 1, m_target = 2, m_eproperty = 2\<rparr>, \<lparr>m_source = 2, m_target = 1, m_eproperty = 3\<rparr>]"
  by (simp add: sample_machine_def al_descriptors_def upt_conv_Cons)

lemma sample_child_rel: "child_rel adjlist_ops (topology sample_machine) = {(0, 1), (1, 2)}"
  using sample_descriptors
  by (auto simp: child_rel_def arcs_def edge_at_def adjlist_ops_def sample_machine_def)

lemma sample_get_mask:
  "get_mask (objects sample_machine) (vat adjlist_ops sample_machine 0) ''cpu_affinity_mask'' =
     Some [True, True]"
  "get_mask (objects sample_machine) (vat adjlist_ops sample_machine (Suc 0)) ''cpu_affinity_mask'' =
     Some [True, False]"
  "get_mask (objects sample_machine) (vat adjlist_ops sample_machine 2) ''cpu_affinity_mask'' =
     Some [True, False]"
  by (simp_all add: get_mask_def get_def sample_machine_def vertex_at_def adjlist_ops_def
      make_property_pair_def supports_def property_value_def sample_mask_adapter_def)

lemma sample_types:
  "element_is_a (vat adjlist_ops sample_machine 0) MPIProcess = False"
  "element_is_a (vat adjlist_ops sample_machine (Suc 0)) MPIProcess = False"
  "element_is_a (vat adjlist_ops sample_machine 2) MPIProcess = True"
  by (simp_all add: sample_machine_def vertex_at_def adjlist_ops_def element_is_a_def is_a_eval)

lemma sample_child_targets:
  "map m_target (bg_filtered_out_edges adjlist_ops (m_boost (topology sample_machine))
     (\<lambda>e. m_edgetype (edge_at adjlist_ops (topology sample_machine) e) = CHILD) 0) = [Suc 0]"
  "map m_target (bg_filtered_out_edges adjlist_ops (m_boost (topology sample_machine))
     (\<lambda>e. m_edgetype (edge_at adjlist_ops (topology sample_machine) e) = CHILD) (Suc 0)) = [2]"
  using sample_descriptors by (simp_all add: adjlist_ops_def edge_at_def sample_machine_def)

lemma sample_qualifies:
  "qualifies bool_list_ops adjlist_ops sample_machine [True, False] (Suc 0)"
  "\<not> qualifies bool_list_ops adjlist_ops sample_machine [True, True] (Suc 0)"
  "\<not> qualifies bool_list_ops adjlist_ops sample_machine msk 2"
  by (simp_all add: qualifies_def sample_get_mask sample_types is_containing_def
      is_contained_in_def) (simp_all add: bool_list_ops_def)

lemma sample_candidates:
  "candidates bool_list_ops adjlist_ops sample_machine [True, False] 0 = [Suc 0]"
  "candidates bool_list_ops adjlist_ops sample_machine [True, False] (Suc 0) = []"
  "candidates bool_list_ops adjlist_ops sample_machine [True, True] 0 = []"
  by (simp_all add: candidates_def sample_child_targets sample_qualifies)

lemma sample_lowest: "lowest_containing_vertex bool_list_ops adjlist_ops insertion_sort sample_machine
    [True, False] = Some (Suc 0)"
proof -
  have root: "get_root_vertex (topology sample_machine) = 0"
    by (simp add: get_root_vertex_def sample_machine_def)
  show ?thesis
    unfolding lowest_containing_vertex_def root
    by (subst lowest_from.simps, simp add: sample_candidates,
        subst lowest_from.simps, simp add: sample_candidates)
qed

theorem lowest_containing_vertex_terminates_witness:
  "\<exists>r. lowest_containing_vertex bool_list_ops adjlist_ops insertion_sort sample_machine
     [True, False] = Some r"
proof (rule lowest_containing_vertex_terminates [OF topology_search_lists])
  show "acyclic (child_rel adjlist_ops (topology sample_machine))"
    by (rule increasing_acyclic) (simp add: increasing_def sample_child_rel)
qed

theorem lowest_containing_vertex_correct_witness:
  "(descends bool_list_ops adjlist_ops sample_machine [True, False])\<^sup>*\<^sup>* 0 1 \<and>
   \<not> qualifies bool_list_ops adjlist_ops sample_machine [True, False] 2"
  using lowest_containing_vertex_correct [OF topology_search_lists sample_lowest]
  by (simp add: sample_child_rel) (simp add: sample_machine_def)

text \<open>
  C5. When masks are nested (each component's processors are among its parent's), no vertex anywhere
  below the result has a mask that contains the given one, MPI processes aside: the greedy
  descent finds a deepest containing vertex on its branch.
\<close>

theorem lowest_containing_vertex_deepest:
  assumes "topology_search G B srt" and "masks_nested B G w"
    and "lowest_containing_vertex B G srt w msk = Some r"
    and "(r, d) \<in> (child_rel G (topology w))\<^sup>+" and "processor_mask G w d = Some md"
    and "bs_size B md = bs_size B msk"
  shows "\<not> is_containing B md msk"
  by (rule topology_search.lowest_from_deepest
      [OF assms(1,2) assms(3) [unfolded lowest_containing_vertex_def] assms(4-6)])

theorem lowest_containing_vertex_deepest_witness:
  "\<not> is_containing bool_list_ops [True, False] [True, True]"
proof (rule lowest_containing_vertex_deepest [OF topology_search_lists])
  show "masks_nested bool_list_ops adjlist_ops sample_machine"
    by (simp add: masks_nested_def sample_child_rel processor_mask_def sample_get_mask sample_types)
      (auto simp: bool_list_ops_def bits_def less_Suc_eq)
  have root: "get_root_vertex (topology sample_machine) = 0"
    by (simp add: get_root_vertex_def sample_machine_def)
  show "lowest_containing_vertex bool_list_ops adjlist_ops insertion_sort sample_machine
      [True, True] = Some 0"
    unfolding lowest_containing_vertex_def root
    by (subst lowest_from.simps) (simp add: sample_candidates)
  show "(0, 1) \<in> (child_rel adjlist_ops (topology sample_machine))\<^sup>+"
    by (rule r_into_trancl) (simp add: sample_child_rel)
  show "processor_mask adjlist_ops sample_machine 1 = Some [True, False]"
    by (simp add: processor_mask_def sample_get_mask sample_types)
qed (simp add: bool_list_ops_def)

text \<open>
  Labels tell vertices apart: when no description contains a line break, two vertices with the
  same label are the same vertex.
\<close>

lemma vertex_label_inject:
  assumes "CHR 0x0A \<notin> set (m_description (vat G w u))"
    and "CHR 0x0A \<notin> set (m_description (vat G w v))"
    and "vertex_label B G w ps u = vertex_label B G w ps v"
  shows "u = v"
proof -
  have t: "CHR 0x0A \<notin> set (type_to_string t)" for t by (cases t) simp_all
  have d: "CHR 0x0A \<notin> set (decimal k)" for k
    using decimal_digits [of "CHR 0x0A" k] by auto
  have e: "CHR 0x0A \<notin> set (element_to_string (vat G w u))"
    "CHR 0x0A \<notin> set (element_to_string (vat G w v))"
    using assms(1,2) t by (simp_all add: element_to_string_def)
  from assms(3) have "decimal u @ CHR 0x0A # concat (map (property_line B (objects w) (vat G w u)) ps) =
      decimal v @ CHR 0x0A # concat (map (property_line B (objects w) (vat G w v)) ps)"
    by (simp add: vertex_label_def newline_def split_first_iff [OF e])
  then show ?thesis by (simp add: split_first_iff [OF d d])
qed

end
