(* ===== verification/Examples.thy ===== *)
theory Examples
  imports Query Topology_Util
begin

text \<open>
  A client of the library: \<^verbatim>\<open>find_distances\<close> of \<^verbatim>\<open>src/example/example.cc\<close>, which looks for the
  processing units closest to the first accelerator, and the files it writes. The lines that it prints
  are its result.
\<close>

section \<open>find_distances\<close>

text \<open>The vertices of \<^verbatim>\<open>make_filtered_graph(g, keep_all{}, is_a<t>)\<close>.\<close>

definition vertices_of_type :: "'g bgl \<Rightarrow> 'g yloc_graph \<Rightarrow> ctype \<Rightarrow> vertex_t list" where
  "vertices_of_type G g t = bg_filtered_vertices G (m_boost g) (\<lambda>v. element_is_a (vertex_at G g v) t)"

text \<open>The edges of such a view.\<close>

definition edges_of_type :: "'g bgl \<Rightarrow> 'g yloc_graph \<Rightarrow> ctype \<Rightarrow> edge_t list" where
  "edges_of_type G g t = bg_filtered_edges G (m_boost g) (\<lambda>v. element_is_a (vertex_at G g v) t)"

text \<open>\<^verbatim>\<open>filter_graph_example\<close>: the file of the view of all caches.\<close>

definition filter_graph_example :: "'b bitset_ops \<Rightarrow> 'g bgl \<Rightarrow> ('g, 'b) world \<Rightarrow> dot_file" where
  "filter_graph_example B G w =
     write_graph_dot_file B G w (vertices_of_type G (topology w) Cache) (edges_of_type G (topology w) Cache)
       [''memory'', ''numa_affinity''] False"

text \<open>The loop that looks for the least entry among the vertices of a view.\<close>

definition least_distance :: "32 word list \<Rightarrow> vertex_t list \<Rightarrow> 32 word \<Rightarrow> 32 word" where
  "least_distance distances vs mindist =
     fold (\<lambda>vd mindist. if sint (distances ! vd) < sint mindist then distances ! vd else mindist) vs mindist"

text \<open>The lines printed, with the numbers and the text in them.\<close>

datatype example_line =
    Found_accelerators nat
  | First_accelerator string
  | Number_of_PUs nat
  | Minimum_distance "32 word"
  | Hops vertex_t vertex_t "32 word"

text \<open>
  \<open>None\<close> is the undefined behaviour of reading the first vertex of an empty view. The last view filters
  that of the processing units.
\<close>

definition find_distances :: "'g bgl \<Rightarrow> ('g \<Rightarrow> vertex_t \<Rightarrow> edge_t list) \<Rightarrow> 'g yloc_graph \<Rightarrow> example_line list option" where
  "find_distances G bfs g =
     (let fgv_accelerator = vertices_of_type G g Accelerator;
          num_vertices = num_vertices_view fgv_accelerator;
          out = [Found_accelerators (num_vertices_view fgv_accelerator)]
      in if num_vertices < 1 then Some out
         else
           let vi = hd fgv_accelerator;
               out = out @ [First_accelerator (element_to_string (vertex_at G g vi))];
               fgv_pu = vertices_of_type G g LogicalCore;
               out = out @ [Number_of_PUs (num_vertices_view fgv_pu)];
               distances = bfs_hop_vector G bfs g vi
           in case fgv_pu of
                [] \<Rightarrow> None
              | first # _ \<Rightarrow>
                  let mindist = least_distance distances fgv_pu (distances ! first);
                      out = out @ [Minimum_distance mindist];
                      fgv_pu_min = filter (\<lambda>v. \<not> sint (distances ! v) > sint mindist) fgv_pu
                  in Some (out @ map (\<lambda>vd. Hops vi vd (distances ! vd)) fgv_pu_min))"

text \<open>All that is printed when the units \<open>vs\<close> are found at distance \<open>d\<close> from the first accelerator.\<close>

definition distance_report :: "'g bgl \<Rightarrow> 'g yloc_graph \<Rightarrow> vertex_t list \<Rightarrow> vertex_t list \<Rightarrow> 32 word \<Rightarrow>
    vertex_t list \<Rightarrow> example_line list" where
  "distance_report G g accelerators pus d vs =
     [Found_accelerators (length accelerators), First_accelerator (element_to_string (vertex_at G g (hd accelerators))),
      Number_of_PUs (length pus), Minimum_distance d] @ map (\<lambda>v. Hops (hd accelerators) v d) vs"

section \<open>The files\<close>

definition graph_dot_file :: "'b bitset_ops \<Rightarrow> 'g bgl \<Rightarrow> ('g, 'b) world \<Rightarrow> dot_file" where
  "graph_dot_file B G w =
     write_graph_dot_file B G w [0..<nv G w] (bg_edges G (m_boost (topology w))) [''memory'', ''numa_affinity''] False"

text \<open>
  The file of the caches is the part of the file of the graph that is about caches: their vertices, with
  the same labels, and the edges between two of them.
\<close>

lemma filter_graph_example_part:
  fixes w :: "('g, 'b) world"
  assumes G: "boost_graph G"
  defines "cache \<equiv> (\<lambda>v. is_a (m_type (vat G w v)) Cache)"
  shows "dot_vertices (filter_graph_example B G w) = filter (\<lambda>(v, l). cache v) (dot_vertices (graph_dot_file B G w)) \<and>
    mset (dot_edges (filter_graph_example B G w)) =
      filter_mset (\<lambda>(u, l, v). cache u \<and> cache v) (mset (dot_edges (graph_dot_file B G w)))"
proof -
  have "vertices_of_type G (topology w) Cache = filter cache [0..<nv G w]"
    by (simp add: vertices_of_type_def boost_graph.filtered_vertices [OF G] num_vertices_def element_is_a_def cache_def)
  moreover have "mset (edges_of_type G (topology w) Cache) =
      filter_mset (\<lambda>e. cache (m_source e) \<and> cache (m_target e)) (mset (bg_edges G (m_boost (topology w))))"
    by (simp add: edges_of_type_def boost_graph.filtered_edges [OF G] element_is_a_def cache_def)
  ultimately show ?thesis
    by (simp add: filter_graph_example_def graph_dot_file_def write_graph_dot_file_def filter_map comp_def
        filter_mset_image_mset)
qed

section \<open>The least distance\<close>

lemma least_distance_least:
  "(\<forall>v \<in> set vs. sint (least_distance D vs m) \<le> sint (D ! v)) \<and> sint (least_distance D vs m) \<le> sint m \<and>
   (least_distance D vs m = m \<or> (\<exists>v \<in> set vs. least_distance D vs m = D ! v))"
proof (induction vs arbitrary: m)
  case Nil
  then show ?case by (simp add: least_distance_def)
next
  case (Cons v vs)
  have step: "least_distance D (v # vs) m = least_distance D vs (if sint (D ! v) < sint m then D ! v else m)"
    by (simp add: least_distance_def)
  show ?case
    unfolding step using Cons.IH [of "if sint (D ! v) < sint m then D ! v else m"]
    by (auto split: if_splits)
qed

text \<open>The vertices kept are those with the least entry.\<close>

lemma least_distance_filter:
  assumes "vs = first # rest"
  shows "filter (\<lambda>v. \<not> sint (D ! v) > sint (least_distance D vs (D ! first))) vs =
    filter (\<lambda>v. \<forall>u \<in> set vs. sint (D ! v) \<le> sint (D ! u)) vs"
proof (rule filter_cong [OF refl])
  fix v
  let ?m = "least_distance D vs (D ! first)"
  have m: "\<forall>v \<in> set vs. sint ?m \<le> sint (D ! v)" "\<exists>v \<in> set vs. ?m = D ! v"
    using least_distance_least [of vs D "D ! first"] assms by auto
  then obtain x where x: "x \<in> set vs" "?m = D ! x" by blast
  show "(\<not> sint (D ! v) > sint ?m) \<longleftrightarrow> (\<forall>u \<in> set vs. sint (D ! v) \<le> sint (D ! u))"
  proof
    assume "\<not> sint (D ! v) > sint ?m"
    then have "sint (D ! v) \<le> sint ?m" by simp
    with m(1) show "\<forall>u \<in> set vs. sint (D ! v) \<le> sint (D ! u)" by (blast intro: order_trans)
  next
    assume "\<forall>u \<in> set vs. sint (D ! v) \<le> sint (D ! u)"
    then have "sint (D ! v) \<le> sint (D ! x)" using x(1) by blast
    then show "\<not> sint (D ! v) > sint ?m" unfolding x(2) by simp
  qed
qed

lemma core_not_accelerator: "is_a t Accelerator \<Longrightarrow> \<not> is_a t LogicalCore"
  by (cases t) (simp_all add: is_a_eval)

lemma hops_positive:
  assumes "path E s p v" and "v \<noteq> s"
  shows "0 < hops E s v"
proof -
  have "\<exists>p. path E s p v \<and> length p = hops E s v"
    unfolding hops_def by (rule LeastI_ex) (use assms(1) in blast)
  then obtain q where q: "path E s q v" "length q = hops E s v" by blast
  have "q \<noteq> []" using q(1) assms(2) by (auto elim: path.cases)
  then show ?thesis by (simp flip: q(2))
qed

lemma vertices_of_type_iff:
  assumes "boost_graph G"
  shows "v \<in> set (vertices_of_type G g t) \<longleftrightarrow> v < num_vertices G g \<and> is_a (m_type (vertex_at G g v)) t"
  by (simp add: vertices_of_type_def boost_graph.filtered_vertices [OF assms] num_vertices_def
      element_is_a_def conj_commute)

lemma find_distances_least:
  fixes G :: "'g bgl" and bfs :: "'g \<Rightarrow> vertex_t \<Rightarrow> edge_t list"
  assumes "vertices_of_type G g Accelerator = a # others"
  defines "pus \<equiv> vertices_of_type G g LogicalCore" and "D \<equiv> bfs_hop_vector G bfs g a"
  assumes "pus \<noteq> []"
  obtains x where "x \<in> set pus" and "\<forall>u \<in> set pus. sint (D ! x) \<le> sint (D ! u)"
    and "find_distances G bfs g = Some (distance_report G g (a # others) pus (D ! x)
      (filter (\<lambda>v. \<forall>u \<in> set pus. sint (D ! v) \<le> sint (D ! u)) pus))"
proof -
  obtain first rest where pus: "pus = first # rest" using assms(4) by (cases pus) auto
  let ?m = "least_distance D pus (D ! first)" and ?near = "filter (\<lambda>v. \<forall>u \<in> set pus. sint (D ! v) \<le> sint (D ! u)) pus"
  obtain x where x: "x \<in> set pus" "?m = D ! x" and least: "\<forall>u \<in> set pus. sint (D ! x) \<le> sint (D ! u)"
    using that least_distance_least [of pus D "D ! first"] pus by fastforce
  have "D ! v = D ! x" if "v \<in> set ?near" for v
  proof -
    have "sint (D ! v) = sint (D ! x)" using that x(1) least by (intro order_antisym) auto
    then show ?thesis by (rule signed_word_eqI)
  qed
  then have "map (\<lambda>v. Hops a v (D ! v)) ?near = map (\<lambda>v. Hops a v (D ! x)) ?near" by simp
  moreover have "find_distances G bfs g = Some ([Found_accelerators (length (a # others)),
      First_accelerator (element_to_string (vertex_at G g a)), Number_of_PUs (length pus), Minimum_distance ?m] @
      map (\<lambda>v. Hops a v (D ! v)) (filter (\<lambda>v. \<not> sint (D ! v) > sint ?m) pus))"
    using pus by (simp add: find_distances_def assms(1) num_vertices_view_length Let_def pus_def D_def)
  ultimately show thesis
    using that [OF x(1) least] least_distance_filter [OF pus, of D]
    by (simp add: x(2) distance_report_def)
qed

text \<open>When some vertex cannot be reached, those have the least entry.\<close>

lemma least_unreached:
  assumes d: "\<And>v. v \<in> set vs \<Longrightarrow> sint (D ! v) = (if \<exists>p. path E a p v then int (hops E a v) else 0)"
    and far: "\<And>v. v \<in> set vs \<Longrightarrow> v \<noteq> a" and x: "x \<in> set vs" "\<nexists>p. path E a p x" and v: "v \<in> set vs"
  shows "(\<forall>u \<in> set vs. sint (D ! v) \<le> sint (D ! u)) \<longleftrightarrow> (\<nexists>p. path E a p v)"
proof
  assume "\<forall>u \<in> set vs. sint (D ! v) \<le> sint (D ! u)"
  then have "sint (D ! v) \<le> 0" using x d [OF x(1)] by force
  moreover have "0 < sint (D ! v)" if ex: "\<exists>p. path E a p v"
    unfolding d [OF v] if_P [OF ex] using ex hops_positive [OF _ far [OF v]] by auto
  ultimately show "\<nexists>p. path E a p v" using not_less by blast
next
  assume no: "\<nexists>p. path E a p v"
  have "0 \<le> sint (D ! u)" if "u \<in> set vs" for u using d [OF that] by simp
  moreover have "sint (D ! v) = 0" unfolding d [OF v] if_not_P [OF no] ..
  ultimately show "\<forall>u \<in> set vs. sint (D ! v) \<le> sint (D ! u)" by simp
qed

text \<open>What is printed, whether or not the units can be reached.\<close>

lemma find_distances_cases:
  fixes G :: "'g bgl"
  assumes "boost_bfs G bfs" and "wf_graph G g" and "num_vertices G g \<le> 2 ^ 31"
    and "vertices_of_type G g Accelerator = a # others"
  defines "E \<equiv> edges_of G g" and "pus \<equiv> vertices_of_type G g LogicalCore"
  assumes "pus \<noteq> []"
  shows "find_distances G bfs g = Some (if \<forall>u \<in> set pus. \<exists>p. path E a p u
     then distance_report G g (a # others) pus (of_nat (Min (hops E a ` set pus)))
       (filter (\<lambda>v. \<forall>u \<in> set pus. hops E a v \<le> hops E a u) pus)
     else distance_report G g (a # others) pus 0 (filter (\<lambda>v. \<nexists>p. path E a p v) pus))"
proof -
  let ?D = "bfs_hop_vector G bfs g a"
  have G: "boost_graph G" using assms(1) by (simp add: boost_bfs_def)
  have a: "a < num_vertices G g" "is_a (m_type (vertex_at G g a)) Accelerator"
    using assms(4) vertices_of_type_iff [OF G, of a g Accelerator] by simp_all
  obtain x where x: "x \<in> set pus" and least: "\<forall>u \<in> set pus. sint (?D ! x) \<le> sint (?D ! u)"
    and run: "find_distances G bfs g = Some (distance_report G g (a # others) pus (?D ! x)
      (filter (\<lambda>v. \<forall>u \<in> set pus. sint (?D ! v) \<le> sint (?D ! u)) pus))"
    using find_distances_least [OF assms(4), of bfs] assms(7) unfolding pus_def by blast
  have d: "sint (?D ! v) = (if \<exists>p. path E a p v then int (hops E a v) else 0)" if "v \<in> set pus" for v
    using bfs_hop_vector_hops_value [OF assms(1,2) a(1) _ assms(3), of v] that
    by (simp add: vertices_of_type_iff [OF G] pus_def E_def)
  have far: "v \<noteq> a" if "v \<in> set pus" for v
    using that a(2) core_not_accelerator by (auto simp: vertices_of_type_iff [OF G] pus_def)
  have word: "?D ! x = of_nat k" if "sint (?D ! x) = int k" for k
    using that of_int_sint [of "?D ! x", where 'a = "32 word"] by (simp del: of_int_sint)
  show ?thesis
  proof (cases "\<forall>u \<in> set pus. \<exists>p. path E a p u")
    case True
    then have same: "sint (?D ! v) = int (hops E a v)" if "v \<in> set pus" for v using d that by simp
    then have "filter (\<lambda>v. \<forall>u \<in> set pus. sint (?D ! v) \<le> sint (?D ! u)) pus =
        filter (\<lambda>v. \<forall>u \<in> set pus. hops E a v \<le> hops E a u) pus"
      by (intro filter_cong [OF refl]) simp
    moreover have "Min (hops E a ` set pus) = hops E a x"
      using x least same by (intro Min_eqI) auto
    ultimately show ?thesis unfolding run if_P [OF True] using word [OF same [OF x]] by simp
  next
    case False
    then obtain y where y: "y \<in> set pus" "\<nexists>p. path E a p y" by blast
    have "(\<forall>u \<in> set pus. sint (?D ! v) \<le> sint (?D ! u)) \<longleftrightarrow> (\<nexists>p. path E a p v)" if "v \<in> set pus" for v
      by (rule least_unreached [OF d far y that])
    then have near: "filter (\<lambda>v. \<forall>u \<in> set pus. sint (?D ! v) \<le> sint (?D ! u)) pus =
        filter (\<lambda>v. \<nexists>p. path E a p v) pus" and "\<nexists>p. path E a p x"
      using x least by (auto intro!: filter_cong)
    then have "sint (?D ! x) = int 0" using d [OF x] by simp
    from word [OF this] near show ?thesis unfolding run if_not_P [OF False] by simp
  qed
qed

section \<open>Properties\<close>

text \<open>
  C21. \<^verbatim>\<open>find_distances\<close> prints the processing units with the fewest hops from the first accelerator, with
  their number, when all of them can be reached from it (in a graph with an
  accelerator, a processing unit and at most \<open>2^31\<close> vertices). When some cannot, it reports the minimum distance
  0 and prints exactly those instead: their entry of 0 is below that of every processing unit that
  is connected.
\<close>

theorem find_distances_nearest:
  fixes G :: "'g bgl"
  assumes "boost_bfs G bfs" and "wf_graph G g" and "num_vertices G g \<le> 2 ^ 31"
    and "vertices_of_type G g Accelerator = a # others"
  defines "E \<equiv> edges_of G g" and "pus \<equiv> vertices_of_type G g LogicalCore"
  assumes "pus \<noteq> []"
  shows "find_distances G bfs g = Some (if \<forall>u \<in> set pus. \<exists>p. path E a p u
     then distance_report G g (a # others) pus (of_nat (Min (hops E a ` set pus)))
       (filter (\<lambda>v. \<forall>u \<in> set pus. hops E a v \<le> hops E a u) pus)
     else distance_report G g (a # others) pus 0 (filter (\<lambda>v. \<nexists>p. path E a p v) pus))"
  unfolding E_def pus_def by (rule find_distances_cases [OF assms(1-4) assms(7) [unfolded pus_def]])

text \<open>A GPU with one processing unit two hops away and one that no edge leads to.\<close>

definition sample_gpu_graph :: "adjlist yloc_graph" where
  "sample_gpu_graph =
    \<lparr>m_boost = \<lparr>al_vertices = [new_vertex\<lparr>m_type := GPU\<rparr>, new_vertex\<lparr>m_type := Node\<rparr>,
          new_vertex\<lparr>m_type := LogicalCore\<rparr>, new_vertex\<lparr>m_type := LogicalCore\<rparr>],
        al_edges = al_edges (m_boost sample_graph)\<rparr>,
     m_identifier_map = Map.empty, m_root_vertex = 0\<rparr>"

lemma sample_gpu_graph_simps:
  "bg_edges adjlist_ops (m_boost sample_gpu_graph) = bg_edges adjlist_ops (m_boost sample_graph)"
  "num_vertices adjlist_ops sample_gpu_graph = 4"
  "vertices_of_type adjlist_ops sample_gpu_graph Accelerator = [0]"
  "vertices_of_type adjlist_ops sample_gpu_graph LogicalCore = [2, 3]"
proof -
  show "bg_edges adjlist_ops (m_boost sample_gpu_graph) = bg_edges adjlist_ops (m_boost sample_graph)"
    by (simp add: sample_gpu_graph_def adjlist_ops_def al_descriptors_def)
  show "num_vertices adjlist_ops sample_gpu_graph = 4"
    by (simp add: num_vertices_def sample_gpu_graph_def adjlist_ops_def)
  show "vertices_of_type adjlist_ops sample_gpu_graph Accelerator = [0]"
    "vertices_of_type adjlist_ops sample_gpu_graph LogicalCore = [2, 3]"
    by (simp_all add: vertices_of_type_def sample_gpu_graph_def adjlist_ops_def vertex_at_def
        element_is_a_def is_a_eval upt_conv_Cons)
qed

lemma sample_apart_wf: "wf_graph adjlist_ops sample_gpu_graph"
  using sample_wf by (simp add: wf_graph_def sample_gpu_graph_simps arcs_def sample_edges)
    (simp add: sample_gpu_graph_def)

lemma sample_apart: "\<not> path (edges_of adjlist_ops sample_graph) 0 p 3"
proof
  assume "path (edges_of adjlist_ops sample_graph) 0 p 3"
  then show False by cases (auto simp: sample_edges)
qed

theorem find_distances_nearest_witness:
  "find_distances adjlist_ops sample_bfs sample_gpu_graph =
     Some [Found_accelerators 1, First_accelerator ''GPU: '', Number_of_PUs 2, Minimum_distance 0, Hops 0 3 0]"
  using find_distances_nearest [OF boost_bfs_adjlist sample_apart_wf, of 0 "[]"] sample_apart sample_reach
  by (simp add: sample_gpu_graph_simps distance_report_def)
    (simp add: element_to_string_def sample_gpu_graph_def vertex_at_def adjlist_ops_def new_vertex_def)

end
