(* ===== verification/Bdfid.thy ===== *)
theory Bdfid
  imports Prelude
begin

text \<open>
  The 64-bit \<^verbatim>\<open>bdfid\<close> (domain, bus, device, function) by which the hwloc, NVML and ROCm modules
  recognise the same PCI device: the encoding of \<^verbatim>\<open>modules/hwloc/hwloc_adapter.h\<close>, the one of
  \<^verbatim>\<open>modules/nvml/nvml_util.h\<close> (without the function number), and the decoding of
  \<^verbatim>\<open>print_bdfid\<close> in \<^verbatim>\<open>modules/rocm/rocm_util.h\<close>.
\<close>

unbundle bit_operations_syntax

section \<open>Encoding and decoding\<close>

definition bdfid_encode :: "u64 \<Rightarrow> u64 \<Rightarrow> u64 \<Rightarrow> u64 \<Rightarrow> u64" where
  "bdfid_encode domain bus dev func =
     push_bit 32 (domain AND 0xffffffff) OR push_bit 8 (bus AND 0xff) OR
     push_bit 3 (dev AND 0x1f) OR (func AND 0x7)"

text \<open>\<^verbatim>\<open>bdfid_get\<close> of the NVML module: the function number is assumed to be zero.\<close>

definition nvml_bdfid_get :: "u64 \<Rightarrow> u64 \<Rightarrow> u64 \<Rightarrow> u64" where
  "nvml_bdfid_get domain bus device =
     push_bit 32 (domain AND 0xffffffff) OR push_bit 8 (bus AND 0xff) OR
     push_bit 3 (device AND 0x1f)"

text \<open>The numbers that \<^verbatim>\<open>print_bdfid\<close> shows (as \<^verbatim>\<open>uint\<close>, 32 bits).\<close>

definition bdfid_decode :: "u64 \<Rightarrow> u32 \<times> u32 \<times> u32 \<times> u32" where
  "bdfid_decode b =
     (ucast (drop_bit 32 b AND 0xffffffff), ucast (drop_bit 8 b AND 0xff),
      ucast (drop_bit 3 b AND 0x1f), ucast (b AND 0x7))"

text \<open>The identifier of a PCI device's vertex.\<close>

definition bdfid_identifier :: "u64 \<Rightarrow> string" where
  "bdfid_identifier b = ''bdfid:'' @ decimal (unat b)"

section \<open>Lemmas\<close>

lemma mask_bits:
  "(x :: u64) AND 0xffffffff = take_bit 32 x" "(x :: u64) AND 0xff = take_bit 8 x"
  "(x :: u64) AND 0x1f = take_bit 5 x" "(x :: u64) AND 0x7 = take_bit 3 x"
  by (simp_all add: take_bit_eq_mask mask_eq_exp_minus_1)

lemma bdfid_encode_bit:
  "bit (bdfid_encode d b v f) i \<longleftrightarrow> i < 64 \<and>
     (if 32 \<le> i then bit d (i - 32)
      else if 16 \<le> i then False
      else if 8 \<le> i then bit b (i - 8)
      else if 3 \<le> i then bit v (i - 3)
      else bit f i)"
  by (auto simp: bdfid_encode_def mask_bits bit_simps)

lemma bdfid_decode_encode:
  "bdfid_decode (bdfid_encode d b v f) =
     (ucast d, ucast (take_bit 8 b), ucast (take_bit 5 v), ucast (take_bit 3 f))"
  by (auto simp: bdfid_decode_def mask_bits bit_eq_iff bit_simps bdfid_encode_bit)

lemma bdfid_identifier_inject [simp]: "bdfid_identifier a = bdfid_identifier b \<longleftrightarrow> a = b"
  by (simp add: bdfid_identifier_def word_unat_eq_iff)

section \<open>Properties\<close>

text \<open>
  C37. Decoding inverts the encoding: \<^verbatim>\<open>print_bdfid\<close> shows the domain, bus, device and function
  numbers that were encoded, each cut to the width of its field, and no field spills into
  another.
\<close>

theorem bdfid_round_trip:
  "bdfid_decode (bdfid_encode (ucast (d :: u32)) (ucast (b :: u8)) v f) =
     (d, ucast b, ucast (take_bit 5 v), ucast (take_bit 3 f))"
  by (simp add: bdfid_decode_encode) (auto simp: bit_eq_iff bit_simps dest: bit_imp_le_length)

text \<open>
  The NVML and the hwloc module name the same vertex for a PCI device exactly when the function
  number of the device is zero (as the NVML module assumes): otherwise the GPU gets a second
  vertex.
\<close>

lemma nvml_hwloc_identifier:
  "bdfid_identifier (nvml_bdfid_get d b v) = bdfid_identifier (bdfid_encode d b v f) \<longleftrightarrow>
     take_bit 3 f = 0"
proof -
  have n: "nvml_bdfid_get d b v = bdfid_encode d b v 0"
    by (simp add: nvml_bdfid_get_def bdfid_encode_def)
  have "bdfid_encode d b v 0 = bdfid_encode d b v f \<longleftrightarrow> (\<forall>i < 3. \<not> bit f i)"
    by (auto simp: bit_eq_iff bdfid_encode_bit)
  also have "\<dots> \<longleftrightarrow> take_bit 3 f = 0"
    by (auto simp: bit_eq_iff bit_simps)
  finally show ?thesis by (simp add: n)
qed

end
