(* ===== verification/Hwloc_Adapter.thy ===== *)
theory Hwloc_Adapter
  imports Bdfid Topology
begin

text \<open>
  \<^verbatim>\<open>modules/hwloc/hwloc_adapter.h\<close> and the classification \<^verbatim>\<open>hwloc_2_yloc_type\<close> of
  \<^verbatim>\<open>modules/hwloc/init_graph.cc\<close>. The hwloc library is outside the repository: its objects,
  their attributes and its functions are the fields of a record that the definitions take
  as an argument; the locale \<open>hwloc_types\<close> states what its documentation says of types.
\<close>

unbundle bit_operations_syntax

section \<open>The interface of hwloc\<close>

datatype hwloc_obj_type =
    HWLOC_OBJ_MACHINE | HWLOC_OBJ_PACKAGE | HWLOC_OBJ_CORE | HWLOC_OBJ_PU
  | HWLOC_OBJ_L1CACHE | HWLOC_OBJ_L2CACHE | HWLOC_OBJ_L3CACHE | HWLOC_OBJ_L4CACHE
  | HWLOC_OBJ_L5CACHE | HWLOC_OBJ_L1ICACHE | HWLOC_OBJ_L2ICACHE | HWLOC_OBJ_L3ICACHE
  | HWLOC_OBJ_GROUP | HWLOC_OBJ_NUMANODE | HWLOC_OBJ_BRIDGE | HWLOC_OBJ_PCI_DEVICE
  | HWLOC_OBJ_OS_DEVICE | HWLOC_OBJ_MISC | HWLOC_OBJ_MEMCACHE | HWLOC_OBJ_DIE

text \<open>Kinds of OS devices; a later version of hwloc may report one the switch does not know.\<close>

datatype hwloc_osdev_type =
    HWLOC_OBJ_OSDEV_BLOCK | HWLOC_OBJ_OSDEV_GPU | HWLOC_OBJ_OSDEV_NETWORK
  | HWLOC_OBJ_OSDEV_OPENFABRICS | HWLOC_OBJ_OSDEV_DMA | HWLOC_OBJ_OSDEV_COPROC
  | HWLOC_OBJ_OSDEV_unknown

record ('o, 'h) hwloc_api =
  obj_type :: "'o \<Rightarrow> hwloc_obj_type"
  obj_osdev_type :: "'o \<Rightarrow> hwloc_osdev_type option"      \<comment> \<open>\<^verbatim>\<open>attr->osdev.type\<close>; \<open>None\<close>: \<^verbatim>\<open>attr == NULL\<close>\<close>
  obj_cache_size :: "'o \<Rightarrow> u64"
  obj_local_memory :: "'o \<Rightarrow> u64"
  obj_pci_domain :: "'o \<Rightarrow> u32"
  obj_pci_bus :: "'o \<Rightarrow> u8"
  obj_pci_dev :: "'o \<Rightarrow> u8"
  obj_pci_func :: "'o \<Rightarrow> u8"
  obj_cpuset :: "'o \<Rightarrow> 'h option"                     \<comment> \<open>\<open>None\<close>: \<^verbatim>\<open>NULL\<close>\<close>
  type_is_cache :: "hwloc_obj_type \<Rightarrow> bool"
  type_is_icache :: "hwloc_obj_type \<Rightarrow> bool"
  type_is_dcache :: "hwloc_obj_type \<Rightarrow> bool"
  type_is_memory :: "hwloc_obj_type \<Rightarrow> bool"
  compare_types :: "hwloc_obj_type \<Rightarrow> hwloc_obj_type \<Rightarrow> int"
  obj_type_string :: "hwloc_obj_type \<Rightarrow> string"
  get_next_child :: "'o \<Rightarrow> 'o option \<Rightarrow> 'o option"
  get_root_obj :: 'o
  get_api_version :: u32                               \<comment> \<open>of the library at run time\<close>
  HWLOC_API_VERSION :: u32                             \<comment> \<open>of the header at compile time\<close>

locale hwloc_types =
  fixes A :: "('o, 'h) hwloc_api"
  assumes compare_types_zero [simp]: "compare_types A t u = 0 \<longleftrightarrow> t = u"
    and is_icache [simp]: "type_is_icache A t \<longleftrightarrow>
      t \<in> {HWLOC_OBJ_L1ICACHE, HWLOC_OBJ_L2ICACHE, HWLOC_OBJ_L3ICACHE}"
    and is_dcache [simp]: "type_is_dcache A t \<longleftrightarrow>
      t \<in> {HWLOC_OBJ_L1CACHE, HWLOC_OBJ_L2CACHE, HWLOC_OBJ_L3CACHE, HWLOC_OBJ_L4CACHE,
            HWLOC_OBJ_L5CACHE}"
    and is_cache [simp]: "type_is_cache A t \<longleftrightarrow> type_is_icache A t \<or> type_is_dcache A t"
    and is_memory [simp]: "type_is_memory A t \<longleftrightarrow> t \<in> {HWLOC_OBJ_NUMANODE, HWLOC_OBJ_MEMCACHE}"

section \<open>The adapter\<close>

definition hwloc_memory :: "('o, 'h) hwloc_api \<Rightarrow> 'o \<Rightarrow> u64 option" where
  "hwloc_memory A m_obj =
     (if type_is_cache A (obj_type A m_obj) then Some (obj_cache_size A m_obj)
      else if type_is_memory A (obj_type A m_obj) then Some (obj_local_memory A m_obj)
      else None)"

definition hwloc_bdfid :: "('o, 'h) hwloc_api \<Rightarrow> 'o \<Rightarrow> u64 option" where
  "hwloc_bdfid A m_obj =
     (if compare_types A (obj_type A m_obj) HWLOC_OBJ_PCI_DEVICE = 0
      then Some (bdfid_encode (ucast (obj_pci_domain A m_obj)) (ucast (obj_pci_bus A m_obj))
             (ucast (obj_pci_dev A m_obj)) (ucast (obj_pci_func A m_obj)))
      else None)"

text \<open>
  The cpu set of the object as a mask; the outer \<open>None\<close> is the failed assertion of the
  conversion (a processor that is not online), the inner one an object without a cpu set.
\<close>

definition hwloc_cpu_affinity_mask ::
  "'b bitset_ops \<Rightarrow> 'h hwloc_bitmap_ops \<Rightarrow> ('o, 'h) hwloc_api \<Rightarrow> nat \<Rightarrow> 'o \<Rightarrow> 'b option option" where
  "hwloc_cpu_affinity_mask B H A n m_obj =
     (case obj_cpuset A m_obj of
        None \<Rightarrow> Some None
      | Some cpuset \<Rightarrow> map_option Some (affinity_of_hwloc B H n cpuset))"

text \<open>
  The object \<^verbatim>\<open>HwlocAdapter(obj)\<close>: it overrides \<^verbatim>\<open>to_string\<close> and three properties. An adapter is what its
  functions return, so an object whose cpu set has a processor that is not online (\<open>cpuset_online\<close>
  below fails) is outside of this model: there \<^verbatim>\<open>cpu_affinity_mask\<close> does not return, and a program that
  asks for it stops. What asks for it is the search of \<^verbatim>\<open>util.cc\<close>, which the MPI module uses: every
  theorem by which such a search returns on hwloc's topology assumes \<open>machine_online\<close>, under which no
  object is outside (\<open>machine_online_masks\<close>).
\<close>

definition hwloc_adapter ::
  "'b bitset_ops \<Rightarrow> 'h hwloc_bitmap_ops \<Rightarrow> ('o, 'h) hwloc_api \<Rightarrow> nat \<Rightarrow> 'o \<Rightarrow> 'b adapter" where
  "hwloc_adapter B H A n m_obj =
     override Adapter_memory (map_option U64 (hwloc_memory A m_obj))
      (override Adapter_bdfid (map_option U64 (hwloc_bdfid A m_obj))
        (override Adapter_cpu_affinity_mask
          (case hwloc_cpu_affinity_mask B H A n m_obj of
             Some r \<Rightarrow> map_option Mask r | None \<Rightarrow> None)
          (base_adapter\<lparr>to_str := obj_type_string A (obj_type A m_obj)\<rparr>)))"

text \<open>The cpu set of an object is within the online processors; so are those of a machine.\<close>

definition cpuset_online :: "'h hwloc_bitmap_ops \<Rightarrow> ('o, 'h) hwloc_api \<Rightarrow> nat \<Rightarrow> 'o \<Rightarrow> bool" where
  "cpuset_online H A n m_obj \<longleftrightarrow>
     (case obj_cpuset A m_obj of None \<Rightarrow> True | Some cpuset \<Rightarrow> \<forall>i \<in> set (hb_foreach H cpuset). i < n)"

lemma online_mask:
  assumes "affinity_conversion B H"
  shows "hwloc_cpu_affinity_mask B H A n obj \<noteq> None \<longleftrightarrow> cpuset_online H A n obj"
proof (cases "obj_cpuset A obj")
  case (Some m)
  have "affinity_of_hwloc B H n m = None \<longleftrightarrow> \<not> (\<forall>i \<in> set (hb_foreach H m). i < n)"
    unfolding affinity_conversion.hwloc_none [OF assms]
      hwloc_bitmap.foreach_iff [OF affinity_conversion.axioms(2) [OF assms], symmetric]
    by (meson not_less)
  with Some show ?thesis by (simp add: hwloc_cpu_affinity_mask_def cpuset_online_def)
qed (simp add: hwloc_cpu_affinity_mask_def cpuset_online_def)

section \<open>The component type of an object\<close>

text \<open>\<open>None\<close> is a failed \<^verbatim>\<open>assert(false)\<close>: a type that the function does not know.\<close>

definition hwloc_2_yloc_type :: "('o, 'h) hwloc_api \<Rightarrow> 'o \<Rightarrow> ctype option" where
  "hwloc_2_yloc_type A obj =
     (let is = (\<lambda>t. compare_types A (obj_type A obj) t = 0) in
      if type_is_icache A (obj_type A obj) then
        (if is HWLOC_OBJ_L1ICACHE then Some L1InstructionCache
         else if is HWLOC_OBJ_L2ICACHE then Some L2InstructionCache
         else if is HWLOC_OBJ_L3ICACHE then Some L3InstructionCache
         else Some InstructionCache)
      else if type_is_dcache A (obj_type A obj) then
        (if is HWLOC_OBJ_L1CACHE then Some L1DataCache
         else if is HWLOC_OBJ_L2CACHE then Some L2DataCache
         else if is HWLOC_OBJ_L3CACHE then Some L3DataCache
         else if is HWLOC_OBJ_L4CACHE then Some L4DataCache
         else Some DataCache)
      else if type_is_memory A (obj_type A obj) then Some Memory
      else if is HWLOC_OBJ_OS_DEVICE \<and> obj_osdev_type A obj \<noteq> None then
        (case the (obj_osdev_type A obj) of
           HWLOC_OBJ_OSDEV_GPU \<Rightarrow> Some LogicalGPU
         | HWLOC_OBJ_OSDEV_COPROC \<Rightarrow> Some LogicalAccelerator
         | HWLOC_OBJ_OSDEV_DMA \<Rightarrow> Some Misc
         | HWLOC_OBJ_OSDEV_NETWORK \<Rightarrow> Some Misc
         | HWLOC_OBJ_OSDEV_OPENFABRICS \<Rightarrow> Some Misc
         | HWLOC_OBJ_OSDEV_BLOCK \<Rightarrow> Some Misc
         | HWLOC_OBJ_OSDEV_unknown \<Rightarrow> None)
      else if is HWLOC_OBJ_CORE then Some PhysicalCore
      else if is HWLOC_OBJ_PU then Some LogicalCore
      else if is HWLOC_OBJ_MACHINE then Some Node
      else if is HWLOC_OBJ_PACKAGE then Some Misc
      else if is HWLOC_OBJ_NUMANODE then Some Memory
      else if is HWLOC_OBJ_GROUP then Some Misc
      else if is HWLOC_OBJ_MISC then Some Misc
      else if is HWLOC_OBJ_MEMCACHE then Some Misc
      else if is HWLOC_OBJ_BRIDGE then Some Bridge
      else if is HWLOC_OBJ_PCI_DEVICE then Some PCIDevice
      else if is HWLOC_OBJ_DIE then Some Misc
      else None)"

text \<open>The table that the chain of tests implements.\<close>

fun yloc_type_table :: "hwloc_obj_type \<Rightarrow> hwloc_osdev_type option \<Rightarrow> ctype option" where
  "yloc_type_table HWLOC_OBJ_MACHINE _ = Some Node"
| "yloc_type_table HWLOC_OBJ_CORE _ = Some PhysicalCore"
| "yloc_type_table HWLOC_OBJ_PU _ = Some LogicalCore"
| "yloc_type_table HWLOC_OBJ_L1CACHE _ = Some L1DataCache"
| "yloc_type_table HWLOC_OBJ_L2CACHE _ = Some L2DataCache"
| "yloc_type_table HWLOC_OBJ_L3CACHE _ = Some L3DataCache"
| "yloc_type_table HWLOC_OBJ_L4CACHE _ = Some L4DataCache"
| "yloc_type_table HWLOC_OBJ_L5CACHE _ = Some DataCache"
| "yloc_type_table HWLOC_OBJ_L1ICACHE _ = Some L1InstructionCache"
| "yloc_type_table HWLOC_OBJ_L2ICACHE _ = Some L2InstructionCache"
| "yloc_type_table HWLOC_OBJ_L3ICACHE _ = Some L3InstructionCache"
| "yloc_type_table HWLOC_OBJ_NUMANODE _ = Some Memory"
| "yloc_type_table HWLOC_OBJ_MEMCACHE _ = Some Memory"
| "yloc_type_table HWLOC_OBJ_BRIDGE _ = Some Bridge"
| "yloc_type_table HWLOC_OBJ_PCI_DEVICE _ = Some PCIDevice"
| "yloc_type_table HWLOC_OBJ_OS_DEVICE (Some HWLOC_OBJ_OSDEV_GPU) = Some LogicalGPU"
| "yloc_type_table HWLOC_OBJ_OS_DEVICE (Some HWLOC_OBJ_OSDEV_COPROC) = Some LogicalAccelerator"
| "yloc_type_table HWLOC_OBJ_OS_DEVICE (Some HWLOC_OBJ_OSDEV_unknown) = None"
| "yloc_type_table HWLOC_OBJ_OS_DEVICE (Some _) = Some Misc"
| "yloc_type_table HWLOC_OBJ_OS_DEVICE None = None"
| "yloc_type_table _ _ = Some Misc"

definition knows_type :: "('o, 'h) hwloc_api \<Rightarrow> 'o \<Rightarrow> bool" where
  "knows_type A obj \<longleftrightarrow> (obj_type A obj = HWLOC_OBJ_OS_DEVICE \<longrightarrow>
     (\<exists>t. obj_osdev_type A obj = Some t \<and> t \<noteq> HWLOC_OBJ_OSDEV_unknown))"

context hwloc_types
begin

lemma type_table: "hwloc_2_yloc_type A obj = yloc_type_table (obj_type A obj) (obj_osdev_type A obj)"
  by (cases "obj_type A obj"; cases "obj_osdev_type A obj")
    (simp_all add: hwloc_2_yloc_type_def split: hwloc_osdev_type.split)

lemma type_known: "(\<exists>t. hwloc_2_yloc_type A obj = Some t) \<longleftrightarrow> knows_type A obj"
  unfolding type_table knows_type_def
  by (cases "obj_type A obj"; cases "obj_osdev_type A obj"; cases "the (obj_osdev_type A obj)") auto

lemma pci_type: "hwloc_2_yloc_type A obj = Some t \<Longrightarrow>
    is_a t PCIDevice \<longleftrightarrow> obj_type A obj = HWLOC_OBJ_PCI_DEVICE"
  unfolding type_table
  by (cases "obj_type A obj"; cases "obj_osdev_type A obj"; cases "the (obj_osdev_type A obj)")
    (auto simp: is_a_eval)

lemma type_not_unknown: "hwloc_2_yloc_type A obj = Some t \<Longrightarrow> t \<noteq> UnknownComponentType"
  unfolding type_table
  by (cases "obj_type A obj"; cases "obj_osdev_type A obj"; cases "the (obj_osdev_type A obj)") auto

lemma type_not_process: "hwloc_2_yloc_type A obj = Some t \<Longrightarrow> t \<noteq> MPIProcess"
  unfolding type_table
  by (cases "obj_type A obj"; cases "obj_osdev_type A obj"; cases "the (obj_osdev_type A obj)") auto

lemma bdfid_pci: "(\<exists>b. hwloc_bdfid A obj = Some b) \<longleftrightarrow> obj_type A obj = HWLOC_OBJ_PCI_DEVICE"
  by (simp add: hwloc_bdfid_def)

end

lemma hwloc_adapter_typed [simp, intro]: "adapter_typed (hwloc_adapter B H A n obj)"
proof -
  have "adapter_typed (base_adapter\<lparr>to_str := s\<rparr>)" for s
    by (auto simp: adapter_typed_def dest: adapter_map_typed)
  then show ?thesis
    unfolding hwloc_adapter_def by (intro override_typed) (auto split: option.splits)
qed

lemma to_str_hwloc_adapter [simp]:
  "to_str (hwloc_adapter B H A n obj) = obj_type_string A (obj_type A obj)"
  by (simp add: hwloc_adapter_def)

section \<open>An instance of the hwloc interface\<close>

text \<open>The documented type predicates, put into any record of object functions.\<close>

definition documented_types :: "('o, 'h) hwloc_api \<Rightarrow> ('o, 'h) hwloc_api" where
  "documented_types A =
     A\<lparr>type_is_icache := (\<lambda>t. t \<in> {HWLOC_OBJ_L1ICACHE, HWLOC_OBJ_L2ICACHE, HWLOC_OBJ_L3ICACHE}),
       type_is_dcache := (\<lambda>t. t \<in> {HWLOC_OBJ_L1CACHE, HWLOC_OBJ_L2CACHE, HWLOC_OBJ_L3CACHE,
         HWLOC_OBJ_L4CACHE, HWLOC_OBJ_L5CACHE}),
       type_is_cache := (\<lambda>t. t \<in> {HWLOC_OBJ_L1ICACHE, HWLOC_OBJ_L2ICACHE, HWLOC_OBJ_L3ICACHE,
         HWLOC_OBJ_L1CACHE, HWLOC_OBJ_L2CACHE, HWLOC_OBJ_L3CACHE, HWLOC_OBJ_L4CACHE,
         HWLOC_OBJ_L5CACHE}),
       type_is_memory := (\<lambda>t. t \<in> {HWLOC_OBJ_NUMANODE, HWLOC_OBJ_MEMCACHE}),
       compare_types := (\<lambda>t u. if t = u then 0 else 1)\<rparr>"

interpretation doc_types: hwloc_types "documented_types A" for A :: "('o, 'h) hwloc_api"
  by unfold_locales (auto simp: documented_types_def)

lemma hwloc_types_documented: "hwloc_types (documented_types A)"
  by (rule doc_types.hwloc_types_axioms)

text \<open>A machine with two processors: two cores, one with its PU, and a PCI device.\<close>

fun next_of :: "'o list \<Rightarrow> 'o option \<Rightarrow> 'o option" where
  "next_of [] _ = None"
| "next_of (x # xs) None = Some x"
| "next_of (x # xs) (Some y) = (if x = y then next_of xs None else next_of xs (Some y))"

definition sample_api :: "(nat, nat list) hwloc_api" where
  "sample_api = documented_types
    \<lparr>obj_type = (\<lambda>i. [HWLOC_OBJ_MACHINE, HWLOC_OBJ_CORE, HWLOC_OBJ_CORE, HWLOC_OBJ_PCI_DEVICE,
        HWLOC_OBJ_PU] ! i),
     obj_osdev_type = (\<lambda>_. None), obj_cache_size = (\<lambda>_. 0), obj_local_memory = (\<lambda>_. 0),
     obj_pci_domain = (\<lambda>_. 0), obj_pci_bus = (\<lambda>_. 3), obj_pci_dev = (\<lambda>_. 0),
     obj_pci_func = (\<lambda>_. 0),
     obj_cpuset = (\<lambda>i. [Some [0, 1], Some [0], Some [1], None, Some [0]] ! i),
     type_is_cache = (\<lambda>_. False), type_is_icache = (\<lambda>_. False), type_is_dcache = (\<lambda>_. False),
     type_is_memory = (\<lambda>_. False), compare_types = (\<lambda>_ _. 0),
     obj_type_string = (\<lambda>t. case t of HWLOC_OBJ_MACHINE \<Rightarrow> ''Machine'' | HWLOC_OBJ_CORE \<Rightarrow> ''Core''
        | HWLOC_OBJ_PU \<Rightarrow> ''PU'' | _ \<Rightarrow> ''PCIDev''),
     get_next_child = (\<lambda>i. next_of ([[1, 2, 3], [4], [], [], []] ! i)),
     get_root_obj = 0, get_api_version = 0x20900, HWLOC_API_VERSION = 0x20100\<rparr>"

lemma hwloc_types_sample: "hwloc_types sample_api"
  unfolding sample_api_def by (rule hwloc_types_documented)

lemma sample_api_simps [simp]:
  "obj_type sample_api i = [HWLOC_OBJ_MACHINE, HWLOC_OBJ_CORE, HWLOC_OBJ_CORE,
     HWLOC_OBJ_PCI_DEVICE, HWLOC_OBJ_PU] ! i"
  "obj_osdev_type sample_api i = None"
  "get_next_child sample_api i = next_of ([[1, 2, 3], [4], [], [], []] ! i)"
  "get_root_obj sample_api = 0"
  "get_api_version sample_api = 0x20900" "HWLOC_API_VERSION sample_api = 0x20100"
  "obj_pci_domain sample_api i = 0" "obj_pci_bus sample_api i = 3"
  "obj_pci_dev sample_api i = 0" "obj_pci_func sample_api i = 0"
  "obj_cpuset sample_api i = [Some [0, 1], Some [0], Some [1], None, Some [0]] ! i"
  by (simp_all add: sample_api_def documented_types_def)

section \<open>Properties\<close>

text \<open>
  The classification is total but for one case: every hwloc object gets the type of the table
  \<open>yloc_type_table\<close>, and the sanity assertion fails exactly for OS devices without attributes
  or of a kind the code does not know. (The later tests for NUMA nodes and memory-side caches
  are never reached: both are \<open>Memory\<close>.)
\<close>

lemma hwloc_2_yloc_type_table:
  assumes "hwloc_types A"
  shows "hwloc_2_yloc_type A obj = yloc_type_table (obj_type A obj) (obj_osdev_type A obj) \<and>
    (hwloc_2_yloc_type A obj = None \<longleftrightarrow> obj_type A obj = HWLOC_OBJ_OS_DEVICE \<and>
      (obj_osdev_type A obj = None \<or> obj_osdev_type A obj = Some HWLOC_OBJ_OSDEV_unknown))"
  using hwloc_types.type_table [OF assms, of obj] hwloc_types.type_known [OF assms, of obj]
  by (auto simp: knows_type_def)

text \<open>
  \<^verbatim>\<open>bdfid().value()\<close> never throws in the graph construction: exactly the objects classified as
  PCI devices have a bdfid.
\<close>

lemma hwloc_bdfid_safe:
  assumes "hwloc_types A" and "hwloc_2_yloc_type A obj = Some t"
  shows "is_a t PCIDevice \<longleftrightarrow> hwloc_bdfid A obj \<noteq> None"
  using hwloc_types.pci_type [OF assms] hwloc_types.bdfid_pci [OF assms(1), of obj] by auto

end
