(* ===== verification/Yloc_Module.thy ===== *)
theory Yloc_Module
  imports Topology
begin

text \<open>
  Modules and initialisation: \<^verbatim>\<open>src/src/include/yloc/status.h\<close>,
  \<^verbatim>\<open>src/src/include/yloc/modules/module.h\<close> and \<^verbatim>\<open>src/src/init.cc\<close>. The list of modules is
  made by the build (\<^verbatim>\<open>modules.cc.in\<close>), so it is an argument of \<^verbatim>\<open>init\<close>; \<^verbatim>\<open>std::sort\<close> is the
  sorter of the prelude. A module's \<^verbatim>\<open>init_graph\<close> may stop the program (a failed assertion, a
  recursion without end): then it returns \<open>None\<close>.
\<close>

section \<open>Status codes\<close>

datatype yloc_status_t =
    YLOC_STATUS_SUCCESS | YLOC_STATUS_INVALID_ARGS | YLOC_STATUS_NOT_SUPPORTED
  | YLOC_STATUS_OUT_OF_RESOURCES | YLOC_STATUS_INTERNAL_EXCEPTION
  | YLOC_STATUS_INPUT_OUT_OF_BOUNDS | YLOC_STATUS_INIT_ERROR | YLOC_STATUS_NOT_YET_IMPLEMENTED
  | YLOC_STATUS_NOT_FOUND | YLOC_STATUS_INSUFFICIENT_SIZE | YLOC_STATUS_UNEXPECTED_SIZE
  | YLOC_STATUS_NO_DATA | YLOC_STATUS_UNKNOWN_ERROR

section \<open>Modules\<close>

datatype init_order = FIRST | SECOND

primrec init_order_value :: "init_order \<Rightarrow> int" where
  "init_order_value FIRST = 0"
| "init_order_value SECOND = 1"

text \<open>Scoped enumerations are compared by their underlying value.\<close>

instantiation init_order :: linorder
begin

definition less_eq_init_order :: "init_order \<Rightarrow> init_order \<Rightarrow> bool" where
  "less_eq_init_order a b \<longleftrightarrow> init_order_value a \<le> init_order_value b"

definition less_init_order :: "init_order \<Rightarrow> init_order \<Rightarrow> bool" where
  "less_init_order a b \<longleftrightarrow> init_order_value a < init_order_value b"

instance
proof
  fix x y z :: init_order
  show "(x < y) = (x \<le> y \<and> \<not> y \<le> x)"
    by (auto simp: less_eq_init_order_def less_init_order_def)
  show "x \<le> x" by (simp add: less_eq_init_order_def)
  show "x \<le> y \<Longrightarrow> y \<le> z \<Longrightarrow> x \<le> z" by (simp add: less_eq_init_order_def)
  show "x \<le> y \<Longrightarrow> y \<le> x \<Longrightarrow> x = y"
    by (cases x; cases y) (simp_all add: less_eq_init_order_def)
  show "x \<le> y \<or> y \<le> x" by (auto simp: less_eq_init_order_def)
qed

end

record ('g, 'b) module =
  m_init_order :: init_order
  m_enabled :: bool
  m_init_graph :: "('g, 'b) world \<Rightarrow> (yloc_status_t \<times> ('g, 'b) world) option"

text \<open>The default member initialisers of \<^verbatim>\<open>Module\<close>.\<close>

definition default_module ::
  "(('g, 'b) world \<Rightarrow> (yloc_status_t \<times> ('g, 'b) world) option) \<Rightarrow> ('g, 'b) module" where
  "default_module f = \<lparr>m_init_order = FIRST, m_enabled = True, m_init_graph = f\<rparr>"

section \<open>init and finalize\<close>

fun run_modules :: "('g, 'b) module list \<Rightarrow> ('g, 'b) world \<Rightarrow> ('g, 'b) world option" where
  "run_modules [] w = Some w"
| "run_modules (m # ms) w =
     (if m_enabled m then
        (case m_init_graph m w of
           None \<Rightarrow> None
         | Some (status, w') \<Rightarrow> run_modules ms w')
      else run_modules ms w)"

type_synonym ('g, 'b) module_sorter =
  "(('g, 'b) module \<Rightarrow> ('g, 'b) module \<Rightarrow> bool) \<Rightarrow> ('g, 'b) module list \<Rightarrow> ('g, 'b) module list"

definition init :: "('g, 'b) module_sorter \<Rightarrow> ('g, 'b) module list \<Rightarrow> ('g, 'b) world \<Rightarrow>
    (yloc_status_t \<times> ('g, 'b) world) option" where
  "init srt modules w =
     (case run_modules (srt (\<lambda>a b. m_init_order a < m_init_order b) modules) w of
        None \<Rightarrow> None
      | Some w' \<Rightarrow> Some (YLOC_STATUS_SUCCESS, w'))"

definition finalize :: "('g, 'b) world \<Rightarrow> yloc_status_t \<times> ('g, 'b) world" where
  "finalize w = (YLOC_STATUS_SUCCESS, w)"

section \<open>Lemmas\<close>

lemma run_modules_append:
  "run_modules (ms @ ns) w =
     (case run_modules ms w of None \<Rightarrow> None | Some w' \<Rightarrow> run_modules ns w')"
  by (induction ms arbitrary: w) (auto split: option.splits)

lemma run_modules_enabled: "run_modules (filter m_enabled ms) w = run_modules ms w"
  by (induction ms arbitrary: w) (auto split: option.splits)

lemma sorted_two_phases:
  "sorted_wrt (\<lambda>x y. \<not> m_init_order y < m_init_order x) ms \<Longrightarrow>
     ms = filter (\<lambda>m. m_init_order m = FIRST) ms @ filter (\<lambda>m. m_init_order m = SECOND) ms"
proof (induction ms)
  case Nil
  then show ?case by simp
next
  case (Cons m ms)
  show ?case
  proof (cases "m_init_order m")
    case FIRST
    with Cons show ?thesis by simp
  next
    case SECOND
    have "m_init_order x = SECOND" if "x \<in> set ms" for x
      using Cons.prems that SECOND by (cases "m_init_order x") (auto simp: less_init_order_def)
    then have "filter (\<lambda>m. m_init_order m = FIRST) ms = []"
      and "filter (\<lambda>m. m_init_order m = SECOND) ms = ms"
      by (auto simp: filter_empty_conv filter_id_conv)
    with SECOND show ?thesis by simp
  qed
qed

text \<open>The contract of a module: its \<^verbatim>\<open>init_graph\<close> keeps the invariants of the topology.\<close>

locale module_contract =
  fixes G :: "'g bgl" and f :: "('g, 'b) world \<Rightarrow> (yloc_status_t \<times> ('g, 'b) world) option"
  assumes keeps_wf: "wf_world G w \<Longrightarrow> f w = Some (s, w') \<Longrightarrow> wf_world G w'"
    and keeps_paired: "wf_world G w \<Longrightarrow> paired G w \<Longrightarrow> f w = Some (s, w') \<Longrightarrow> paired G w'"

locale module_suite = std_sort srt
  for srt :: "('g, 'b) module_sorter" +
  fixes G :: "'g bgl" and modules :: "('g, 'b) module list"
  assumes contracts: "m \<in> set modules \<Longrightarrow> m_enabled m \<Longrightarrow> module_contract G (m_init_graph m)"
begin

lemma run_keeps:
  assumes "set ms \<subseteq> set modules" and "wf_world G w" and "run_modules ms w = Some w'"
  shows "wf_world G w' \<and> (paired G w \<longrightarrow> paired G w')"
  using assms
proof (induction ms arbitrary: w)
  case Nil
  then show ?case by simp
next
  case (Cons m ms)
  show ?case
  proof (cases "m_enabled m")
    case True
    with Cons.prems obtain s w1 where step: "m_init_graph m w = Some (s, w1)"
      and rest: "run_modules ms w1 = Some w'"
      by (auto split: option.splits)
    have c: "module_contract G (m_init_graph m)"
      using contracts Cons.prems(1) True by auto
    show ?thesis
      using Cons.IH [OF _ module_contract.keeps_wf [OF c Cons.prems(2) step] rest] Cons.prems(1)
        module_contract.keeps_paired [OF c Cons.prems(2) _ step] by auto
  next
    case False
    with Cons show ?thesis by auto
  qed
qed

lemma init_keeps:
  "wf_world G w \<Longrightarrow> init srt modules w = Some (s, w') \<Longrightarrow>
     wf_world G w' \<and> (paired G w \<longrightarrow> paired G w')"
  using run_keeps [of "srt (\<lambda>a b. m_init_order a < m_init_order b) modules"]
  by (auto simp: init_def set_sort split: option.splits)

end

lemma init_phases:
  assumes "std_sort srt"
  shows "\<exists>firsts seconds.
    mset firsts = filter_mset (\<lambda>m. m_enabled m \<and> m_init_order m = FIRST) (mset modules) \<and>
    mset seconds = filter_mset (\<lambda>m. m_enabled m \<and> m_init_order m = SECOND) (mset modules) \<and>
    init srt modules w = (case run_modules (firsts @ seconds) w of
        None \<Rightarrow> None | Some w' \<Rightarrow> Some (YLOC_STATUS_SUCCESS, w'))"
proof -
  let ?ms = "srt (\<lambda>a b. m_init_order a < m_init_order b) modules"
  let ?phase = "\<lambda>ph. filter m_enabled (filter (\<lambda>m. m_init_order m = ph) ?ms)"
  have m: "mset ?ms = mset modules" by (rule std_sort.sort_perm [OF assms])
  have "?ms = filter (\<lambda>m. m_init_order m = FIRST) ?ms @ filter (\<lambda>m. m_init_order m = SECOND) ?ms"
    by (rule sorted_two_phases [OF std_sort.sort_sorted [OF assms strict_weak_key]])
  then have "run_modules ?ms w =
      run_modules (filter (\<lambda>m. m_init_order m = FIRST) ?ms @ filter (\<lambda>m. m_init_order m = SECOND) ?ms) w"
    by (rule arg_cong)
  also have "\<dots> = run_modules (?phase FIRST @ ?phase SECOND) w"
    by (simp only: run_modules_append run_modules_enabled)
  finally have run: "run_modules ?ms w = run_modules (?phase FIRST @ ?phase SECOND) w" .
  have phase: "mset (?phase ph) =
      filter_mset (\<lambda>m. m_enabled m \<and> m_init_order m = ph) (mset modules)" for ph
    by (simp add: m filter_filter_mset conj_commute)
  show ?thesis
    by (intro exI [of _ "?phase FIRST"] exI [of _ "?phase SECOND"] conjI phase)
      (simp only: init_def run)
qed

section \<open>Properties\<close>

text \<open>
  C32. Initialisation runs every enabled module exactly once and no disabled one, and all modules
  of order FIRST before any of order SECOND, however \<^verbatim>\<open>std::sort\<close> orders modules of the same
  order (which is unspecified).
\<close>

theorem init_two_phases:
  assumes "std_sort srt"
  shows "\<exists>firsts seconds.
    mset firsts = filter_mset (\<lambda>m. m_enabled m \<and> m_init_order m = FIRST) (mset modules) \<and>
    mset seconds = filter_mset (\<lambda>m. m_enabled m \<and> m_init_order m = SECOND) (mset modules) \<and>
    init srt modules w = (case run_modules (firsts @ seconds) w of
        None \<Rightarrow> None | Some w' \<Rightarrow> Some (YLOC_STATUS_SUCCESS, w'))"
  by (rule init_phases [OF assms])

definition sample_modules :: "(adjlist, bool list) module list" where
  "sample_modules =
    [(default_module (\<lambda>w. Some (YLOC_STATUS_SUCCESS, w)))\<lparr>m_init_order := SECOND\<rparr>,
     default_module (\<lambda>w. Some (YLOC_STATUS_SUCCESS, snd (vertex_unnamed adjlist_ops w)))]"

theorem init_two_phases_witness:
  "\<exists>firsts seconds.
    mset firsts = filter_mset (\<lambda>m. m_enabled m \<and> m_init_order m = FIRST) (mset sample_modules) \<and>
    mset seconds = filter_mset (\<lambda>m. m_enabled m \<and> m_init_order m = SECOND) (mset sample_modules) \<and>
    init insertion_sort sample_modules (root_graph adjlist_ops) =
      (case run_modules (firsts @ seconds) (root_graph adjlist_ops) of
        None \<Rightarrow> None | Some w' \<Rightarrow> Some (YLOC_STATUS_SUCCESS, w'))"
  by (rule init_two_phases [OF std_sort_insertion_sort])

text \<open>
  C39. Failures are not reported: when every enabled module fails (returning an error and leaving
  the graph as it was), \<^verbatim>\<open>init\<close> still returns \<^verbatim>\<open>YLOC_STATUS_SUCCESS\<close>, so the test of its
  result in \<^verbatim>\<open>example-mpi.cc\<close> can never fail.
\<close>

theorem init_hides_failures:
  assumes "std_sort srt"
    and "\<forall>m \<in> set modules. m_enabled m \<longrightarrow> m_init_graph m w = Some (YLOC_STATUS_INIT_ERROR, w)"
  shows "init srt modules w = Some (YLOC_STATUS_SUCCESS, w)"
proof -
  have "run_modules ms w = Some w" if "set ms \<subseteq> set modules" for ms
    using that assms(2) by (induction ms) auto
  then have "run_modules (srt (\<lambda>a b. m_init_order a < m_init_order b) modules) w = Some w"
    by (simp add: std_sort.set_sort [OF assms(1)])
  then show ?thesis by (simp add: init_def)
qed

theorem init_hides_failures_witness:
  "init insertion_sort [default_module (\<lambda>w. Some (YLOC_STATUS_INIT_ERROR, w))]
     (root_graph adjlist_ops :: (adjlist, bool list) world) =
   Some (YLOC_STATUS_SUCCESS, root_graph adjlist_ops)"
  by (rule init_hides_failures [OF std_sort_insertion_sort]) (simp add: default_module_def)

end
