(* ===== verification/Hwloc_Module.thy ===== *)
theory Hwloc_Module
  imports Hwloc_Adapter Yloc_Module Topology_Util
begin

text \<open>
  The graph construction of \<^verbatim>\<open>modules/hwloc/init_graph.cc\<close>: \<^verbatim>\<open>make_hwloc_graph\<close>, the check of the
  library version and \<^verbatim>\<open>ModuleHwloc::init_graph\<close>. The recursion follows the pointers that
  \<^verbatim>\<open>hwloc_get_next_child\<close> returns, so it is a partial function; on the finite tree that hwloc
  documents it is shown to be the recursion over that tree.
\<close>

section \<open>make_hwloc_graph\<close>

text \<open>
  The body of the loop before the recursive call: the vertex of one child. \<open>None\<close> is a failed
  assertion in the classification (or a \<^verbatim>\<open>bad_optional_access\<close>).
\<close>

definition child_vertex :: "'g bgl \<Rightarrow> ('o, 'h) hwloc_api \<Rightarrow> 'o \<Rightarrow> ctype \<Rightarrow> ('g, 'b) world \<Rightarrow>
    (vertex_t \<times> ('g, 'b) world) option" where
  "child_vertex G A child t w =
     (if is_a t PCIDevice then
        (case hwloc_bdfid A child of
           Some b \<Rightarrow> Some (vertex_named G (bdfid_identifier b) w)
         | None \<Rightarrow> None)
      else Some (vertex_unnamed G w))"

definition fill_child :: "'g bgl \<Rightarrow> 'b adapter \<Rightarrow> ptr \<Rightarrow> ctype \<Rightarrow> vertex_t \<Rightarrow> vertex_t \<Rightarrow>
    ('g, 'b) world \<Rightarrow> ('g, 'b) world" where
  "fill_child G adapter p t vd child_vd w =
     (let w1 = (if m_description (vat G w child_vd) = []
                then set_description G child_vd (to_str adapter) w else w);
          w2 = attach G child_vd p w1;
          w3 = (if m_type (vat G w2 child_vd) = UnknownComponentType
                then set_type G child_vd t w2 else w2)
      in add_child G vd child_vd w3)"

definition add_hwloc_child ::
  "'b bitset_ops \<Rightarrow> 'h hwloc_bitmap_ops \<Rightarrow> 'g bgl \<Rightarrow> ('o, 'h) hwloc_api \<Rightarrow> nat \<Rightarrow>
     vertex_t \<Rightarrow> 'o \<Rightarrow> ('g, 'b) world \<Rightarrow> (vertex_t \<times> ('g, 'b) world) option" where
  "add_hwloc_child B H G A n vd child w =
     (let adapter = hwloc_adapter B H A n child;
          (p, w1) = make_shared adapter w
      in case hwloc_2_yloc_type A child of
           None \<Rightarrow> None
         | Some t \<Rightarrow>
             (case child_vertex G A child t w1 of
                None \<Rightarrow> None
              | Some (child_vd, w2) \<Rightarrow> Some (child_vd, fill_child G adapter p t vd child_vd w2)))"

text \<open>
  The loop over the children of \<open>obj\<close> after \<open>prev\<close>; each child is followed by the recursive call
  for its own children. \<open>None\<close> also is a recursion that does not end.
\<close>

partial_function (option) hwloc_children ::
  "'b bitset_ops \<Rightarrow> 'h hwloc_bitmap_ops \<Rightarrow> 'g bgl \<Rightarrow> ('o, 'h) hwloc_api \<Rightarrow> nat \<Rightarrow>
     vertex_t \<Rightarrow> 'o \<Rightarrow> 'o option \<Rightarrow> ('g, 'b) world \<Rightarrow> ('g, 'b) world option" where
  "hwloc_children B H G A n vd obj prev w =
     (case get_next_child A obj prev of
        None \<Rightarrow> Some w
      | Some child \<Rightarrow>
          Option.bind (add_hwloc_child B H G A n vd child w) (\<lambda>r.
            Option.bind (hwloc_children B H G A n (fst r) child None (snd r)) (\<lambda>w2.
              hwloc_children B H G A n vd obj (Some child) w2)))"

definition make_hwloc_graph ::
  "'b bitset_ops \<Rightarrow> 'h hwloc_bitmap_ops \<Rightarrow> 'g bgl \<Rightarrow> ('o, 'h) hwloc_api \<Rightarrow> nat \<Rightarrow>
     vertex_t \<Rightarrow> 'o \<Rightarrow> ('g, 'b) world \<Rightarrow> ('g, 'b) world option" where
  "make_hwloc_graph B H G A n vd obj w = hwloc_children B H G A n vd obj None w"

section \<open>The reference: recursion over the tree of objects\<close>

datatype 'o htree = HNode (hobj: 'o) (hchildren: "'o htree list")

text \<open>\<^verbatim>\<open>hwloc_get_next_child\<close> enumerates exactly \<open>xs\<close> after \<open>prev\<close>, then returns \<^verbatim>\<open>NULL\<close>.\<close>

fun enumerates :: "('o, 'h) hwloc_api \<Rightarrow> 'o \<Rightarrow> 'o option \<Rightarrow> 'o list \<Rightarrow> bool" where
  "enumerates A obj prev [] \<longleftrightarrow> get_next_child A obj prev = None"
| "enumerates A obj prev (x # xs) \<longleftrightarrow>
     get_next_child A obj prev = Some x \<and> enumerates A obj (Some x) xs"

fun represents :: "('o, 'h) hwloc_api \<Rightarrow> 'o htree \<Rightarrow> bool" where
  "represents A (HNode obj ts) \<longleftrightarrow>
     enumerates A obj None (map hobj ts) \<and> (\<forall>t \<in> set ts. represents A t)"

fun build_forest ::
  "'b bitset_ops \<Rightarrow> 'h hwloc_bitmap_ops \<Rightarrow> 'g bgl \<Rightarrow> ('o, 'h) hwloc_api \<Rightarrow> nat \<Rightarrow>
     vertex_t \<Rightarrow> 'o htree list \<Rightarrow> ('g, 'b) world \<Rightarrow> ('g, 'b) world option" where
  "build_forest B H G A n vd [] w = Some w"
| "build_forest B H G A n vd (HNode child cs # ts) w =
     Option.bind (add_hwloc_child B H G A n vd child w) (\<lambda>r.
       Option.bind (build_forest B H G A n (fst r) cs (snd r)) (\<lambda>w2.
         build_forest B H G A n vd ts w2))"

lemma hwloc_children_forest:
  "enumerates A obj prev (map hobj ts) \<Longrightarrow> \<forall>t \<in> set ts. represents A t \<Longrightarrow>
     hwloc_children B H G A n vd obj prev w = build_forest B H G A n vd ts w"
proof (induction B H G A n vd ts w arbitrary: obj prev rule: build_forest.induct)
  case (1 B H G A n vd w)
  then show ?case by (simp add: hwloc_children.simps [of B H G A n vd obj prev])
next
  case (2 B H G A n vd child cs ts w)
  from "2.prems" have next_child: "get_next_child A obj prev = Some child"
    and rest: "enumerates A obj (Some child) (map hobj ts)"
    and below: "enumerates A child None (map hobj cs)" "\<forall>t \<in> set cs. represents A t"
    and later: "\<forall>t \<in> set ts. represents A t"
    by auto
  show ?case
  proof (cases "add_hwloc_child B H G A n vd child w")
    case None
    then show ?thesis by (simp add: hwloc_children.simps [of B H G A n vd obj prev] next_child)
  next
    case (Some r)
    have "hwloc_children B H G A n (fst r) child None (snd r) = build_forest B H G A n (fst r) cs (snd r)"
      using "2.IH"(1) [of r] Some below by simp
    moreover have "hwloc_children B H G A n vd obj (Some child) w2 = build_forest B H G A n vd ts w2"
      if "build_forest B H G A n (fst r) cs (snd r) = Some w2" for w2
      using "2.IH"(2) [of r w2] Some that rest later by simp
    ultimately show ?thesis
      by (cases "build_forest B H G A n (fst r) cs (snd r)")
        (simp_all add: hwloc_children.simps [of B H G A n vd obj prev] next_child Some)
  qed
qed

section \<open>ModuleHwloc\<close>

text \<open>\<^verbatim>\<open>check_hwloc_api_version\<close> compares the major parts of the versions.\<close>

definition check_hwloc_api_version :: "('o, 'h) hwloc_api \<Rightarrow> yloc_status_t" where
  "check_hwloc_api_version A =
     (if drop_bit 16 (get_api_version A) \<noteq> drop_bit 16 (HWLOC_API_VERSION A)
      then YLOC_STATUS_INIT_ERROR else YLOC_STATUS_SUCCESS)"

text \<open>
  \<^verbatim>\<open>ModuleHwloc::init_graph\<close>. The topology (its objects in \<open>A\<close>) is the one that
  \<^verbatim>\<open>hwloc_topology_load\<close> detected; \<open>hostname\<close> is what \<^verbatim>\<open>gethostname\<close> wrote.
\<close>

definition root_vertex_hwloc ::
  "'b bitset_ops \<Rightarrow> 'h hwloc_bitmap_ops \<Rightarrow> 'g bgl \<Rightarrow> ('o, 'h) hwloc_api \<Rightarrow> nat \<Rightarrow> string \<Rightarrow>
     ('g, 'b) world \<Rightarrow> vertex_t \<times> ('g, 'b) world" where
  "root_vertex_hwloc B H G A n hostname w =
     (let (root_vd, w1) = vertex_named G (''machine:'' @ hostname) w;
          w2 = set_root root_vd (set_description G root_vd hostname w1);
          (p, w3) = make_shared (hwloc_adapter B H A n (get_root_obj A)) w2
      in (root_vd, attach G root_vd p w3))"

definition ModuleHwloc_init_graph ::
  "'b bitset_ops \<Rightarrow> 'h hwloc_bitmap_ops \<Rightarrow> 'g bgl \<Rightarrow> ('o, 'h) hwloc_api \<Rightarrow> nat \<Rightarrow> string \<Rightarrow>
     ('g, 'b) world \<Rightarrow> (yloc_status_t \<times> ('g, 'b) world) option" where
  "ModuleHwloc_init_graph B H G A n hostname w =
     (if check_hwloc_api_version A \<noteq> YLOC_STATUS_SUCCESS
      then Some (check_hwloc_api_version A, w)
      else if obj_type A (get_root_obj A) \<noteq> HWLOC_OBJ_MACHINE then None
      else
        let (root_vd, w1) = root_vertex_hwloc B H G A n hostname w in
        Option.bind
          (if m_type (vat G w1 root_vd) = UnknownComponentType
           then map_option (\<lambda>t. set_type G root_vd t w1) (hwloc_2_yloc_type A (get_root_obj A))
           else Some w1)
          (\<lambda>w2. map_option (\<lambda>w3. (YLOC_STATUS_SUCCESS, w3))
            (make_hwloc_graph B H G A n root_vd (get_root_obj A) w2)))"

section \<open>What one child does to the topology\<close>

text \<open>The effect on the vertex of the child, by itself.\<close>

definition fill_vertex :: "'b adapter \<Rightarrow> ptr \<Rightarrow> ctype \<Rightarrow> vertex \<Rightarrow> vertex" where
  "fill_vertex adapter p t x =
     \<lparr>m_adapters = m_adapters x @ [p],
      m_description = (if m_description x = [] then to_str adapter else m_description x),
      m_type = (if m_type x = UnknownComponentType then t else m_type x)\<rparr>"

lemma fill_vertex_simps [simp]:
  "m_adapters (fill_vertex a p t x) = m_adapters x @ [p]"
  "m_type (fill_vertex a p t x) = (if m_type x = UnknownComponentType then t else m_type x)"
  by (simp_all add: fill_vertex_def)

text \<open>The identifier under which the module asks for the vertex of an object.\<close>

definition obj_identifier :: "('o, 'h) hwloc_api \<Rightarrow> 'o \<Rightarrow> string option" where
  "obj_identifier A obj = map_option bdfid_identifier (hwloc_bdfid A obj)"

text \<open>The objects of a forest, without its roots' parent, in the order of the recursion.\<close>

fun forest_objects :: "'o htree list \<Rightarrow> 'o list" where
  "forest_objects [] = []"
| "forest_objects (HNode obj cs # ts) = obj # forest_objects cs @ forest_objects ts"

definition forest_identifiers :: "('o, 'h) hwloc_api \<Rightarrow> 'o htree list \<Rightarrow> string list" where
  "forest_identifiers A ts = concat (map (\<lambda>obj. case obj_identifier A obj of
     None \<Rightarrow> [] | Some i \<Rightarrow> [i]) (forest_objects ts))"

text \<open>
  The specification: object \<open>obj\<close> hangs below vertex \<open>vd\<close>, by a CHILD edge and its PARENT edge,
  at a vertex that holds its adapter, has its identifier if it has one and its type if it has
  none, and below which its children hang.
\<close>

fun hangs :: "'b bitset_ops \<Rightarrow> 'h hwloc_bitmap_ops \<Rightarrow> 'g bgl \<Rightarrow> ('o, 'h) hwloc_api \<Rightarrow> nat \<Rightarrow>
    ('g, 'b) world \<Rightarrow> vertex_t \<Rightarrow> 'o htree \<Rightarrow> bool" where
  "hangs B H G A n w vd (HNode obj cs) \<longleftrightarrow>
     (\<exists>v < nv G w. (vd, CHILD, v) \<in># warcs G w \<and> (v, PARENT, vd) \<in># warcs G w \<and>
        (\<exists>p \<in> set (m_adapters (vat G w v)). p < length (objects w) \<and>
           objects w ! p = hwloc_adapter B H A n obj) \<and>
        m_type (vat G w v) \<noteq> UnknownComponentType \<and>
        (case obj_identifier A obj of
           Some i \<Rightarrow> ids w i = Some v
         | None \<Rightarrow> Some (m_type (vat G w v)) = hwloc_2_yloc_type A obj) \<and>
        (\<forall>c \<in> set cs. hangs B H G A n w v c))"

text \<open>An object whose own vertex is in place hangs when its children do, in any larger graph.\<close>

lemma hangs_here:
  assumes ext: "extends G w w'" and v: "v < nv G w"
    and arcs: "(vd, CHILD, v) \<in># warcs G w" "(v, PARENT, vd) \<in># warcs G w"
    and p: "p \<in> set (m_adapters (vat G w v))" "p < length (objects w)"
      "objects w ! p = hwloc_adapter B H A n obj"
    and type: "m_type (vat G w v) \<noteq> UnknownComponentType"
    and id: "case obj_identifier A obj of Some i \<Rightarrow> ids w i = Some v
       | None \<Rightarrow> Some (m_type (vat G w v)) = hwloc_2_yloc_type A obj"
    and cs: "\<forall>c \<in> set cs. hangs B H G A n w' v c"
  shows "hangs B H G A n w' vd (HNode obj cs)"
proof -
  note e = extendsD [OF ext]
  have type': "m_type (vat G w' v) = m_type (vat G w v)" by (rule e(7) [OF v type])
  have "p \<in> set (m_adapters (vat G w' v))" "p < length (objects w')"
    "objects w' ! p = hwloc_adapter B H A n obj"
    using e(6) [OF v p(1)] e(4) [OF p(2)] e(5) p by simp_all
  moreover have "case obj_identifier A obj of Some i \<Rightarrow> ids w' i = Some v
       | None \<Rightarrow> Some (m_type (vat G w' v)) = hwloc_2_yloc_type A obj"
    using id type' e(3) by (auto split: option.splits)
  ultimately show ?thesis
    using e(1) e(2) [OF arcs(1)] e(2) [OF arcs(2)] v cs type type'
    by (auto intro!: exI [of _ v] bexI [of _ p])
qed

lemma hangs_extends:
  assumes "extends G w w'"
  shows "hangs B H G A n w vd t \<Longrightarrow> hangs B H G A n w' vd t"
proof (induction t arbitrary: vd)
  case (HNode obj cs)
  from HNode.prems obtain v p where v: "v < nv G w" "(vd, CHILD, v) \<in># warcs G w"
      "(v, PARENT, vd) \<in># warcs G w" "m_type (vat G w v) \<noteq> UnknownComponentType"
      "case obj_identifier A obj of Some i \<Rightarrow> ids w i = Some v
       | None \<Rightarrow> Some (m_type (vat G w v)) = hwloc_2_yloc_type A obj"
    and p: "p \<in> set (m_adapters (vat G w v))" "p < length (objects w)"
      "objects w ! p = hwloc_adapter B H A n obj"
    and cs: "\<forall>c \<in> set cs. hangs B H G A n w v c"
    by auto
  show ?case
    by (rule hangs_here [OF assms v(1,2,3) p v(4,5)]) (use HNode.IH cs in blast)
qed

text \<open>The topology with the adapter made and the vertex asked for.\<close>

definition called :: "nat \<Rightarrow> 'b bitset_ops \<Rightarrow> 'h hwloc_bitmap_ops \<Rightarrow> 'g bgl \<Rightarrow> ('o, 'h) hwloc_api \<Rightarrow>
    'o \<Rightarrow> ('g, 'b) world \<Rightarrow> ('g, 'b) world" where
  "called n B H G A child w =
     w\<lparr>objects := objects w @ [hwloc_adapter B H A n child],
       topology := snd (call_add_vertex G (obj_identifier A child) (topology w))\<rparr>"

text \<open>
  A machine that hwloc detects completely: matching versions, a finite tree of objects below a
  machine, all of types that the code knows.
\<close>

definition detected :: "('o, 'h) hwloc_api \<Rightarrow> 'o htree list \<Rightarrow> bool" where
  "detected A ts \<longleftrightarrow> check_hwloc_api_version A = YLOC_STATUS_SUCCESS \<and>
     obj_type A (get_root_obj A) = HWLOC_OBJ_MACHINE \<and> represents A (HNode (get_root_obj A) ts) \<and>
     (\<forall>obj \<in> set (forest_objects ts). knows_type A obj)"

text \<open>No object of the machine has a processor that is not online: every object answers for its mask.\<close>

definition machine_online :: "'h hwloc_bitmap_ops \<Rightarrow> ('o, 'h) hwloc_api \<Rightarrow> nat \<Rightarrow> 'o htree list \<Rightarrow> bool" where
  "machine_online H A n ts \<longleftrightarrow> (\<forall>obj \<in> set (get_root_obj A # forest_objects ts). cpuset_online H A n obj)"

lemma machine_online_masks:
  assumes "dynamic_bitset B" and "hwloc_bitmap H"
  shows "machine_online H A n ts \<longleftrightarrow>
    (\<forall>obj \<in> set (get_root_obj A # forest_objects ts). hwloc_cpu_affinity_mask B H A n obj \<noteq> None)"
  unfolding machine_online_def online_mask [OF affinity_conversion.intro [OF assms]] by (rule refl)

locale hwloc_build = boost_graph G + hwloc_types A
  for G :: "'g bgl" and A :: "('o, 'h) hwloc_api"
begin

lemma fill_child_simps:
  assumes "cvd < nv G w" and "vd < nv G w"
  shows "nv G (fill_child G a p t vd cvd w) = nv G w"
    and "objects (fill_child G a p t vd cvd w) = objects w"
    and "ids (fill_child G a p t vd cvd w) = ids w"
    and "m_root_vertex (topology (fill_child G a p t vd cvd w)) = m_root_vertex (topology w)"
    and "warcs G (fill_child G a p t vd cvd w) = {#(cvd, PARENT, vd), (vd, CHILD, cvd)#} + warcs G w"
    and "x < nv G w \<Longrightarrow> vat G (fill_child G a p t vd cvd w) x =
      (if x = cvd then fill_vertex a p t (vat G w cvd) else vat G w x)"
  using assms
  by (simp_all add: fill_child_def Let_def graph_simps add_child_def fill_vertex_def)

lemma fill_child_wf:
  assumes "wf_world G w" and "cvd < nv G w" and "vd < nv G w" and "p < length (objects w)" and "t \<noteq> MPIProcess"
  shows "wf_world G (fill_child G a p t vd cvd w)"
  using assms unfolding fill_child_def Let_def
  by (auto intro!: wf_add_child wf_set_type wf_attach wf_set_description simp: graph_simps)

text \<open>The vertex is that of one call of \<^verbatim>\<open>add_vertex\<close>; the classification decides which.\<close>

lemma child_vertex_call:
  assumes "hwloc_2_yloc_type A child = Some t"
  shows "child_vertex G A child t w =
    Some (fst (call_add_vertex G (obj_identifier A child) (topology w)),
      w\<lparr>topology := snd (call_add_vertex G (obj_identifier A child) (topology w))\<rparr>)"
  using pci_type [OF assms] bdfid_pci [of child]
  by (auto simp: child_vertex_def obj_identifier_def call_add_vertex_def vertex_named_def
      vertex_unnamed_def split: option.splits)

lemma add_hwloc_child_eq:
  assumes "hwloc_2_yloc_type A child = Some t"
  shows "add_hwloc_child B H G A n vd child w =
    (let v = fst (call_add_vertex G (obj_identifier A child) (topology w))
     in Some (v, fill_child G (hwloc_adapter B H A n child) (length (objects w)) t vd v
          (called n B H G A child w)))"
  by (simp add: add_hwloc_child_def assms make_shared_def called_def Let_def
      child_vertex_call [OF assms])

lemma called_simps [graph_simps]:
  "objects (called n B H G A child w) = objects w @ [hwloc_adapter B H A n child]"
  "topology (called n B H G A child w) = snd (call_add_vertex G (obj_identifier A child) (topology w))"
  by (simp_all add: called_def)

lemma called_wf: "wf_world G w \<Longrightarrow> wf_world G (called n B H G A child w)"
  using wf_call_vertex [OF wf_make_shared, of w "hwloc_adapter B H A n child" "obj_identifier A child"]
  by (simp add: called_def make_shared_def)

lemma extends_called: "extends G w (called n B H G A child w)"
  by (auto simp: extends_def graph_simps num_call ids_call_le vertex_call_old)

lemma extends_fill:
  assumes "cvd < nv G w" and "vd < nv G w"
  shows "extends G w (fill_child G a p t vd cvd w)"
  using assms unfolding extends_def by (auto simp: fill_child_simps)

text \<open>One child: all that the loop needs to know of it.\<close>

lemma add_hwloc_child_spec:
  assumes "wf_world G w" and "vd < nv G w" and "knows_type A child"
  obtains v w' where "add_hwloc_child B H G A n vd child w = Some (v, w')"
    and "wf_world G w'" and "extends G w w'" and "v < nv G w'" and "vd < nv G w'"
    and "objects w' = objects w @ [hwloc_adapter B H A n child]"
    and "warcs G w' = {#(v, PARENT, vd), (vd, CHILD, v)#} + warcs G w"
    and "ids w' = (case obj_identifier A child of None \<Rightarrow> ids w | Some i \<Rightarrow> (ids w)(i \<mapsto> v))"
    and "length (objects w) \<in> set (m_adapters (vat G w' v))"
    and "m_type (vat G w' v) \<noteq> UnknownComponentType"
    and "obj_identifier A child = None \<Longrightarrow> Some (m_type (vat G w' v)) = hwloc_2_yloc_type A child"
    and "(\<forall>i. obj_identifier A child = Some i \<longrightarrow> ids w i = None) \<longrightarrow>
      v = nv G w \<and> nv G w' = Suc (nv G w)"
    and "m_root_vertex (topology w') = m_root_vertex (topology w)"
proof -
  obtain t where t: "hwloc_2_yloc_type A child = Some t" using type_known assms(3) by blast
  let ?c = "call_add_vertex G (obj_identifier A child) (topology w)" and ?u = "called n B H G A child w"
  let ?v = "fst ?c"
  let ?w = "fill_child G (hwloc_adapter B H A n child) (length (objects w)) t vd ?v ?u"
  have v: "?v < nv G ?u" using call_less wf_world_graph [OF assms(1)] by (simp add: graph_simps)
  have vd: "vd < nv G ?u" using num_call assms(2) by (fastforce simp: graph_simps intro: order_less_le_trans)
  note [simp] = fill_child_simps [OF v vd]
  have new: "m_type (vat G ?u ?v) = UnknownComponentType" if "obj_identifier A child = None"
    using that v by (simp add: graph_simps call_add_vertex_def new_vertex_def)
  have type: "m_type (vat G ?w ?v) =
      (if m_type (vat G ?u ?v) = UnknownComponentType then t else m_type (vat G ?u ?v))"
    using v by simp
  have num: "nv G ?w = nv G ?u" by simp
  show thesis
  proof
    show "add_hwloc_child B H G A n vd child w = Some (?v, ?w)"
      by (simp add: add_hwloc_child_eq [OF t] Let_def)
    show "wf_world G ?w"
      by (rule fill_child_wf [OF called_wf [OF assms(1)] v vd]) (simp_all add: graph_simps type_not_process [OF t])
    show "extends G w ?w" by (rule extends_trans [OF extends_called extends_fill [OF v vd]])
    show "?v < nv G ?w" "vd < nv G ?w" using v vd by simp_all
    show "m_type (vat G ?w ?v) \<noteq> UnknownComponentType"
      using v type_not_unknown [OF t] by simp
    show "obj_identifier A child = None \<Longrightarrow> Some (m_type (vat G ?w ?v)) = hwloc_2_yloc_type A child"
      using type new t by auto
    show "(\<forall>i. obj_identifier A child = Some i \<longrightarrow> ids w i = None) \<longrightarrow>
        ?v = nv G w \<and> nv G ?w = Suc (nv G w)"
    proof
      assume "\<forall>i. obj_identifier A child = Some i \<longrightarrow> ids w i = None"
      then have fresh: "\<And>i. obj_identifier A child = Some i \<Longrightarrow> ids w i = None" by blast
      show "?v = nv G w \<and> nv G ?w = Suc (nv G w)"
        unfolding num called_simps using call_fresh [OF fresh] by blast
    qed
    show "ids ?w = (case obj_identifier A child of None \<Rightarrow> ids w | Some i \<Rightarrow> (ids w)(i \<mapsto> ?v))"
      by (simp add: graph_simps map_call)
  qed (use v in \<open>simp_all add: graph_simps\<close>)
qed

lemma paired_hang:
  "warcs G w' = {#(v, PARENT, u), (u, CHILD, v)#} + warcs G w \<Longrightarrow> paired G w \<Longrightarrow> paired G w'"
  by (auto simp: paired_def)

lemma child_rel_hang:
  "warcs G w' = {#(v, PARENT, u), (u, CHILD, v)#} + warcs G w \<Longrightarrow>
     child_rel G (topology w') = insert (u, v) (child_rel G (topology w))"
  by (auto simp: child_rel_def)

lemma forest_identifiers_Cons:
  "set (forest_identifiers A (HNode obj cs # ts)) =
     (case obj_identifier A obj of None \<Rightarrow> {} | Some i \<Rightarrow> {i}) \<union>
     set (forest_identifiers A cs) \<union> set (forest_identifiers A ts)"
  by (auto simp: forest_identifiers_def split: option.splits)

text \<open>What a forest adds to the topology.\<close>

lemma build_forest_spec:
  assumes "wf_world G w" and "vd < nv G w" and "\<forall>obj \<in> set (forest_objects ts). knows_type A obj"
  shows "\<exists>w'. build_forest B H G A n vd ts w = Some w' \<and> wf_world G w' \<and> extends G w w' \<and>
    (\<forall>t \<in> set ts. hangs B H G A n w' vd t) \<and>
    objects w' = objects w @ map (hwloc_adapter B H A n) (forest_objects ts) \<and>
    size (warcs G w') = size (warcs G w) + 2 * length (forest_objects ts) \<and>
    (paired G w \<longrightarrow> paired G w') \<and>
    dom (ids w') = dom (ids w) \<union> set (forest_identifiers A ts) \<and>
    m_root_vertex (topology w') = m_root_vertex (topology w)"
  using assms
proof (induction ts arbitrary: vd w rule: forest_objects.induct)
  case 1
  then show ?case by (simp add: forest_identifiers_def)
next
  case (2 obj cs ts)
  have known: "knows_type A obj" using "2.prems"(3) by simp
  obtain v w1 where add: "add_hwloc_child B H G A n vd obj w = Some (v, w1)"
    and wf1: "wf_world G w1" and ext1: "extends G w w1" and v: "v < nv G w1" "vd < nv G w1"
    and obj1: "objects w1 = objects w @ [hwloc_adapter B H A n obj]"
    and arcs1: "warcs G w1 = {#(v, PARENT, vd), (vd, CHILD, v)#} + warcs G w"
    and ids1: "ids w1 = (case obj_identifier A obj of None \<Rightarrow> ids w | Some i \<Rightarrow> (ids w)(i \<mapsto> v))"
    and p: "length (objects w) \<in> set (m_adapters (vat G w1 v))"
    and type: "m_type (vat G w1 v) \<noteq> UnknownComponentType"
      "obj_identifier A obj = None \<Longrightarrow> Some (m_type (vat G w1 v)) = hwloc_2_yloc_type A obj"
    and root1: "m_root_vertex (topology w1) = m_root_vertex (topology w)"
    by (rule add_hwloc_child_spec [OF "2.prems"(1,2) known, of B H n]) (rule that)
  from "2.IH"(1) [OF wf1 v(1)] "2.prems"(3) obtain w2 where
    w2: "build_forest B H G A n v cs w1 = Some w2" and wf2: "wf_world G w2" and ext2: "extends G w1 w2"
    and hang2: "\<forall>t \<in> set cs. hangs B H G A n w2 v t"
    and obj2: "objects w2 = objects w1 @ map (hwloc_adapter B H A n) (forest_objects cs)"
    and size2: "size (warcs G w2) = size (warcs G w1) + 2 * length (forest_objects cs)"
    and paired2: "paired G w1 \<longrightarrow> paired G w2"
    and dom2: "dom (ids w2) = dom (ids w1) \<union> set (forest_identifiers A cs)"
    and root2: "m_root_vertex (topology w2) = m_root_vertex (topology w1)"
    by auto
  have vd2: "vd < nv G w2" using v(2) extendsD(1) [OF ext2] by simp
  from "2.IH"(2) [OF wf2 vd2] "2.prems"(3) obtain w3 where
    w3: "build_forest B H G A n vd ts w2 = Some w3" and wf3: "wf_world G w3" and ext3: "extends G w2 w3"
    and hang3: "\<forall>t \<in> set ts. hangs B H G A n w3 vd t"
    and obj3: "objects w3 = objects w2 @ map (hwloc_adapter B H A n) (forest_objects ts)"
    and size3: "size (warcs G w3) = size (warcs G w2) + 2 * length (forest_objects ts)"
    and paired3: "paired G w2 \<longrightarrow> paired G w3"
    and dom3: "dom (ids w3) = dom (ids w2) \<union> set (forest_identifiers A ts)"
    and root3: "m_root_vertex (topology w3) = m_root_vertex (topology w2)"
    by auto
  have "hangs B H G A n w2 vd (HNode obj cs)"
    by (rule hangs_here [OF ext2 v(1) _ _ p _ _ type(1) _ hang2])
      (use arcs1 obj1 ids1 type(2) in \<open>auto split: option.splits\<close>)
  then have "hangs B H G A n w3 vd (HNode obj cs)" by (rule hangs_extends [OF ext3])
  moreover have "paired G w \<longrightarrow> paired G w3" using paired_hang [OF arcs1] paired2 paired3 by blast
  moreover have "dom (ids w3) = dom (ids w) \<union> set (forest_identifiers A (HNode obj cs # ts))"
    unfolding dom3 dom2 forest_identifiers_Cons using ids1 by (auto split: option.splits)
  ultimately show ?case
    using add w2 w3 wf3 extends_trans [OF extends_trans [OF ext1 ext2] ext3] hang3 obj1 obj2 obj3
      size2 size3 arcs1 root1 root2 root3
    by simp
qed

text \<open>With identifiers that are new and used once, every child comes after its parent.\<close>

lemma forest_identifiers_eq:
  "forest_identifiers A (HNode obj cs # ts) =
     (case obj_identifier A obj of None \<Rightarrow> [] | Some i \<Rightarrow> [i]) @
     forest_identifiers A cs @ forest_identifiers A ts"
  by (simp add: forest_identifiers_def)

lemma build_forest_increasing:
  assumes "wf_world G w" and "vd < nv G w" and "\<forall>obj \<in> set (forest_objects ts). knows_type A obj"
    and "increasing G (topology w)" and "distinct (forest_identifiers A ts)"
    and "set (forest_identifiers A ts) \<inter> dom (ids w) = {}"
    and "build_forest B H G A n vd ts w = Some w'"
  shows "increasing G (topology w') \<and> nv G w' = nv G w + length (forest_objects ts)"
  using assms
proof (induction ts arbitrary: vd w w' rule: forest_objects.induct)
  case 1
  then show ?case by simp
next
  case (2 obj cs ts)
  have known: "knows_type A obj" using "2.prems"(3) by simp
  obtain v w1 where add: "add_hwloc_child B H G A n vd obj w = Some (v, w1)"
    and wf1: "wf_world G w1" and v: "v < nv G w1" "vd < nv G w1"
    and arcs1: "warcs G w1 = {#(v, PARENT, vd), (vd, CHILD, v)#} + warcs G w"
    and ids1: "ids w1 = (case obj_identifier A obj of None \<Rightarrow> ids w | Some i \<Rightarrow> (ids w)(i \<mapsto> v))"
    and new: "(\<forall>i. obj_identifier A obj = Some i \<longrightarrow> ids w i = None) \<longrightarrow>
      v = nv G w \<and> nv G w1 = Suc (nv G w)"
    by (rule add_hwloc_child_spec [OF "2.prems"(1,2) known, of B H n]) (rule that)
  have "ids w i = None" if "obj_identifier A obj = Some i" for i
    using "2.prems"(6) that by (auto simp: forest_identifiers_eq domIff)
  then have num1: "v = nv G w" "nv G w1 = Suc (nv G w)" using new by auto
  have inc1: "increasing G (topology w1)"
    using "2.prems"(2,4) num1(1) by (auto simp: increasing_def child_rel_hang [OF arcs1])
  have dom1: "dom (ids w1) = dom (ids w) \<union> set (case obj_identifier A obj of None \<Rightarrow> [] | Some i \<Rightarrow> [i])"
    using ids1 by (auto split: option.splits)
  have cs: "\<forall>obj \<in> set (forest_objects cs). knows_type A obj" using "2.prems"(3) by auto
  from build_forest_spec [OF wf1 v(1) cs, of B H n] obtain w2 where
    w2: "build_forest B H G A n v cs w1 = Some w2" and wf2: "wf_world G w2" and ext2: "extends G w1 w2"
    and dom2: "dom (ids w2) = dom (ids w1) \<union> set (forest_identifiers A cs)"
    by auto
  have "set (forest_identifiers A cs) \<inter> dom (ids w1) = {}" "distinct (forest_identifiers A cs)"
    using "2.prems"(5,6) unfolding forest_identifiers_eq dom1 by auto
  from "2.IH"(1) [OF wf1 v(1) cs inc1 this(2,1) w2]
  have two: "increasing G (topology w2)" "nv G w2 = nv G w1 + length (forest_objects cs)" by auto
  have "build_forest B H G A n vd ts w2 = Some w'" using "2.prems"(7) add w2 by simp
  moreover have "set (forest_identifiers A ts) \<inter> dom (ids w2) = {}" "distinct (forest_identifiers A ts)"
    using "2.prems"(5,6) unfolding forest_identifiers_eq dom1 dom2 by auto
  moreover have "vd < nv G w2" using v(2) extendsD(1) [OF ext2] by simp
  moreover have "\<forall>obj \<in> set (forest_objects ts). knows_type A obj" using "2.prems"(3) by auto
  ultimately have "increasing G (topology w') \<and> nv G w' = nv G w2 + length (forest_objects ts)"
    using "2.IH"(2) [OF wf2 _ _ two(1)] by blast
  with two num1 show ?case by simp
qed

text \<open>
  Whatever \<^verbatim>\<open>hwloc_get_next_child\<close> returns, a construction that ends keeps the invariants.
\<close>

lemma hwloc_children_keeps:
  assumes "hwloc_children B H G A n vd obj prev w = Some w'"
  shows "wf_world G w \<and> vd < nv G w \<longrightarrow>
    wf_world G w' \<and> extends G w w' \<and> (paired G w \<longrightarrow> paired G w')"
proof (rule hwloc_children.raw_induct
    [where P = "\<lambda>B' H' G' A' n' vd obj prev w w'. B' = B \<and> H' = H \<and> G' = G \<and> A' = A \<and> n' = n \<longrightarrow>
        wf_world G w \<and> vd < nv G w \<longrightarrow>
          wf_world G w' \<and> extends G w w' \<and> (paired G w \<longrightarrow> paired G w')",
      OF _ assms, THEN mp], goal_cases)
  case (1 f B' H' G' A' n' vd obj prev w w')
  show ?case
  proof (intro impI)
    assume same: "B' = B \<and> H' = H \<and> G' = G \<and> A' = A \<and> n' = n" and w: "wf_world G w \<and> vd < nv G w"
    show "wf_world G w' \<and> extends G w w' \<and> (paired G w \<longrightarrow> paired G w')"
    proof (cases "get_next_child A obj prev")
      case None
      with 1(2) same w show ?thesis by simp
    next
      case (Some child)
      with 1(2) same obtain r w2 where add: "add_hwloc_child B H G A n vd child w = Some r"
        and sub: "f B H G A n (fst r) child None (snd r) = Some w2"
        and rest: "f B H G A n vd obj (Some child) w2 = Some w'"
        by (auto simp: bind_eq_Some_conv)
      have known: "knows_type A child"
        using add unfolding type_known [symmetric]
        by (cases "hwloc_2_yloc_type A child") (auto simp: add_hwloc_child_def split: prod.splits)
      obtain v w1 where r: "add_hwloc_child B H G A n vd child w = Some (v, w1)"
        and one: "wf_world G w1" "extends G w w1" "v < nv G w1" "vd < nv G w1"
        and arcs1: "warcs G w1 = {#(v, PARENT, vd), (vd, CHILD, v)#} + warcs G w"
        by (rule add_hwloc_child_spec [OF conjunct1 [OF w] conjunct2 [OF w] known, of B H n]) (rule that)
      have [simp]: "r = (v, w1)" using r add by simp
      have two: "wf_world G w2 \<and> extends G w1 w2 \<and> (paired G w1 \<longrightarrow> paired G w2)"
        using 1(1) [rule_format, OF sub] one by simp
      have "vd < nv G w2" using one(4) extendsD(1) [of G w1 w2] two by simp
      then have "wf_world G w' \<and> extends G w2 w' \<and> (paired G w2 \<longrightarrow> paired G w')"
        using 1(1) [rule_format, OF rest] two by simp
      with two paired_hang [OF arcs1] one show ?thesis by (blast intro: extends_trans)
    qed
  qed
next
  case 2
  show ?case by simp
qed

lemma root_vertex_simps:
  fixes B H n hostname w
  defines "r \<equiv> root_vertex_hwloc B H G A n hostname w"
  defines "v \<equiv> fst (vertex_named G (''machine:'' @ hostname) w)"
  assumes wf: "wf_world G w"
  shows "fst r = v" and "v < nv G (snd r)" and "wf_world G (snd r)"
    and "warcs G (snd r) = warcs G w" and "paired G w \<Longrightarrow> paired G (snd r)"
    and "m_root_vertex (topology (snd r)) = v"
    and "ids (snd r) = (ids w)(''machine:'' @ hostname \<mapsto> v)"
    and "m_description (vat G (snd r) v) = hostname"
    and "objects (snd r) = objects w @ [hwloc_adapter B H A n (get_root_obj A)]"
    and "length (objects w) \<in> set (m_adapters (vat G (snd r) v))"
    and "extends G w (snd r)"
    and "ids w (''machine:'' @ hostname) = None \<Longrightarrow> nv G (snd r) = Suc (nv G w)"
proof -
  define w1 where "w1 = snd (vertex_named G (''machine:'' @ hostname) w)"
  define a where "a = hwloc_adapter B H A n (get_root_obj A)"
  have r: "r = (v, attach G v (length (objects w)) (snd (make_shared a
      (set_root v (set_description G v hostname w1)))))"
    by (simp add: r_def v_def w1_def a_def root_vertex_hwloc_def make_shared_def split_def Let_def
        set_root_def set_description_def on_vertex_def vertex_named_def)
  have w1: "v < nv G w1" "objects w1 = objects w" "warcs G w1 = warcs G w"
    "ids w1 = (ids w)(''machine:'' @ hostname \<mapsto> v)"
    using fst_add_vertex_less [OF wf_world_graph [OF wf]]
    by (simp_all only: w1_def v_def step_simps map_add_vertex arcs_add_vertex)
  have "nv G w1 = Suc (nv G w)" if "ids w (''machine:'' @ hostname) = None"
    unfolding w1_def step_simps num_add_vertex_if using that by (simp only: simp_thms if_True)
  then show "ids w (''machine:'' @ hostname) = None \<Longrightarrow> nv G (snd r) = Suc (nv G w)"
    by (simp add: r graph_simps)
  have wf1: "wf_world G w1" unfolding w1_def by (rule wf_vertex_named [OF wf])
  have ext1: "extends G w w1" unfolding w1_def by (rule extends_vertex_named)
  note simps = r w1 graph_simps
  show "fst r = v" "v < nv G (snd r)" "warcs G (snd r) = warcs G w"
    "m_root_vertex (topology (snd r)) = v"
    "ids (snd r) = (ids w)(''machine:'' @ hostname \<mapsto> v)"
    "m_description (vat G (snd r) v) = hostname"
    "objects (snd r) = objects w @ [hwloc_adapter B H A n (get_root_obj A)]"
    "length (objects w) \<in> set (m_adapters (vat G (snd r) v))"
    by (simp_all add: simps a_def)
  then show "paired G w \<Longrightarrow> paired G (snd r)" by (simp add: paired_def)
  define w2 where "w2 = set_root v (set_description G v hostname w1)"
  define w3 where "w3 = snd (make_shared a w2)"
  have r2: "snd r = attach G v (length (objects w)) w3" by (simp add: r w2_def w3_def)
  have v3: "v < nv G w3" "length (objects w) < length (objects w3)"
    by (simp_all add: w2_def w3_def simps)
  have wf2: "wf_world G w2"
    unfolding w2_def by (rule wf_set_root [OF wf_set_description [OF wf1 w1(1)]]) (simp add: simps)
  have wf3: "wf_world G w3"
    unfolding w3_def by (rule wf_make_shared [OF wf2]) (simp add: a_def)
  show "wf_world G (snd r)" unfolding r2 by (rule wf_attach [OF wf3 v3])
  have "extends G w1 w2"
    unfolding w2_def by (rule extends_trans [OF extends_set_description [OF w1(1)] extends_set_root])
  moreover have "extends G w2 w3" unfolding w3_def by (rule extends_make_shared)
  moreover have "extends G w3 (snd r)" unfolding r2 by (rule extends_attach [OF v3(1)])
  ultimately have "extends G w1 (snd r)" by (blast intro: extends_trans)
  with ext1 show "extends G w (snd r)" by (rule extends_trans)
qed

lemma root_typed:
  assumes wf: "wf_world G w" and t: "hwloc_2_yloc_type A (get_root_obj A) = Some t"
  obtains v w2 where
    "(let (root_vd, w1) = root_vertex_hwloc B H G A n hostname w in
        Option.bind
          (if m_type (vat G w1 root_vd) = UnknownComponentType
           then map_option (\<lambda>t. set_type G root_vd t w1) (hwloc_2_yloc_type A (get_root_obj A))
           else Some w1)
          (\<lambda>w2. map_option (\<lambda>w3. (YLOC_STATUS_SUCCESS, w3))
            (make_hwloc_graph B H G A n root_vd (get_root_obj A) w2))) =
      map_option (\<lambda>w3. (YLOC_STATUS_SUCCESS, w3)) (make_hwloc_graph B H G A n v (get_root_obj A) w2)"
    and "ids w (''machine:'' @ hostname) = None \<longrightarrow> nv G w2 = Suc (nv G w)"
    and "v < nv G w2" and "wf_world G w2" and "extends G w w2" and "warcs G w2 = warcs G w"
    and "m_root_vertex (topology w2) = v" and "ids w2 (''machine:'' @ hostname) = Some v"
    and "dom (ids w2) = insert (''machine:'' @ hostname) (dom (ids w))"
    and "m_type (vat G w2 v) \<noteq> UnknownComponentType"
    and "objects w2 = objects w @ [hwloc_adapter B H A n (get_root_obj A)]"
    and "length (objects w) \<in> set (m_adapters (vat G w2 v))"
proof -
  define v where "v = fst (vertex_named G (''machine:'' @ hostname) w)"
  define w1 where "w1 = snd (root_vertex_hwloc B H G A n hostname w)"
  define w2 where "w2 = (if m_type (vat G w1 v) = UnknownComponentType
    then set_type G v t w1 else w1)"
  note r = root_vertex_simps [OF wf, where B = B and H = H and n = n and hostname = hostname,
      folded v_def w1_def]
  have root: "root_vertex_hwloc B H G A n hostname w = (v, w1)"
    using r(1) by (simp add: w1_def prod_eq_iff)
  note v = r(2) and simps = w2_def graph_simps r
  show thesis
  proof
    show "v < nv G w2" by (simp add: simps)
    show "wf_world G w2" unfolding w2_def using wf_set_type [OF r(3) v type_not_process [OF t]] r(3) by simp
    have "extends G w1 w2" unfolding w2_def using extends_set_type [OF v] by simp
    with r(11) show "extends G w w2" by (rule extends_trans)
    show "m_type (vat G w2 v) \<noteq> UnknownComponentType"
      using type_not_unknown [OF t] v by (simp add: w2_def graph_simps)
    show "length (objects w) \<in> set (m_adapters (vat G w2 v))"
      using r(10) v by (simp add: w2_def graph_simps)
    show "warcs G w2 = warcs G w" "m_root_vertex (topology w2) = v"
      "objects w2 = objects w @ [hwloc_adapter B H A n (get_root_obj A)]"
      by (simp_all add: simps)
    show "ids w (''machine:'' @ hostname) = None \<longrightarrow> nv G w2 = Suc (nv G w)"
      using r(12) by (simp add: w2_def graph_simps)
    show "ids w2 (''machine:'' @ hostname) = Some v"
      "dom (ids w2) = insert (''machine:'' @ hostname) (dom (ids w))"
      by (simp_all add: simps)
  qed (simp add: Let_def root t w2_def)
qed

lemma init_graph_keeps:
  assumes "wf_world G w" and "ModuleHwloc_init_graph B H G A n hostname w = Some (s, w')"
  shows "wf_world G w' \<and> extends G w w' \<and> (paired G w \<longrightarrow> paired G w')"
proof (cases "check_hwloc_api_version A = YLOC_STATUS_SUCCESS")
  case False
  with assms show ?thesis by (simp add: ModuleHwloc_init_graph_def)
next
  case True
  with assms(2) have machine: "obj_type A (get_root_obj A) = HWLOC_OBJ_MACHINE"
    by (simp add: ModuleHwloc_init_graph_def split: if_splits)
  then have t: "hwloc_2_yloc_type A (get_root_obj A) = Some Node" by (simp add: type_table)
  obtain v w2 where run: "ModuleHwloc_init_graph B H G A n hostname w =
      map_option (\<lambda>w3. (YLOC_STATUS_SUCCESS, w3)) (make_hwloc_graph B H G A n v (get_root_obj A) w2)"
    and two: "v < nv G w2" "wf_world G w2" "extends G w w2" "warcs G w2 = warcs G w"
    unfolding ModuleHwloc_init_graph_def
    by (rule root_typed [OF assms(1) t, of B H n hostname]) (use True machine in \<open>auto intro: that\<close>)
  from run assms(2) have "make_hwloc_graph B H G A n v (get_root_obj A) w2 = Some w'"
    by (cases "make_hwloc_graph B H G A n v (get_root_obj A) w2") simp_all
  then have "wf_world G w' \<and> extends G w2 w' \<and> (paired G w2 \<longrightarrow> paired G w')"
    unfolding make_hwloc_graph_def using hwloc_children_keeps two by blast
  with two show ?thesis by (auto simp: paired_def intro: extends_trans)
qed

lemma init_graph_contract: "module_contract G (ModuleHwloc_init_graph B H G A n hostname)"
  using init_graph_keeps by unfold_locales blast+

text \<open>On a machine that hwloc detects completely, initialisation succeeds.\<close>

lemma init_graph_builds:
  assumes "wf_world G w" and "detected A ts"
  obtains v w2 w' where "ModuleHwloc_init_graph B H G A n hostname w = Some (YLOC_STATUS_SUCCESS, w')"
    and "build_forest B H G A n v ts w2 = Some w'"
    and "ids w (''machine:'' @ hostname) = None \<longrightarrow> nv G w2 = Suc (nv G w)"
    and "v < nv G w2" and "wf_world G w2" and "extends G w w2" and "warcs G w2 = warcs G w"
    and "m_root_vertex (topology w2) = v" and "ids w2 (''machine:'' @ hostname) = Some v"
    and "dom (ids w2) = insert (''machine:'' @ hostname) (dom (ids w))"
    and "m_type (vat G w2 v) \<noteq> UnknownComponentType"
    and "objects w2 = objects w @ [hwloc_adapter B H A n (get_root_obj A)]"
    and "length (objects w) \<in> set (m_adapters (vat G w2 v))"
proof -
  have t: "hwloc_2_yloc_type A (get_root_obj A) = Some Node"
    using assms(2) by (simp add: type_table detected_def)
  obtain v w2 where run: "ModuleHwloc_init_graph B H G A n hostname w =
      map_option (\<lambda>w3. (YLOC_STATUS_SUCCESS, w3)) (make_hwloc_graph B H G A n v (get_root_obj A) w2)"
    and num: "ids w (''machine:'' @ hostname) = None \<longrightarrow> nv G w2 = Suc (nv G w)"
    and two: "v < nv G w2" "wf_world G w2" "extends G w w2" "warcs G w2 = warcs G w"
      "m_root_vertex (topology w2) = v" "ids w2 (''machine:'' @ hostname) = Some v"
      "dom (ids w2) = insert (''machine:'' @ hostname) (dom (ids w))"
      "m_type (vat G w2 v) \<noteq> UnknownComponentType"
      "objects w2 = objects w @ [hwloc_adapter B H A n (get_root_obj A)]"
      "length (objects w) \<in> set (m_adapters (vat G w2 v))"
    unfolding ModuleHwloc_init_graph_def
    by (rule root_typed [OF assms(1) t, of B H n hostname])
      (use assms(2) in \<open>auto simp: detected_def intro: that\<close>)
  have forest: "make_hwloc_graph B H G A n v (get_root_obj A) w2 = build_forest B H G A n v ts w2"
    unfolding make_hwloc_graph_def
    by (rule hwloc_children_forest) (use assms(2) in \<open>auto simp: detected_def\<close>)
  obtain w' where "build_forest B H G A n v ts w2 = Some w'"
    using build_forest_spec [OF two(2,1), of ts B H n] assms(2) by (auto simp: detected_def)
  with run forest num two show thesis by (intro that) simp_all
qed

end

section \<open>The interfaces, on the module\<close>

interpretation hwloc_lists: hwloc_build adjlist_ops "documented_types A"
  for A :: "('o, 'h) hwloc_api"
  by unfold_locales

interpretation hwloc_contract: module_contract adjlist_ops
  "ModuleHwloc_init_graph B H adjlist_ops (documented_types A) n hostname"
  for B :: "'b bitset_ops" and H :: "'h hwloc_bitmap_ops" and A :: "('o, 'h) hwloc_api"
    and n :: nat and hostname :: string
  by (rule hwloc_lists.init_graph_contract)

lemma hwloc_buildI: "boost_graph G \<Longrightarrow> hwloc_types A \<Longrightarrow> hwloc_build G A"
  by (rule hwloc_build.intro)

text \<open>The sample machine as a tree.\<close>

definition sample_tree :: "nat htree list" where
  "sample_tree = [HNode 1 [HNode 4 []], HNode 2 [], HNode 3 []]"

lemma sample_represents: "represents sample_api (HNode 0 sample_tree)"
  by (simp add: sample_tree_def)

lemma sample_known: "\<forall>obj \<in> set (forest_objects sample_tree). knows_type sample_api obj"
  by (simp add: sample_tree_def knows_type_def)

lemma sample_detected: "detected sample_api sample_tree"
  using sample_represents sample_known
  by (simp add: detected_def check_hwloc_api_version_def drop_bit_eq_div)

lemma sample_online: "machine_online index_list_ops sample_api 2 sample_tree"
  by (simp add: machine_online_def cpuset_online_def sample_tree_def index_list_ops_def)

section \<open>Properties\<close>

text \<open>
  C6. The recursion over hwloc's tree terminates and is complete: on a finite tree of objects of known
  types, \<^verbatim>\<open>make_hwloc_graph\<close> returns, every object below the given one hangs below the given
  vertex as the tree has it, and exactly one adapter and two edges were made per object.
\<close>

theorem make_hwloc_graph_complete:
  assumes "boost_graph G" and "hwloc_types A" and "wf_world G w" and "vd < nv G w"
    and "represents A (HNode obj ts)" and "\<forall>x \<in> set (forest_objects ts). knows_type A x"
  shows "\<exists>w'. make_hwloc_graph B H G A n vd obj w = Some w' \<and>
    (\<forall>t \<in> set ts. hangs B H G A n w' vd t) \<and>
    objects w' = objects w @ map (hwloc_adapter B H A n) (forest_objects ts) \<and>
    size (warcs G w') = size (warcs G w) + 2 * length (forest_objects ts)"
proof -
  have "make_hwloc_graph B H G A n vd obj w = build_forest B H G A n vd ts w"
    unfolding make_hwloc_graph_def by (rule hwloc_children_forest) (use assms(5) in auto)
  then show ?thesis
    using hwloc_build.build_forest_spec [OF hwloc_buildI [OF assms(1,2)] assms(3,4,6), of B H n]
    by auto
qed

theorem make_hwloc_graph_complete_witness:
  "\<exists>w'. make_hwloc_graph bool_list_ops index_list_ops adjlist_ops sample_api 2 0 0
      (snd (vertex_unnamed adjlist_ops (root_graph adjlist_ops))) = Some w' \<and>
    (\<forall>t \<in> set sample_tree. hangs bool_list_ops index_list_ops adjlist_ops sample_api 2 w' 0 t)"
  using make_hwloc_graph_complete [OF boost_graph_adjlist hwloc_types_sample
      adjlist.wf_vertex_unnamed [OF adjlist.wf_root_graph] _ sample_represents sample_known,
      of 0 bool_list_ops index_list_ops 2]
  by (auto simp: adjlist.unnamed_simps step_simps)

text \<open>
  C2. \<^verbatim>\<open>ModuleHwloc::init_graph\<close> on a detected machine succeeds: the vertex \<^verbatim>\<open>machine:<hostname>\<close>
  becomes the root vertex, has a type and holds the adapter of the machine object; the whole
  tree of objects hangs below it; what was in the topology before stays.
\<close>

theorem ModuleHwloc_init_graph_builds:
  assumes "boost_graph G" and "hwloc_types A" and "wf_world G w" and "detected A ts"
  shows "\<exists>v w'. ModuleHwloc_init_graph B H G A n hostname w = Some (YLOC_STATUS_SUCCESS, w') \<and>
    m_root_vertex (topology w') = v \<and> ids w' (''machine:'' @ hostname) = Some v \<and> v < nv G w' \<and>
    m_type (vat G w' v) \<noteq> UnknownComponentType \<and>
    (\<exists>p \<in> set (m_adapters (vat G w' v)). objects w' ! p = hwloc_adapter B H A n (get_root_obj A)) \<and>
    (\<forall>t \<in> set ts. hangs B H G A n w' v t) \<and> extends G w w' \<and>
    size (warcs G w') = size (warcs G w) + 2 * length (forest_objects ts)"
proof -
  note build = hwloc_buildI [OF assms(1,2)]
  have known: "\<forall>obj \<in> set (forest_objects ts). knows_type A obj"
    using assms(4) by (simp add: detected_def)
  obtain v w2 w' where run: "ModuleHwloc_init_graph B H G A n hostname w = Some (YLOC_STATUS_SUCCESS, w')"
    and forest: "build_forest B H G A n v ts w2 = Some w'" and v: "v < nv G w2" and wf: "wf_world G w2"
    and ext: "extends G w w2" and arcs: "warcs G w2 = warcs G w"
    and root: "m_root_vertex (topology w2) = v" "ids w2 (''machine:'' @ hostname) = Some v"
      "m_type (vat G w2 v) \<noteq> UnknownComponentType"
    and obj: "objects w2 = objects w @ [hwloc_adapter B H A n (get_root_obj A)]"
      "length (objects w) \<in> set (m_adapters (vat G w2 v))"
    by (rule hwloc_build.init_graph_builds [OF build assms(3,4), of B H n hostname]) (rule that)
  have spec: "extends G w2 w' \<and> (\<forall>t \<in> set ts. hangs B H G A n w' v t) \<and>
      size (warcs G w') = size (warcs G w2) + 2 * length (forest_objects ts) \<and>
      m_root_vertex (topology w') = m_root_vertex (topology w2)"
    using hwloc_build.build_forest_spec [OF build wf v known, of B H n] forest by auto
  note e = extendsD [OF conjunct1 [OF spec]]
  have "objects w' ! length (objects w) = hwloc_adapter B H A n (get_root_obj A)"
    using e(4) [of "length (objects w)"] obj(1) by simp
  moreover have "length (objects w) \<in> set (m_adapters (vat G w' v))" by (rule e(6) [OF v obj(2)])
  moreover have "m_type (vat G w' v) \<noteq> UnknownComponentType" using e(7) [OF v] root(3) by simp
  moreover have "extends G w w'" by (rule extends_trans [OF ext conjunct1 [OF spec]])
  moreover have "ids w' (''machine:'' @ hostname) = Some v" by (rule e(3) [OF root(2)])
  ultimately show ?thesis
    using run spec root(1) arcs v e(1)
    by (intro exI [of _ v] exI [of _ w'] conjI bexI [of _ "length (objects w)"]) simp_all
qed

theorem ModuleHwloc_init_graph_builds_witness:
  "\<exists>v w'. ModuleHwloc_init_graph bool_list_ops index_list_ops adjlist_ops sample_api 2 ''h''
      (root_graph adjlist_ops) = Some (YLOC_STATUS_SUCCESS, w') \<and>
    ids w' ''machine:h'' = Some v \<and>
    (\<forall>t \<in> set sample_tree. hangs bool_list_ops index_list_ops adjlist_ops sample_api 2 w' v t)"
  using ModuleHwloc_init_graph_builds [OF boost_graph_adjlist hwloc_types_sample
      adjlist.wf_root_graph sample_detected, of bool_list_ops index_list_ops 2 "''h''"]
  by auto

text \<open>
  \<^verbatim>\<open>ModuleHwloc::init_graph\<close> keeps the invariants of the topology whatever hwloc returns: whenever it
  returns, all pointers and edges are valid, CHILD and PARENT edges are still paired and the
  graph has only grown.
\<close>

lemma ModuleHwloc_init_graph_keeps:
  assumes "boost_graph G" and "hwloc_types A" and "wf_world G w"
    and "ModuleHwloc_init_graph B H G A n hostname w = Some (s, w')"
  shows "wf_world G w' \<and> extends G w w' \<and> (paired G w \<longrightarrow> paired G w')"
  by (rule hwloc_build.init_graph_keeps [OF hwloc_buildI [OF assms(1,2)] assms(3,4)])

text \<open>
  A library whose major version differs from the one the program was compiled for is refused
  before anything is read from it: the status is an error and the topology is as it was.
  Minor versions do not matter.
\<close>

lemma ModuleHwloc_version_check:
  "ModuleHwloc_init_graph B H G A n hostname w = Some (s, w') \<and> s \<noteq> YLOC_STATUS_SUCCESS \<longleftrightarrow>
     unat (get_api_version A) div 2 ^ 16 \<noteq> unat (HWLOC_API_VERSION A) div 2 ^ 16 \<and>
     s = YLOC_STATUS_INIT_ERROR \<and> w' = w"
proof -
  have "drop_bit 16 a = drop_bit 16 b \<longleftrightarrow> unat a div 2 ^ 16 = unat b div 2 ^ 16" for a b :: u32
    by (simp only: word_unat_eq_iff unat_drop_bit_eq) (simp only: drop_bit_eq_div)
  then have "check_hwloc_api_version A \<noteq> YLOC_STATUS_SUCCESS \<longleftrightarrow>
      unat (get_api_version A) div 2 ^ 16 \<noteq> unat (HWLOC_API_VERSION A) div 2 ^ 16"
    by (simp only: check_hwloc_api_version_def) simp
  then show ?thesis
    by (auto simp: ModuleHwloc_init_graph_def check_hwloc_api_version_def Let_def split_def
        bind_eq_Some_conv split: if_splits)
qed

text \<open>
  C26. After the hwloc module has built the topology, the search of \<^verbatim>\<open>util.cc\<close> always returns, on a machine of
  which no two PCI devices share a bus address and no object has a processor that is not online: no CHILD edges
  form a cycle, there is one vertex per object, every object answers for its mask (the assertion in the conversion
  of its cpu set holds), and \<^verbatim>\<open>lowest_containing_vertex\<close> finds a vertex for every mask.
\<close>

theorem hwloc_topology_searchable:
  assumes "topology_search G B srt" and "hwloc_types A" and "detected A ts"
    and "distinct (forest_identifiers A ts)" and "hwloc_bitmap H" and "machine_online H A n ts"
    and "ModuleHwloc_init_graph B H G A n hostname (root_graph G) = Some (s, w)"
  shows "acyclic (child_rel G (topology w)) \<and> nv G w = 1 + length (forest_objects ts) \<and>
    (\<forall>obj \<in> set (get_root_obj A # forest_objects ts). hwloc_cpu_affinity_mask B H A n obj \<noteq> None) \<and>
    (\<exists>r. lowest_containing_vertex B G srt w msk = Some r)"
proof -
  have G: "boost_graph G" using assms(1) by (simp add: topology_search_def)
  note build = hwloc_buildI [OF G assms(2)]
  have known: "\<forall>obj \<in> set (forest_objects ts). knows_type A obj"
    using assms(3) by (simp add: detected_def)
  obtain v w2 where forest: "build_forest B H G A n v ts w2 = Some w"
    and num: "nv G w2 = 1" and v: "v < nv G w2" and wf: "wf_world G w2"
    and arcs: "warcs G w2 = {#}" and dom: "dom (ids w2) = {''machine:'' @ hostname}"
    by (rule hwloc_build.init_graph_builds [OF build boost_graph.wf_root_graph [OF G] assms(3),
        of B H n hostname])
      (use assms(7) in \<open>auto intro: that
        simp: step_simps boost_graph.new_graph_simps [OF G]\<close>)
  have "i \<noteq> ''machine:'' @ hostname" if "i \<in> set (forest_identifiers A ts)" for i
    using that by (auto simp: forest_identifiers_def obj_identifier_def bdfid_identifier_def
        split: option.splits)
  then have fresh: "set (forest_identifiers A ts) \<inter> dom (ids w2) = {}" unfolding dom by blast
  have "increasing G (topology w2)" by (simp add: increasing_def child_rel_def arcs)
  from hwloc_build.build_forest_increasing [OF build wf v known this assms(4) fresh forest] num
  have w: "increasing G (topology w)" "nv G w = 1 + length (forest_objects ts)" by simp_all
  from topology_search.lowest_from_total [OF assms(1) increasing_acyclic [OF w(1)]]
  have "\<exists>r. lowest_containing_vertex B G srt w msk = Some r"
    by (simp add: lowest_containing_vertex_def)
  moreover have "\<forall>obj \<in> set (get_root_obj A # forest_objects ts). hwloc_cpu_affinity_mask B H A n obj \<noteq> None"
    using assms(1,5,6) machine_online_masks [of B H A n ts] by (simp add: topology_search_def)
  ultimately show ?thesis using increasing_acyclic [OF w(1)] w(2) by blast
qed

theorem hwloc_topology_searchable_witness:
  "\<exists>w r. ModuleHwloc_init_graph bool_list_ops index_list_ops adjlist_ops sample_api 2 ''h''
      (root_graph adjlist_ops) = Some (YLOC_STATUS_SUCCESS, w) \<and> nv adjlist_ops w = 5 \<and>
    lowest_containing_vertex bool_list_ops adjlist_ops insertion_sort w [True, False] = Some r"
proof -
  obtain v w2 w where run: "ModuleHwloc_init_graph bool_list_ops index_list_ops adjlist_ops sample_api
      2 ''h'' (root_graph adjlist_ops) = Some (YLOC_STATUS_SUCCESS, w)"
    by (rule hwloc_build.init_graph_builds [OF hwloc_buildI [OF boost_graph_adjlist hwloc_types_sample]
        adjlist.wf_root_graph sample_detected, of bool_list_ops index_list_ops 2 "''h''"]) (rule that)
  have "distinct (forest_identifiers sample_api sample_tree)"
    by (simp add: forest_identifiers_def sample_tree_def obj_identifier_def hwloc_bdfid_def
        hwloc_types.compare_types_zero [OF hwloc_types_sample])
  from hwloc_topology_searchable [OF topology_search_lists hwloc_types_sample sample_detected this
      hwloc_bitmap_index_list sample_online run]
  show ?thesis using run by (auto simp: sample_tree_def)
qed

end
