(* ===== verification/Pci_Names.thy ===== *)
theory Pci_Names
  imports Hwloc_Module
begin

text \<open>
  What the hwloc module leaves for the GPU modules: every PCI device of a detected machine has a
  vertex under the identifier of its bus address, of the type of a PCI device, and is reached
  from the root vertex by CHILD edges.
\<close>

section \<open>PCI devices under their addresses\<close>

text \<open>Every address that the graph knows belongs to a PCI device.\<close>

definition pci_named :: "'g bgl \<Rightarrow> ('g, 'b) world \<Rightarrow> bool" where
  "pci_named G w \<longleftrightarrow>
     (\<forall>b v. ids w (bdfid_identifier b) = Some v \<longrightarrow> is_a (m_type (vat G w v)) PCIDevice)"

lemma pci_known: "is_a t PCIDevice \<Longrightarrow> t \<noteq> UnknownComponentType"
  by (auto simp: is_a_eval)

context hwloc_build
begin

text \<open>The vertices after one child: that of the child is filled, and a new one is new.\<close>

lemma add_hwloc_child_at:
  assumes wf: "wf_world G w" and vd: "vd < nv G w" and t: "hwloc_2_yloc_type A child = Some t"
    and add: "add_hwloc_child B H G A n vd child w = Some (v, w')" and u: "u < nv G w'"
  shows "vat G w' u =
    (let x = (if u < nv G w then vat G w u else new_vertex)
     in if u = v then fill_vertex (hwloc_adapter B H A n child) (length (objects w)) t x else x)"
    and "\<forall>i. obj_identifier A child = Some i \<longrightarrow> ids w i = None \<Longrightarrow> v = nv G w"
proof -
  let ?c = "call_add_vertex G (obj_identifier A child) (topology w)" and ?u = "called n B H G A child w"
  have v: "v = fst ?c"
    using add unfolding add_hwloc_child_eq [OF t] Let_def by simp
  have w': "w' = fill_child G (hwloc_adapter B H A n child) (length (objects w)) t vd v ?u"
    using add unfolding add_hwloc_child_eq [OF t] Let_def v by simp
  have lt: "v < nv G ?u" "vd < nv G ?u"
    using call_less [of "topology w" "obj_identifier A child"] wf_world_graph [OF wf] vd
      num_call [of "topology w" "obj_identifier A child"] by (simp_all add: called_simps v)
  have "u < nv G ?u" using u by (simp add: w' fill_child_simps [OF lt])
  then have "vat G ?u u = (if u < nv G w then vat G w u else new_vertex)"
    using vertex_call_new [of "topology w" u "obj_identifier A child"]
      vertex_call_old [of u "topology w" "obj_identifier A child"]
    by (simp add: called_simps)
  with \<open>u < nv G ?u\<close> show "vat G w' u =
    (let x = (if u < nv G w then vat G w u else new_vertex)
     in if u = v then fill_vertex (hwloc_adapter B H A n child) (length (objects w)) t x else x)"
    by (cases "u = v") (simp_all add: w' fill_child_simps [OF lt] Let_def)
  show "\<forall>i. obj_identifier A child = Some i \<longrightarrow> ids w i = None \<Longrightarrow> v = nv G w"
    unfolding v using call_fresh(1) [of "obj_identifier A child" "topology w"] by simp
qed

lemma add_hwloc_child_fresh_type:
  assumes wf: "wf_world G w" and vd: "vd < nv G w" and t: "hwloc_2_yloc_type A child = Some t"
    and i: "obj_identifier A child = Some i" "ids w i = None"
    and add: "add_hwloc_child B H G A n vd child w = Some (v, w')" and v: "v < nv G w'"
  shows "m_type (vat G w' v) = t"
  using add_hwloc_child_at(1) [OF wf vd t add v] add_hwloc_child_at(2) [OF wf vd t add v] i
  by (simp add: Let_def)

lemma add_hwloc_child_named:
  assumes wf: "wf_world G w" and vd: "vd < nv G w" and named: "pci_named G w"
    and known: "knows_type A child"
    and add: "add_hwloc_child B H G A n vd child w = Some (v, w')"
  shows "pci_named G w'"
proof -
  obtain t where t: "hwloc_2_yloc_type A child = Some t" using type_known known by blast
  obtain v' w'' where "add_hwloc_child B H G A n vd child w = Some (v', w'')" and ext: "extends G w w''"
    and ids: "ids w'' = (case obj_identifier A child of None \<Rightarrow> ids w | Some i \<Rightarrow> (ids w)(i \<mapsto> v'))"
    and v'': "v' < nv G w''"
    by (rule add_hwloc_child_spec [OF wf vd known, of B H n]) (rule that)
  then have same: "v' = v" "w'' = w'" using add by simp_all
  note v = v'' [unfolded same]
  note e = extendsD [OF ext [unfolded same]]
  show ?thesis
    unfolding pci_named_def
  proof (intro allI impI)
    fix b u
    assume u: "ids w' (bdfid_identifier b) = Some u"
    show "is_a (m_type (vat G w' u)) PCIDevice"
    proof (cases "ids w (bdfid_identifier b)")
      case (Some x)
      then have "is_a (m_type (vat G w x)) PCIDevice" using named by (simp add: pci_named_def)
      moreover have "x = u" using e(3) [OF Some] u by simp
      ultimately show ?thesis
        using e(7) [OF wf_graphD(1) [OF wf_world_graph [OF wf] Some] pci_known] by simp
    next
      case None
      then have i: "obj_identifier A child = Some (bdfid_identifier b)" and "u = v"
        using u ids unfolding same by (auto split: option.splits if_splits)
      have "m_type (vat G w' v) = t" by (rule add_hwloc_child_fresh_type [OF wf vd t i None add v])
      moreover have "is_a t PCIDevice"
        using pci_type [OF t] bdfid_pci [of child] i by (auto simp: obj_identifier_def)
      ultimately show ?thesis using \<open>u = v\<close> by simp
    qed
  qed
qed

lemma build_forest_named:
  assumes "wf_world G w" and "vd < nv G w" and "\<forall>obj \<in> set (forest_objects ts). knows_type A obj"
    and "pci_named G w" and "build_forest B H G A n vd ts w = Some w'"
  shows "pci_named G w'"
  using assms
proof (induction ts arbitrary: vd w w' rule: forest_objects.induct)
  case 1
  then show ?case by simp
next
  case (2 obj cs ts)
  have known: "knows_type A obj" using "2.prems"(3) by simp
  obtain v w1 where add: "add_hwloc_child B H G A n vd obj w = Some (v, w1)"
    and wf1: "wf_world G w1" and v: "v < nv G w1" "vd < nv G w1"
    by (rule add_hwloc_child_spec [OF "2.prems"(1,2) known, of B H n]) (rule that)
  have one: "pci_named G w1"
    by (rule add_hwloc_child_named [OF "2.prems"(1,2,4) known add])
  have cs: "\<forall>obj \<in> set (forest_objects cs). knows_type A obj"
    and ts: "\<forall>obj \<in> set (forest_objects ts). knows_type A obj" using "2.prems"(3) by auto
  from build_forest_spec [OF wf1 v(1) cs, of B H n] obtain w2 where
    w2: "build_forest B H G A n v cs w1 = Some w2" and wf2: "wf_world G w2" and ext2: "extends G w1 w2"
    by auto
  have "vd < nv G w2" using v(2) extendsD(1) [OF ext2] by simp
  moreover have "build_forest B H G A n vd ts w2 = Some w'" using "2.prems"(5) add w2 by simp
  ultimately show ?case
    using "2.IH"(2) [OF wf2 _ ts "2.IH"(1) [OF wf1 v(1) cs one w2]] by blast
qed

end

text \<open>An object with an address is reached from where its tree hangs.\<close>

lemma forest_objects_in: "obj \<in> set (forest_objects cs) \<Longrightarrow> \<exists>c \<in> set cs. obj \<in> set (forest_objects [c])"
proof (induction cs)
  case (Cons c cs)
  then show ?case by (cases c) auto
qed simp

lemma hangs_reaches:
  "hangs B H G A n w vd t \<Longrightarrow> obj \<in> set (forest_objects [t]) \<Longrightarrow> obj_identifier A obj = Some i \<Longrightarrow>
     \<exists>v. ids w i = Some v \<and> (vd, v) \<in> (child_rel G (topology w))\<^sup>+"
proof (induction t arbitrary: vd)
  case (HNode x cs)
  obtain v where v: "(vd, v) \<in> child_rel G (topology w)"
      "case obj_identifier A x of Some i \<Rightarrow> ids w i = Some v
       | None \<Rightarrow> Some (m_type (vat G w v)) = hwloc_2_yloc_type A x"
      "\<forall>c \<in> set cs. hangs B H G A n w v c"
    using HNode.prems(1) by (auto simp: child_rel_def)
  show ?case
  proof (cases "obj = x")
    case True
    then show ?thesis using v(1,2) HNode.prems(3) by auto
  next
    case False
    then have "obj \<in> set (forest_objects cs)" using HNode.prems(2) by simp
    then obtain c where "c \<in> set cs" "obj \<in> set (forest_objects [c])"
      using forest_objects_in by metis
    then show ?thesis
      using HNode.IH v(1,3) HNode.prems(3) by (meson trancl_into_trancl2)
  qed
qed

lemma forest_reaches:
  assumes "\<forall>t \<in> set ts. hangs B H G A n w r t" and "obj \<in> set (forest_objects ts)"
    and "hwloc_bdfid A obj = Some b"
  shows "\<exists>v. ids w (bdfid_identifier b) = Some v \<and> (r, v) \<in> (child_rel G (topology w))\<^sup>+"
proof -
  obtain t where t: "t \<in> set ts" "obj \<in> set (forest_objects [t])"
    using forest_objects_in [OF assms(2)] by blast
  have "obj_identifier A obj = Some (bdfid_identifier b)" by (simp add: obj_identifier_def assms(3))
  from hangs_reaches [OF _ t(2) this] assms(1) t(1) show ?thesis by blast
qed

end
