(* ===== verification/Mpi_Module.thy ===== *)
theory Mpi_Module
  imports Topology_Util Yloc_Module
begin

text \<open>
  The MPI module: \<^verbatim>\<open>modules/mpi/mpi_adapter.h\<close> and \<^verbatim>\<open>modules/mpi/init_graph.cc\<close>. What MPI and the
  operating system return (whether MPI is initialised, the host name of this process, the host
  names and cpu sets that \<^verbatim>\<open>MPI_Allgather\<close> collects from all processes) are arguments. A host
  name is the C string up to its terminator.
\<close>

section \<open>The adapter\<close>

text \<open>
  \<^verbatim>\<open>MPIAdapter\<close> with its two members: the rank (a C \<^verbatim>\<open>int\<close>) and the mask.
\<close>

definition mpi_cpu_affinity_mask :: "'b bitset_ops \<Rightarrow> 'b \<Rightarrow> 'b option" where
  "mpi_cpu_affinity_mask B m_cpu_affinity_mask =
     (if bs_any B m_cpu_affinity_mask then Some m_cpu_affinity_mask else None)"

definition mpi_rank :: "32 word \<Rightarrow> u64 option" where
  "mpi_rank m_obj = Some (scast m_obj)"

definition mpi_adapter :: "'b bitset_ops \<Rightarrow> 32 word \<Rightarrow> 'b \<Rightarrow> 'b adapter" where
  "mpi_adapter B m_obj m_cpu_affinity_mask =
     override Adapter_mpi_rank (map_option U64 (mpi_rank m_obj))
      (override Adapter_numa_affinity None
        (override Adapter_cpu_affinity_mask
          (map_option Mask (mpi_cpu_affinity_mask B m_cpu_affinity_mask))
          (base_adapter\<lparr>to_str := decimal_int (sint m_obj)\<rparr>)))"

text \<open>
  \<^verbatim>\<open>adapter->set_cpu_affinity_mask(mask)\<close>: the object behind the pointer changes, also for the
  vertex that holds it already.
\<close>

definition set_cpu_affinity_mask ::
  "'b bitset_ops \<Rightarrow> ptr \<Rightarrow> 32 word \<Rightarrow> 'b \<Rightarrow> ('g, 'b) world \<Rightarrow> ('g, 'b) world" where
  "set_cpu_affinity_mask B p m_obj msk w = w\<lparr>objects := (objects w)[p := mpi_adapter B m_obj msk]\<rparr>"

section \<open>make_mpi_graph\<close>

definition rank_identifier :: "nat \<Rightarrow> string" where
  "rank_identifier i = ''mpi_rank:'' @ decimal i"

text \<open>
  The body of the loop for process \<open>i\<close> with its host name and cpu set; \<^verbatim>\<open>g\<close> is the root graph,
  which \<^verbatim>\<open>lowest_containing_vertex\<close> searches. \<open>None\<close> is a search that does not end.
\<close>

definition mpi_process ::
  "'b bitset_ops \<Rightarrow> 'g bgl \<Rightarrow> sorter \<Rightarrow> nat \<Rightarrow> string \<Rightarrow> nat \<Rightarrow> string \<Rightarrow> cpu_set_t \<Rightarrow>
     ('g, 'b) world \<Rightarrow> ('g, 'b) world option" where
  "mpi_process B G srt n hostname i hostname_i cpuset_i w =
     (let (node_vd, w1) = vertex_named G (''machine:'' @ hostname_i) w;
          (proc_vd, w2) = vertex_named G (rank_identifier i) w1;
          (p, w3) = make_shared (mpi_adapter B (of_nat i) (affinity_zero B n))
            (set_type G proc_vd MPIProcess w2);
          w4 = attach G proc_vd p w3;
          msk = affinity_of_cpuset B n cpuset_i
      in if hostname_i = hostname \<and> bs_any B msk
         then (let w5 = set_cpu_affinity_mask B p (of_nat i) msk w4
               in case lowest_containing_vertex B G srt w5 msk of
                    None \<Rightarrow> None
                  | Some node_vd' \<Rightarrow> Some (add_child G node_vd' proc_vd w5))
         else Some (add_child G node_vd proc_vd w4))"

text \<open>The loop from process \<open>i\<close> on, over the remaining rows of the gathered arrays.\<close>

fun mpi_processes ::
  "'b bitset_ops \<Rightarrow> 'g bgl \<Rightarrow> sorter \<Rightarrow> nat \<Rightarrow> string \<Rightarrow> nat \<Rightarrow> (string \<times> cpu_set_t) list \<Rightarrow>
     ('g, 'b) world \<Rightarrow> ('g, 'b) world option" where
  "mpi_processes B G srt n hostname i [] w = Some w"
| "mpi_processes B G srt n hostname i ((hostname_i, cpuset_i) # rows) w =
     Option.bind (mpi_process B G srt n hostname i hostname_i cpuset_i w)
       (mpi_processes B G srt n hostname (Suc i) rows)"

definition make_mpi_graph ::
  "'b bitset_ops \<Rightarrow> 'g bgl \<Rightarrow> sorter \<Rightarrow> nat \<Rightarrow> (string \<times> cpu_set_t) list \<Rightarrow> string \<Rightarrow>
     ('g, 'b) world \<Rightarrow> ('g, 'b) world option" where
  "make_mpi_graph B G srt n rows hostname w = mpi_processes B G srt n hostname 0 rows w"

definition ModuleMPI_init_graph ::
  "'b bitset_ops \<Rightarrow> 'g bgl \<Rightarrow> sorter \<Rightarrow> nat \<Rightarrow> bool \<Rightarrow> (string \<times> cpu_set_t) list \<Rightarrow> string \<Rightarrow>
     ('g, 'b) world \<Rightarrow> (yloc_status_t \<times> ('g, 'b) world) option" where
  "ModuleMPI_init_graph B G srt n initialized rows hostname w =
     (if \<not> initialized then Some (YLOC_STATUS_INIT_ERROR, w)
      else map_option (\<lambda>w'. (YLOC_STATUS_SUCCESS, w')) (make_mpi_graph B G srt n rows hostname w))"

text \<open>The constructor of the module.\<close>

definition ModuleMPI ::
  "(('g, 'b) world \<Rightarrow> (yloc_status_t \<times> ('g, 'b) world) option) \<Rightarrow> ('g, 'b) module" where
  "ModuleMPI f = (default_module f)\<lparr>m_init_order := SECOND\<rparr>"

section \<open>The adapter's answers\<close>

lemma mpi_adapter_typed [simp, intro]: "adapter_typed (mpi_adapter B r m)"
proof -
  have "adapter_typed (base_adapter\<lparr>to_str := s\<rparr>)" for s
    by (auto simp: adapter_typed_def dest: adapter_map_typed)
  then show ?thesis unfolding mpi_adapter_def by (intro override_typed) auto
qed

lemma mpi_adapter_simps [simp]:
  "vcall (mpi_adapter B r m) Adapter_mpi_rank = Some (U64 (scast r))"
  "vcall (mpi_adapter B r m) Adapter_cpu_affinity_mask =
     (if bs_any B m then Some (Mask m) else None)"
  "to_str (mpi_adapter B r m) = decimal_int (sint r)"
  by (simp_all add: mpi_adapter_def mpi_rank_def mpi_cpu_affinity_mask_def)

lemma mpi_adapter_rank [simp]: "adapter_get RT_uint64 ''mpi_rank'' (mpi_adapter B r m) = Some (U64 (scast r))"
  by (simp add: adapter_get_def make_property_pair_def supports_def property_value_def)

text \<open>What a vertex whose only adapter is an MPI adapter answers.\<close>

lemma mpi_vertex_get:
  assumes "m_adapters x = [p]" and "h ! p = mpi_adapter B r m"
  shows "get_uint64 h x ''mpi_rank'' = Some (scast r)"
    and "get_mask h x ''cpu_affinity_mask'' = (if bs_any B m then Some m else None)"
  using assms
  by (simp_all add: get_uint64_def get_mask_def get_def make_property_pair_def supports_def
      property_value_def)

section \<open>Graphs that keep their vertices\<close>

text \<open>
  A process adds a vertex of its own and leaves the vertices, the adapters and the edges that are
  there as they are.
\<close>

definition preserves :: "'g bgl \<Rightarrow> ('g, 'b) world \<Rightarrow> ('g, 'b) world \<Rightarrow> bool" where
  "preserves G w w' \<longleftrightarrow> nv G w \<le> nv G w' \<and> warcs G w \<subseteq># warcs G w' \<and> ids w \<subseteq>\<^sub>m ids w' \<and>
     (\<exists>new. objects w' = objects w @ new) \<and> (\<forall>v < nv G w. vat G w' v = vat G w v) \<and>
     m_root_vertex (topology w') = m_root_vertex (topology w)"

lemma preserves_refl [simp]: "preserves G w w"
  by (simp add: preserves_def)

lemma preserves_trans: "preserves G a b \<Longrightarrow> preserves G b c \<Longrightarrow> preserves G a c"
  unfolding preserves_def
  by (auto intro: map_le_trans subset_mset.order_trans order_less_le_trans)

lemma preserves_extends: "preserves G w w' \<Longrightarrow> extends G w w'"
  by (auto simp: preserves_def extends_def)

lemma preserves_get_mask:
  assumes "preserves G w w'" and "wf_world G w" and "v < nv G w"
  shows "get_mask (objects w') (vat G w' v) s = get_mask (objects w) (vat G w v) s"
  using assms by (auto simp: preserves_def wf_world_def)

lemma preserves_get_uint64:
  assumes "preserves G w w'" and "wf_world G w" and "v < nv G w"
  shows "get_uint64 (objects w') (vat G w' v) s = get_uint64 (objects w) (vat G w v) s"
  using assms by (auto simp: preserves_def wf_world_def get_uint64_def)

lemma preserves_qualifies:
  assumes "preserves G w w'" and "wf_world G w" and "v < nv G w"
  shows "qualifies B G w' msk v \<longleftrightarrow> qualifies B G w msk v"
proof -
  have same: "vat G w' v = vat G w v" using assms by (simp add: preserves_def)
  show ?thesis
    unfolding qualifies_def preserves_get_mask [OF assms] unfolding same by (rule refl)
qed

text \<open>Process \<open>i\<close> is in the topology: its vertex, its rank, its mask and its place.\<close>

definition process_at ::
  "'b bitset_ops \<Rightarrow> 'g bgl \<Rightarrow> nat \<Rightarrow> string \<Rightarrow> ('g, 'b) world \<Rightarrow> nat \<Rightarrow> string \<Rightarrow> cpu_set_t \<Rightarrow> bool" where
  "process_at B G n hostname w i hostname_i cpuset_i \<longleftrightarrow>
     (\<exists>proc_vd < nv G w. \<exists>node_vd < nv G w.
        ids w (rank_identifier i) = Some proc_vd \<and> m_type (vat G w proc_vd) = MPIProcess \<and>
        get_uint64 (objects w) (vat G w proc_vd) ''mpi_rank'' = Some (scast (of_nat i :: 32 word)) \<and>
        (node_vd, CHILD, proc_vd) \<in># warcs G w \<and> (proc_vd, PARENT, node_vd) \<in># warcs G w \<and>
        (let msk = affinity_of_cpuset B n cpuset_i
         in if hostname_i = hostname \<and> bs_any B msk
            then get_mask (objects w) (vat G w proc_vd) ''cpu_affinity_mask'' = Some msk \<and>
              (node_vd = m_root_vertex (topology w) \<or> qualifies B G w msk node_vd)
            else get_mask (objects w) (vat G w proc_vd) ''cpu_affinity_mask'' = None \<and>
              ids w (''machine:'' @ hostname_i) = Some node_vd))"

lemma process_atI:
  assumes "proc_vd < nv G w" and "node_vd < nv G w"
    and "ids w (rank_identifier i) = Some proc_vd" and "m_type (vat G w proc_vd) = MPIProcess"
    and "get_uint64 (objects w) (vat G w proc_vd) ''mpi_rank'' = Some (scast (of_nat i :: 32 word))"
    and "(node_vd, CHILD, proc_vd) \<in># warcs G w" and "(proc_vd, PARENT, node_vd) \<in># warcs G w"
    and "let msk = affinity_of_cpuset B n cs
      in if hn = hostname \<and> bs_any B msk
         then get_mask (objects w) (vat G w proc_vd) ''cpu_affinity_mask'' = Some msk \<and>
           (node_vd = m_root_vertex (topology w) \<or> qualifies B G w msk node_vd)
         else get_mask (objects w) (vat G w proc_vd) ''cpu_affinity_mask'' = None \<and>
           ids w (''machine:'' @ hn) = Some node_vd"
  shows "process_at B G n hostname w i hn cs"
  using assms unfolding process_at_def by blast

lemma root_add_child: "m_root_vertex (topology (add_child G u v w)) = m_root_vertex (topology w)"
  by (simp add: add_child_def graph_simps)

lemma process_at_preserves:
  assumes keep: "preserves G w w'" and wf: "wf_world G w"
    and at: "process_at B G n hostname w i hn cs"
  shows "process_at B G n hostname w' i hn cs"
proof -
  note e = extendsD [OF preserves_extends [OF keep]]
  let ?msk = "affinity_of_cpuset B n cs"
  obtain proc_vd node_vd where v: "proc_vd < nv G w" "node_vd < nv G w"
    and "ids w (rank_identifier i) = Some proc_vd" "m_type (vat G w proc_vd) = MPIProcess"
      "get_uint64 (objects w) (vat G w proc_vd) ''mpi_rank'' = Some (scast (of_nat i :: 32 word))"
      "(node_vd, CHILD, proc_vd) \<in># warcs G w" "(proc_vd, PARENT, node_vd) \<in># warcs G w"
    and place: "if hn = hostname \<and> bs_any B ?msk
      then get_mask (objects w) (vat G w proc_vd) ''cpu_affinity_mask'' = Some ?msk \<and>
        (node_vd = m_root_vertex (topology w) \<or> qualifies B G w ?msk node_vd)
      else get_mask (objects w) (vat G w proc_vd) ''cpu_affinity_mask'' = None \<and>
        ids w (''machine:'' @ hn) = Some node_vd"
    using at by (auto simp: process_at_def Let_def)
  moreover have "vat G w' proc_vd = vat G w proc_vd" "m_root_vertex (topology w') = m_root_vertex (topology w)"
    using keep v by (simp_all add: preserves_def)
  moreover have "if hn = hostname \<and> bs_any B ?msk
      then get_mask (objects w') (vat G w' proc_vd) ''cpu_affinity_mask'' = Some ?msk \<and>
        (node_vd = m_root_vertex (topology w') \<or> qualifies B G w' ?msk node_vd)
      else get_mask (objects w') (vat G w' proc_vd) ''cpu_affinity_mask'' = None \<and>
        ids w' (''machine:'' @ hn) = Some node_vd"
    using place e(3) keep
    unfolding preserves_get_mask [OF keep wf v(1)] preserves_qualifies [OF keep wf v(2)]
    by (auto simp: preserves_def)
  ultimately show ?thesis
    using e(1,2,3) preserves_get_uint64 [OF keep wf v(1)]
    by (intro process_atI [of proc_vd _ _ node_vd]) (simp_all add: Let_def)
qed

text \<open>
  The topology \<open>w4\<close> in which a new process has its own vertex, on top of a topology \<open>w\<close> without cycles of
  CHILD edges; it is still to be hung below another vertex.
\<close>

definition process_pending :: "'g bgl \<Rightarrow> 'b bitset_ops \<Rightarrow> nat \<Rightarrow> nat \<Rightarrow> string \<Rightarrow> ('g, 'b) world \<Rightarrow> vertex_t \<Rightarrow> vertex_t \<Rightarrow>
    ('g, 'b) world \<Rightarrow> bool" where
  "process_pending G B n i hn w node_vd proc_vd w4 \<longleftrightarrow> wf_world G w4 \<and> acyclic (child_rel G (topology w4)) \<and>
     node_vd < proc_vd \<and> proc_vd < nv G w4 \<and> nv G w \<le> proc_vd \<and> warcs G w4 = warcs G w \<and>
     proc_vd \<notin> Field (child_rel G (topology w4)) \<and>
     m_root_vertex (topology w4) = m_root_vertex (topology w) \<and>
     objects w4 = objects w @ [mpi_adapter B (of_nat i) (affinity_zero B n)] \<and> ids w \<subseteq>\<^sub>m ids w4 \<and>
     ids w4 = (ids w)(''machine:'' @ hn \<mapsto> node_vd, rank_identifier i \<mapsto> proc_vd) \<and>
     m_adapters (vat G w4 proc_vd) = [length (objects w)] \<and> m_type (vat G w4 proc_vd) = MPIProcess \<and>
     (\<forall>v < nv G w. vat G w4 v = vat G w v)"

section \<open>What one process does\<close>

locale mpi_build = topology_search G B srt
  for G :: "'g bgl" and B :: "'b bitset_ops" and srt :: sorter
begin

text \<open>One call of \<^verbatim>\<open>add_vertex\<close> by name.\<close>

lemma vertex_named_facts:
  assumes wf: "wf_world G w" and call: "vertex_named G i w = (v, w')"
  shows "wf_world G w'" and "v < nv G w'" and "nv G w \<le> nv G w'" and "ids w' = (ids w)(i \<mapsto> v)"
    and "ids w \<subseteq>\<^sub>m ids w'" and "warcs G w' = warcs G w"
    and "m_root_vertex (topology w') = m_root_vertex (topology w)" and "objects w' = objects w"
    and "u < nv G w' \<Longrightarrow> vat G w' u = (if u < nv G w then vat G w u else new_vertex)"
    and "ids w i = None \<Longrightarrow> v = nv G w"
proof -
  have g: "topology w' = snd (add_vertex G i (topology w))" and v: "v = fst (add_vertex G i (topology w))"
    and w': "w' = snd (vertex_named G i w)"
    using call by (auto simp: vertex_named_def)
  show "wf_world G w'" unfolding w' by (rule wf_vertex_named [OF wf])
  show "v < nv G w'" unfolding g v by (rule fst_add_vertex_less [OF wf_world_graph [OF wf]])
  show "nv G w \<le> nv G w'" unfolding g num_add_vertex_if by simp
  show "ids w' = (ids w)(i \<mapsto> v)" unfolding g v by (rule map_add_vertex)
  show "ids w \<subseteq>\<^sub>m ids w'" using extends_vertex_named [of w i] by (simp add: extends_def w')
  show "warcs G w' = warcs G w" unfolding g by (rule arcs_add_vertex)
  show "m_root_vertex (topology w') = m_root_vertex (topology w)" unfolding g by (simp add: graph_simps)
  show "objects w' = objects w" using call by (auto simp: vertex_named_def)
  show "vat G w' u = (if u < nv G w then vat G w u else new_vertex)" if "u < nv G w'"
    using that vertex_call_old [of u "topology w" "Some i"] vertex_call_new [of "topology w" u "Some i"]
    unfolding call_add_vertex_def option.case g [symmetric] by simp
  show "ids w i = None \<Longrightarrow> v = nv G w" unfolding v by (simp add: add_vertex_new)
qed

text \<open>The vertex of a process, with its type and its adapter.\<close>

lemma wf_new_process:
  assumes wf: "wf_world G w" and v: "v < nv G w"
  shows "wf_world G (attach G v (length (objects w))
    (snd (make_shared (mpi_adapter B r m) (set_type G v MPIProcess w))))" (is "wf_world G ?w")
proof -
  let ?h = "objects w @ [mpi_adapter B r m]"
  have heap: "heap_typed ?h" using wf by (simp add: wf_world_def)
  have w: "objects ?w = ?h" "nv G ?w = nv G w" "m_root_vertex (topology ?w) = m_root_vertex (topology w)"
    by (simp_all add: graph_simps)
  have at: "u < nv G w \<Longrightarrow> vat G ?w u = (if u = v then
      add_adapter (length (objects w)) (vat G w u\<lparr>m_type := MPIProcess\<rparr>) else vat G w u)" for u
    using v by (simp add: graph_simps)
  have "vertex_ok ?h (vat G ?w u)" if "u < nv G w" for u
  proof -
    have "vertex_ok (objects w) (vat G w u)" using wf that by (simp add: wf_world_def)
    from vertex_ok_append [OF heap this] show ?thesis
      using that heap by (auto simp: at vertex_ok_iff [OF heap])
  qed
  moreover have "wf_graph G (topology ?w)"
    using wf_world_graph [OF wf] v by (simp add: graph_simps wf_intros)
  ultimately show ?thesis using wf heap unfolding wf_world_def w by blast
qed

text \<open>The part before the test of the host name.\<close>

lemma mpi_process_cases:
  fixes n i hostname_i w
  assumes wf: "wf_world G w"
  obtains node_vd proc_vd w4 where
    "\<And>hostname cpuset_i. mpi_process B G srt n hostname i hostname_i cpuset_i w =
      (let msk = affinity_of_cpuset B n cpuset_i;
           w5 = set_cpu_affinity_mask B (length (objects w)) (of_nat i) msk w4
       in if hostname_i = hostname \<and> bs_any B msk
          then map_option (\<lambda>r. add_child G r proc_vd w5) (lowest_containing_vertex B G srt w5 msk)
          else Some (add_child G node_vd proc_vd w4))"
    and "wf_world G w4" and "node_vd < nv G w4" and "proc_vd < nv G w4" and "nv G w \<le> nv G w4"
    and "warcs G w4 = warcs G w" and "m_root_vertex (topology w4) = m_root_vertex (topology w)"
    and "objects w4 = objects w @ [mpi_adapter B (of_nat i) (affinity_zero B n)]"
    and "ids w4 = (ids w)(''machine:'' @ hostname_i \<mapsto> node_vd, rank_identifier i \<mapsto> proc_vd)"
    and "ids w \<subseteq>\<^sub>m ids w4"
    and "ids w (rank_identifier i) = None \<longrightarrow>
      nv G w \<le> proc_vd \<and> node_vd < proc_vd \<and> m_adapters (vat G w4 proc_vd) = [length (objects w)] \<and>
      m_type (vat G w4 proc_vd) = MPIProcess \<and> (\<forall>v < nv G w. vat G w4 v = vat G w v)"
    and "\<forall>v < nv G w4. m_type (vat G w4 v) \<in> {UnknownComponentType, MPIProcess} \<or>
      v < nv G w \<and> m_type (vat G w4 v) = m_type (vat G w v)"
proof -
  let ?a = "mpi_adapter B (of_nat i) (affinity_zero B n)"
  obtain node_vd w1 where call1: "vertex_named G (''machine:'' @ hostname_i) w = (node_vd, w1)" by fastforce
  obtain proc_vd w2 where call2: "vertex_named G (rank_identifier i) w1 = (proc_vd, w2)" by fastforce
  define w4 where "w4 = attach G proc_vd (length (objects w2)) (snd (make_shared ?a (set_type G proc_vd MPIProcess w2)))"
  note one = vertex_named_facts [OF wf call1]
  note two = vertex_named_facts [OF one(1) call2]
  have v: "node_vd < nv G w2" "nv G w \<le> nv G w2" using one(2,3) two(3) by simp_all
  have o2: "objects w2 = objects w" by (simp add: one(8) two(8))
  have w4: "nv G w4 = nv G w2" "warcs G w4 = warcs G w2" "ids w4 = ids w2"
      "m_root_vertex (topology w4) = m_root_vertex (topology w2)" "objects w4 = objects w @ [?a]"
    and at: "u < nv G w2 \<Longrightarrow> vat G w4 u = (if u = proc_vd then
        add_adapter (length (objects w)) (vat G w2 u\<lparr>m_type := MPIProcess\<rparr>) else vat G w2 u)" for u
    using two(2) by (simp_all add: w4_def graph_simps o2)
  show thesis
  proof
    show "mpi_process B G srt n hostname i hostname_i cpuset_i w =
      (let msk = affinity_of_cpuset B n cpuset_i;
           w5 = set_cpu_affinity_mask B (length (objects w)) (of_nat i) msk w4
       in if hostname_i = hostname \<and> bs_any B msk
          then map_option (\<lambda>r. add_child G r proc_vd w5) (lowest_containing_vertex B G srt w5 msk)
          else Some (add_child G node_vd proc_vd w4))" for hostname cpuset_i
      by (simp add: mpi_process_def call1 [simplified] call2 Let_def w4_def make_shared_def o2 set_type_def on_vertex_def
          split: option.split)
    show "wf_world G w4" unfolding w4_def by (rule wf_new_process [OF two(1,2)])
    show "node_vd < nv G w4" "proc_vd < nv G w4" "nv G w \<le> nv G w4" using v two(2) w4(1) by simp_all
    show "warcs G w4 = warcs G w" "m_root_vertex (topology w4) = m_root_vertex (topology w)"
      "objects w4 = objects w @ [?a]"
      "ids w4 = (ids w)(''machine:'' @ hostname_i \<mapsto> node_vd, rank_identifier i \<mapsto> proc_vd)"
      unfolding w4 one two by (rule refl)+
    show "ids w \<subseteq>\<^sub>m ids w4" unfolding w4 by (rule map_le_trans [OF one(5) two(5)])
    have old: "vat G w2 u = (if u < nv G w then vat G w u else new_vertex)" if "u < nv G w2" for u
      using one(9) [of u] two(9) [OF that] one(3) by auto
    then show "\<forall>v < nv G w4. m_type (vat G w4 v) \<in> {UnknownComponentType, MPIProcess} \<or>
      v < nv G w \<and> m_type (vat G w4 v) = m_type (vat G w v)"
      by (auto simp: at w4(1))
    show "ids w (rank_identifier i) = None \<longrightarrow>
      nv G w \<le> proc_vd \<and> node_vd < proc_vd \<and> m_adapters (vat G w4 proc_vd) = [length (objects w)] \<and>
      m_type (vat G w4 proc_vd) = MPIProcess \<and> (\<forall>v < nv G w. vat G w4 v = vat G w v)"
    proof
      assume "ids w (rank_identifier i) = None"
      moreover have "rank_identifier i \<noteq> ''machine:'' @ hostname_i" by (simp add: rank_identifier_def)
      ultimately have "ids w1 (rank_identifier i) = None" unfolding one(4) by (simp only: fun_upd_apply if_False)
      then have proc: "proc_vd = nv G w1" by (rule two(10))
      then show "nv G w \<le> proc_vd \<and> node_vd < proc_vd \<and>
          m_adapters (vat G w4 proc_vd) = [length (objects w)] \<and>
          m_type (vat G w4 proc_vd) = MPIProcess \<and> (\<forall>v < nv G w. vat G w4 v = vat G w v)"
        using one(2,3) two(2) v old by (auto simp: at)
    qed
  qed
qed

lemma set_mask_simps [graph_simps]:
  "topology (set_cpu_affinity_mask B p r m w) = topology w"
  "objects (set_cpu_affinity_mask B p r m w) = (objects w)[p := mpi_adapter B r m]"
  by (simp_all add: set_cpu_affinity_mask_def)

lemma vertex_ok_update:
  assumes "heap_typed h" and "vertex_ok h x"
  shows "vertex_ok (h[p := mpi_adapter B r m]) x"
proof -
  have t: "heap_typed (h[p := mpi_adapter B r m])" by (rule heap_typed_update [OF assms(1)]) simp
  have "adapter_get RT_uint64 ''mpi_rank'' (h[p := mpi_adapter B r m] ! a) \<noteq> None"
    if "adapter_get RT_uint64 ''mpi_rank'' (h ! a) \<noteq> None" "a < length h" for a
    using that by (cases "a = p") simp_all
  then show ?thesis
    using assms(2) unfolding vertex_ok_iff [OF t] vertex_ok_iff [OF assms(1)] adapters_valid_def
    by (metis length_list_update)
qed

lemma wf_set_mask: "wf_world G w \<Longrightarrow> wf_world G (set_cpu_affinity_mask B p r m w)"
  by (auto simp: wf_world_def graph_simps intro: heap_typed_update vertex_ok_update)

text \<open>The search stays in the graph, and finds the root or a component that contains the mask.\<close>

lemma lowest_reached:
  assumes "lowest_containing_vertex B G srt w msk = Some r"
  shows "r = m_root_vertex (topology w) \<or>
    (\<exists>u. (u, r) \<in> child_rel G (topology w)) \<and> qualifies B G w msk r"
proof -
  from assms have run: "lowest_from B G srt w msk (m_root_vertex (topology w)) = Some r"
    by (simp add: lowest_containing_vertex_def get_root_vertex_def)
  from lowest_from_correct [OF this]
  have "(m_root_vertex (topology w), r) \<in> (child_rel G (topology w))\<^sup>*"
    and "r = m_root_vertex (topology w) \<or> qualifies B G w msk r" by blast+
  then show ?thesis by (auto elim: rtranclE)
qed

lemma lowest_in_graph:
  assumes "wf_world G w" and "0 < nv G w" and "lowest_containing_vertex B G srt w msk = Some r"
  shows "r < nv G w"
  using lowest_reached [OF assms(3)]
proof
  assume "r = m_root_vertex (topology w)"
  with assms(1,2) show ?thesis by (auto simp: wf_world_def)
next
  assume "(\<exists>u. (u, r) \<in> child_rel G (topology w)) \<and> qualifies B G w msk r"
  then show ?thesis
    using wf_graphD(3) [OF wf_world_graph [OF assms(1)]] by (auto simp: child_rel_def)
qed

lemma mpi_process_keeps:
  assumes wf: "wf_world G w" and run: "mpi_process B G srt n hostname i hn cs w = Some w'"
  shows "wf_world G w' \<and> (paired G w \<longrightarrow> paired G w')"
proof -
  let ?msk = "affinity_of_cpuset B n cs"
  obtain node_vd proc_vd w4 where eq: "mpi_process B G srt n hostname i hn cs w =
      (let msk = ?msk; w5 = set_cpu_affinity_mask B (length (objects w)) (of_nat i) msk w4
       in if hn = hostname \<and> bs_any B msk
          then map_option (\<lambda>r. add_child G r proc_vd w5) (lowest_containing_vertex B G srt w5 msk)
          else Some (add_child G node_vd proc_vd w4))"
    and wf4: "wf_world G w4" and v: "node_vd < nv G w4" "proc_vd < nv G w4"
    and arcs4: "warcs G w4 = warcs G w"
    by (rule mpi_process_cases [OF wf, of n i hn]) (rule that)
  have pair4: "paired G w \<longrightarrow> paired G w4" using arcs4 by (simp add: paired_def)
  show ?thesis
  proof (cases "hn = hostname \<and> bs_any B ?msk")
    case False
    with eq run have "w' = add_child G node_vd proc_vd w4" by (auto simp: Let_def)
    then show ?thesis using wf_add_child [OF wf4 v] paired_add_child [OF _ v] pair4 by blast
  next
    case True
    define w5 where "w5 = set_cpu_affinity_mask B (length (objects w)) (of_nat i) ?msk w4"
    have wf5: "wf_world G w5" unfolding w5_def by (rule wf_set_mask [OF wf4])
    have v5: "proc_vd < nv G w5" "0 < nv G w5" using v(2) by (auto simp: w5_def graph_simps)
    have pair5: "paired G w \<longrightarrow> paired G w5" using pair4 by (simp add: paired_def w5_def graph_simps)
    from eq run True obtain r where r: "lowest_containing_vertex B G srt w5 ?msk = Some r"
      and w': "w' = add_child G r proc_vd w5"
      by (auto simp: w5_def [symmetric] Let_def split: option.splits)
    note r5 = lowest_in_graph [OF wf5 v5(2) r]
    show ?thesis using wf_add_child [OF wf5 r5 v5(1)] paired_add_child [OF _ r5 v5(1)] pair5 w' by blast
  qed
qed

lemma mpi_processes_keeps:
  "wf_world G w \<Longrightarrow> mpi_processes B G srt n hostname i rows w = Some w' \<Longrightarrow>
     wf_world G w' \<and> (paired G w \<longrightarrow> paired G w')"
proof (induction rows arbitrary: i w)
  case Nil
  then show ?case by simp
next
  case (Cons row rows)
  obtain hn cs where row: "row = (hn, cs)" by fastforce
  from Cons.prems(2) row obtain w1 where
    one: "mpi_process B G srt n hostname i hn cs w = Some w1"
    and rest: "mpi_processes B G srt n hostname (Suc i) rows w1 = Some w'"
    by (auto simp: bind_eq_Some_conv)
  note k = mpi_process_keeps [OF Cons.prems(1) one]
  from Cons.IH [OF conjunct1 [OF k] rest] k show ?case by blast
qed

lemma mpi_process_pending:
  assumes wf: "wf_world G w" and inc: "acyclic (child_rel G (topology w))" and new: "ids w (rank_identifier i) = None"
  obtains node_vd proc_vd w4 where "process_pending G B n i hn w node_vd proc_vd w4"
    and "\<And>hostname cs. mpi_process B G srt n hostname i hn cs w =
      (let msk = affinity_of_cpuset B n cs; w5 = set_cpu_affinity_mask B (length (objects w)) (of_nat i) msk w4
       in if hn = hostname \<and> bs_any B msk
          then map_option (\<lambda>r. add_child G r proc_vd w5) (lowest_containing_vertex B G srt w5 msk)
          else Some (add_child G node_vd proc_vd w4))"
proof -
  obtain node_vd proc_vd w4 where run: "\<And>hostname cs. mpi_process B G srt n hostname i hn cs w =
      (let msk = affinity_of_cpuset B n cs; w5 = set_cpu_affinity_mask B (length (objects w)) (of_nat i) msk w4
       in if hn = hostname \<and> bs_any B msk
          then map_option (\<lambda>r. add_child G r proc_vd w5) (lowest_containing_vertex B G srt w5 msk)
          else Some (add_child G node_vd proc_vd w4))"
    and pending: "wf_world G w4" "proc_vd < nv G w4" "m_root_vertex (topology w4) = m_root_vertex (topology w)"
      "objects w4 = objects w @ [mpi_adapter B (of_nat i) (affinity_zero B n)]"
      "ids w4 = (ids w)(''machine:'' @ hn \<mapsto> node_vd, rank_identifier i \<mapsto> proc_vd)" "ids w \<subseteq>\<^sub>m ids w4"
    and arcs: "warcs G w4 = warcs G w"
    and own: "ids w (rank_identifier i) = None \<longrightarrow>
      nv G w \<le> proc_vd \<and> node_vd < proc_vd \<and> m_adapters (vat G w4 proc_vd) = [length (objects w)] \<and>
      m_type (vat G w4 proc_vd) = MPIProcess \<and> (\<forall>v < nv G w. vat G w4 v = vat G w v)"
    by (rule mpi_process_cases [OF wf, of n i hn]) (rule that)
  have "acyclic (child_rel G (topology w4))" using inc by (simp add: child_rel_def arcs)
  moreover have "proc_vd \<notin> Field (child_rel G (topology w4))"
    using wf_graphD(3) [OF wf_world_graph [OF wf]] own new by (force simp: Field_def child_rel_def arcs)
  ultimately have "process_pending G B n i hn w node_vd proc_vd w4"
    using pending arcs own new unfolding process_pending_def by blast
  from that [OF this run] show thesis .
qed

text \<open>The two ways to hang it: below the vertex of its host, or below the lowest vertex with its mask.\<close>

lemma process_below_host:
  assumes pending: "process_pending G B n i hn w node_vd proc_vd w4"
    and elsewhere: "\<not> (hn = hostname \<and> bs_any B (affinity_of_cpuset B n cs))"
  defines "w' \<equiv> add_child G node_vd proc_vd w4"
  shows "wf_world G w' \<and> acyclic (child_rel G (topology w')) \<and> preserves G w w' \<and> process_at B G n hostname w' i hn cs \<and>
    dom (ids w') = {''machine:'' @ hn, rank_identifier i} \<union> dom (ids w)"
proof -
  note p = pending [unfolded process_pending_def]
  have v: "node_vd < nv G w4" "proc_vd < nv G w4" "node_vd < proc_vd" using p by auto
  have rank: "rank_identifier i \<noteq> ''machine:'' @ hn" by (simp add: rank_identifier_def)
  have vertex: "m_adapters (vat G w4 proc_vd) = [length (objects w)]" using p by blast
  have le: "ids w \<subseteq>\<^sub>m (ids w)(''machine:'' @ hn \<mapsto> node_vd, rank_identifier i \<mapsto> proc_vd)" using p by metis
  have "process_at B G n hostname w' i hn cs"
    unfolding w'_def
    using elsewhere p v rank mpi_vertex_get [OF vertex, of "objects w4" B "of_nat i" "affinity_zero B n"]
    by (intro process_atI [of proc_vd _ _ node_vd]) (auto simp: graph_simps any_bits Let_def)
  moreover have "preserves G w w'"
    using p v le by (simp add: w'_def preserves_def graph_simps add_child_def)
  moreover have "acyclic (child_rel G (topology w'))"
    unfolding w'_def by (rule acyclic_add_child [OF _ _ _ v(1,2)]) (use p v(3) in blast)+
  moreover have "dom (ids w') = {''machine:'' @ hn, rank_identifier i} \<union> dom (ids w)"
    unfolding w'_def add_child_simps(4) [OF v(1,2)] using p by auto
  moreover have "wf_world G w'" unfolding w'_def by (rule wf_add_child [OF _ v(1,2)]) (use p in blast)
  ultimately show ?thesis by blast
qed

lemma process_below_lowest:
  assumes wf: "wf_world G w" and pending: "process_pending G B n i hn w node_vd proc_vd w4"
    and here: "hn = hostname \<and> bs_any B (affinity_of_cpuset B n cs)"
  defines "w5 \<equiv> set_cpu_affinity_mask B (length (objects w)) (of_nat i) (affinity_of_cpuset B n cs) w4"
  shows "\<exists>r. lowest_containing_vertex B G srt w5 (affinity_of_cpuset B n cs) = Some r \<and>
    (let w' = add_child G r proc_vd w5 in wf_world G w' \<and> acyclic (child_rel G (topology w')) \<and> preserves G w w' \<and>
      process_at B G n hostname w' i hn cs \<and> dom (ids w') = {''machine:'' @ hn, rank_identifier i} \<union> dom (ids w))"
proof -
  let ?msk = "affinity_of_cpuset B n cs"
  note p = pending [unfolded process_pending_def]
  have rank: "rank_identifier i \<noteq> ''machine:'' @ hn" by (simp add: rank_identifier_def)
  have vertex: "m_adapters (vat G w4 proc_vd) = [length (objects w)]" using p by blast
  have le: "ids w \<subseteq>\<^sub>m (ids w)(''machine:'' @ hn \<mapsto> node_vd, rank_identifier i \<mapsto> proc_vd)" using p by metis
  have t5: "topology w5 = topology w4" "objects w5 = objects w @ [mpi_adapter B (of_nat i) ?msk]"
    using p by (simp_all add: w5_def graph_simps)
  have wf5: "wf_world G w5" unfolding w5_def by (rule wf_set_mask) (use p in blast)
  have v5: "proc_vd < nv G w5" "0 < nv G w5" using p by (auto simp: t5)
  have inc4: "acyclic (child_rel G (topology w4))" using p by blast
  obtain r where r: "lowest_containing_vertex B G srt w5 ?msk = Some r"
    using lowest_from_total [of w5] inc4
    by (auto simp: t5 lowest_containing_vertex_def)
  note r5 = lowest_in_graph [OF wf5 v5(2) r]
  have "r < nv G w \<or> r = 0"
    using lowest_reached [OF r] wf wf_graphD(3) [OF wf_world_graph [OF wf]] p
    by (auto simp: t5 child_rel_def wf_world_def)
  then have lt: "r < proc_vd" using p by auto
  let ?w = "add_child G r proc_vd w5"
  have "get_mask (objects ?w) (vat G ?w r) ''cpu_affinity_mask'' =
      get_mask (objects w5) (vat G w5 r) ''cpu_affinity_mask''"
    and same: "vat G ?w r = vat G w5 r"
    using r5 v5(1) by (simp_all add: graph_simps)
  then have qual: "qualifies B G w5 ?msk r \<Longrightarrow> qualifies B G ?w ?msk r"
    by (simp add: qualifies_def split: option.splits)
  have "process_at B G n hostname ?w i hn cs"
    using here v5 r5 p rank lowest_reached [OF r] qual
      mpi_vertex_get [OF vertex, of "objects w5" B "of_nat i" ?msk]
    by (intro process_atI [of proc_vd _ _ r]) (auto simp: graph_simps t5 Let_def root_add_child)
  moreover have "preserves G w ?w"
    using v5 r5 p le by (simp add: preserves_def graph_simps t5 add_child_def)
  moreover have "acyclic (child_rel G (topology ?w))"
    by (rule acyclic_add_child [OF _ _ _ r5 v5(1)]) (use p t5 lt in auto)
  moreover have "dom (ids ?w) = {''machine:'' @ hn, rank_identifier i} \<union> dom (ids w)"
    unfolding add_child_simps(4) [OF r5 v5(1)] t5 using p by auto
  ultimately show ?thesis using r wf_add_child [OF wf5 r5 v5(1)] by (auto simp: Let_def)
qed

text \<open>A new process, on a topology without cycles.\<close>

lemma mpi_process_new:
  assumes wf: "wf_world G w" and inc: "acyclic (child_rel G (topology w))"
    and new: "ids w (rank_identifier i) = None"
  shows "\<exists>w'. mpi_process B G srt n hostname i hn cs w = Some w' \<and> wf_world G w' \<and>
    acyclic (child_rel G (topology w')) \<and> preserves G w w' \<and> process_at B G n hostname w' i hn cs \<and>
    dom (ids w') = {''machine:'' @ hn, rank_identifier i} \<union> dom (ids w)"
proof (rule mpi_process_pending [OF assms, of n hn], goal_cases)
  case (1 node_vd proc_vd w4)
  show ?thesis
  proof (cases "hn = hostname \<and> bs_any B (affinity_of_cpuset B n cs)")
    case False
    show ?thesis unfolding 1(2) Let_def if_not_P [OF False] using process_below_host [OF 1(1) False] by simp
  next
    case True
    show ?thesis unfolding 1(2) Let_def if_P [OF True] using process_below_lowest [OF wf 1(1) True]
      by (auto simp: Let_def)
  qed
qed

lemma mpi_processes_new:
  "wf_world G w \<Longrightarrow> acyclic (child_rel G (topology w)) \<Longrightarrow>
     \<forall>j < length rows. ids w (rank_identifier (i + j)) = None \<Longrightarrow>
     \<exists>w'. mpi_processes B G srt n hostname i rows w = Some w' \<and> wf_world G w' \<and>
       acyclic (child_rel G (topology w')) \<and> preserves G w w' \<and>
       (\<forall>j < length rows. process_at B G n hostname w' (i + j) (fst (rows ! j)) (snd (rows ! j)))"
proof (induction rows arbitrary: i w)
  case Nil
  then show ?case by simp
next
  case (Cons row rows)
  obtain hn cs where row: "row = (hn, cs)" by fastforce
  have "ids w (rank_identifier i) = None" using Cons.prems(3) by fastforce
  from mpi_process_new [OF Cons.prems(1,2) this, of n hostname hn cs] obtain w1 where
    one: "mpi_process B G srt n hostname i hn cs w = Some w1" "wf_world G w1"
      "acyclic (child_rel G (topology w1))" "preserves G w w1" "process_at B G n hostname w1 i hn cs"
    and dom: "dom (ids w1) = {''machine:'' @ hn, rank_identifier i} \<union> dom (ids w)"
    by blast
  have "ids w1 (rank_identifier (Suc i + j)) = None" if "j < length rows" for j
  proof -
    have "ids w (rank_identifier (Suc i + j)) = None" using Cons.prems(3) that by fastforce
    then have "rank_identifier (Suc i + j) \<notin> dom (ids w1)"
      unfolding dom by (auto simp: rank_identifier_def)
    then show ?thesis by blast
  qed
  from Cons.IH [OF one(2,3), of "Suc i"] this obtain w' where
    rest: "mpi_processes B G srt n hostname (Suc i) rows w1 = Some w'" "wf_world G w'"
      "acyclic (child_rel G (topology w'))" "preserves G w1 w'"
      "\<forall>j < length rows. process_at B G n hostname w' (Suc i + j) (fst (rows ! j)) (snd (rows ! j))"
    by blast
  have "process_at B G n hostname w' (i + j) (fst ((row # rows) ! j)) (snd ((row # rows) ! j))"
    if "j < length (row # rows)" for j
    using that rest(5) process_at_preserves [OF rest(4) one(2,5)] by (cases j) (auto simp: row)
  then show ?case
    using one(1) rest preserves_trans [OF one(4) rest(4)] by (intro exI [of _ w']) (simp add: row)
qed

lemma init_graph_contract: "module_contract G (ModuleMPI_init_graph B G srt n initialized rows hostname)"
proof
  show "wf_world G w'" if "wf_world G w"
    and "ModuleMPI_init_graph B G srt n initialized rows hostname w = Some (s, w')" for w s w'
    using that mpi_processes_keeps
    by (auto simp: ModuleMPI_init_graph_def make_mpi_graph_def split: if_splits)
  show "paired G w'" if "wf_world G w" and "paired G w"
    and "ModuleMPI_init_graph B G srt n initialized rows hostname w = Some (s, w')" for w s w'
    using that mpi_processes_keeps
    by (auto simp: ModuleMPI_init_graph_def make_mpi_graph_def split: if_splits)
qed

end

section \<open>The interfaces, on the module\<close>

interpretation mpi_lists: mpi_build adjlist_ops bool_list_ops insertion_sort
  by unfold_locales

interpretation mpi_contract: module_contract adjlist_ops
  "ModuleMPI_init_graph bool_list_ops adjlist_ops insertion_sort n initialized rows hostname"
  for n :: nat and initialized :: bool and rows :: "(string \<times> cpu_set_t) list" and hostname :: string
  by (rule mpi_lists.init_graph_contract)

lemma mpi_buildI: "topology_search G B srt \<Longrightarrow> mpi_build G B srt"
  by (rule mpi_build.intro)

section \<open>Properties\<close>

text \<open>
  C3. Placement of processes: on any topology without cycles of CHILD edges and without vertices of these
  ranks, \<^verbatim>\<open>make_mpi_graph\<close> returns, and every process has its own vertex \<^verbatim>\<open>mpi_rank:<i>\<close> of type
  \<open>MPIProcess\<close> with its rank. A process of this host with a mask reports that mask and hangs
  below the root vertex or below a component whose mask contains it; any other process reports
  no mask and hangs below the vertex of its host. Vertices, edges and adapters made before stay
  as they were.
\<close>

theorem make_mpi_graph_places:
  assumes "topology_search G B srt" and "wf_world G w" and "acyclic (child_rel G (topology w))"
    and "\<forall>i < length rows. ids w (rank_identifier i) = None"
  shows "\<exists>w'. make_mpi_graph B G srt n rows hostname w = Some w' \<and> preserves G w w' \<and>
    (\<forall>i < length rows. process_at B G n hostname w' i (fst (rows ! i)) (snd (rows ! i)))"
  using mpi_build.mpi_processes_new [OF mpi_buildI [OF assms(1)] assms(2,3), of rows 0 n hostname] assms(4)
  by (auto simp: make_mpi_graph_def)

theorem make_mpi_graph_places_witness:
  "\<exists>w'. make_mpi_graph bool_list_ops adjlist_ops insertion_sort 2 [(''a'', 1), (''b'', 2)] ''a''
      (root_graph adjlist_ops) = Some w' \<and>
    process_at bool_list_ops adjlist_ops 2 ''a'' w' 0 ''a'' 1 \<and>
    process_at bool_list_ops adjlist_ops 2 ''a'' w' (Suc 0) ''b'' 2"
proof -
  have "\<forall>i < length [(''a'', 1 :: cpu_set_t), (''b'', 2)].
      ids (root_graph adjlist_ops) (rank_identifier i) = None"
    by (simp add: step_simps new_graph_def)
  from make_mpi_graph_places [OF topology_search_lists adjlist.wf_root_graph
      increasing_acyclic [OF adjlist.increasing_root_graph] this, of 2 "''a''"]
  show ?thesis by (auto simp: All_less_Suc)
qed

text \<open>
  \<^verbatim>\<open>ModuleMPI::init_graph\<close> without MPI changes nothing and says so; whenever it returns, it has
  kept the invariants of the topology (for any topology, even with cycles or with processes in
  it).
\<close>

lemma ModuleMPI_init_graph_keeps:
  assumes "topology_search G B srt" and "wf_world G w"
    and "ModuleMPI_init_graph B G srt n initialized rows hostname w = Some (s, w')"
  shows "wf_world G w' \<and> (paired G w \<longrightarrow> paired G w') \<and>
    (if initialized then s = YLOC_STATUS_SUCCESS else s = YLOC_STATUS_INIT_ERROR \<and> w' = w)"
proof -
  note c = mpi_build.init_graph_contract [OF mpi_buildI [OF assms(1)]]
  show ?thesis
    using module_contract.keeps_wf [OF c assms(2,3)] module_contract.keeps_paired [OF c assms(2) _ assms(3)]
      assms(3)
    by (auto simp: ModuleMPI_init_graph_def split: if_splits)
qed

text \<open>
  Ranks are not distorted by the conversions from C \<^verbatim>\<open>int\<close>: a rank below \<open>2 ^ 31\<close> is reported as
  itself and printed in decimal, and an adapter made without a mask reports none.
\<close>

lemma mpi_adapter_reports:
  assumes "dynamic_bitset B" and "i < 2 ^ 31"
  shows "property_value (snd (make_property_pair ''mpi_rank'' Adapter_mpi_rank))
      (mpi_adapter B (of_nat i) m) = Some (U64 (of_nat i)) \<and> unat (of_nat i :: u64) = i \<and>
    to_str (mpi_adapter B (of_nat i) m) = decimal i \<and>
    vcall (mpi_adapter B (of_nat i) (affinity_zero B n)) Adapter_cpu_affinity_mask = None"
proof -
  have rank: "sint (of_nat i :: 32 word) = int i"
    using assms(2) by (simp add: signed_of_nat signed_take_bit_int_eq_self)
  have "scast (of_nat i :: 32 word) = (of_int (sint (of_nat i :: 32 word)) :: u64)"
    by (rule of_int_sint [symmetric])
  then have "scast (of_nat i :: 32 word) = (of_nat i :: u64)" unfolding rank by simp
  moreover have "unat (of_nat i :: u64) = i"
    using assms(2) by (simp add: unat_of_nat take_bit_nat_eq_self)
  ultimately show ?thesis
    using dynamic_bitset.any_bits [OF assms(1)] dynamic_bitset.bits_zero [OF assms(1)]
    by (simp add: property_value_def make_property_pair_def rank decimal_int_def)
qed

end
