(* ===== verification/Gpu_Link.thy ===== *)
theory Gpu_Link
  imports Topology
begin

text \<open>
  The loops of \<^verbatim>\<open>yloc_nvml_gpu_interconnect\<close> and \<^verbatim>\<open>yloc_rocm_gpu_interconnect\<close>: for every pair of
  devices that the library reports as directly linked, a pair of GPU_INTERCONNECT edges. The
  two functions differ only in the question they ask the library, which is an argument here.
\<close>

section \<open>The loops\<close>

text \<open>The pairs \<^verbatim>\<open>dev_ind_src < dev_ind_dst\<close>, in the order of the two loops.\<close>

definition device_pairs :: "nat \<Rightarrow> (nat \<times> nat) list" where
  "device_pairs num_devices =
     concat (map (\<lambda>src. map (Pair src) [Suc src..<num_devices]) [0..<num_devices])"

text \<open>The body of the loops; the counter has 64 bits.\<close>

definition link_devices :: "'g bgl \<Rightarrow> (nat \<Rightarrow> nat \<Rightarrow> bool) \<Rightarrow> vertex_t list \<Rightarrow> nat \<times> nat \<Rightarrow>
    u64 \<times> ('g, 'b) world \<Rightarrow> u64 \<times> ('g, 'b) world" where
  "link_devices G direct vertices pr state =
     (case (pr, state) of ((src, dst), (num_interconnects, w)) \<Rightarrow>
        if direct src dst then
          (num_interconnects + 1,
           connect G (vertices ! dst) (vertices ! src) GPU_INTERCONNECT
             (connect G (vertices ! src) (vertices ! dst) GPU_INTERCONNECT w))
        else state)"

definition gpu_interconnect :: "'g bgl \<Rightarrow> (nat \<Rightarrow> nat \<Rightarrow> bool) \<Rightarrow> nat \<Rightarrow> vertex_t list \<Rightarrow>
    ('g, 'b) world \<Rightarrow> u64 \<times> ('g, 'b) world" where
  "gpu_interconnect G direct num_devices vertices w =
     fold (link_devices G direct vertices) (device_pairs num_devices) (0, w)"

section \<open>What they add\<close>

lemma set_device_pairs: "set (device_pairs n) = {(i, j). i < j \<and> j < n}"
  by (force simp: device_pairs_def)

lemma distinct_device_pairs: "distinct (device_pairs n)"
  unfolding device_pairs_def
  by (rule distinct_concat)
    (auto simp: distinct_map inj_on_def dest!: arg_cong [where f = "\<lambda>xs. length xs"])

definition link_arcs :: "vertex_t list \<Rightarrow> nat \<times> nat \<Rightarrow> (vertex_t \<times> edge_type \<times> vertex_t) multiset" where
  "link_arcs vertices pr =
     {#(vertices ! fst pr, GPU_INTERCONNECT, vertices ! snd pr),
       (vertices ! snd pr, GPU_INTERCONNECT, vertices ! fst pr)#}"

context boost_graph
begin

lemma fold_link_devices:
  assumes "wf_world G w" and "\<forall>v \<in> set vertices. v < nv G w"
    and "\<forall>pr \<in> set ps. fst pr < length vertices \<and> snd pr < length vertices"
  shows "\<exists>w'. fold (link_devices G direct vertices) ps (k, w) =
      (k + of_nat (length (filter (case_prod direct) ps)), w') \<and>
    wf_world G w' \<and> nv G w' = nv G w \<and> (\<forall>v. vat G w' v = vat G w v) \<and> ids w' = ids w \<and>
    objects w' = objects w \<and> m_root_vertex (topology w') = m_root_vertex (topology w) \<and>
    warcs G w' = warcs G w + sum_list (map (link_arcs vertices) (filter (case_prod direct) ps))"
  using assms
proof (induction ps arbitrary: k w)
  case Nil
  then show ?case by simp
next
  case (Cons pr ps)
  obtain src dst where pr: "pr = (src, dst)" by fastforce
  have v: "vertices ! src < nv G w" "vertices ! dst < nv G w"
    using Cons.prems(2,3) by (auto simp: pr)
  show ?case
  proof (cases "direct src dst")
    case False
    with Cons.IH [OF Cons.prems(1,2), of k] Cons.prems(3) show ?thesis
      by (simp add: pr link_devices_def)
  next
    case True
    define w1 where "w1 = connect G (vertices ! dst) (vertices ! src) GPU_INTERCONNECT
      (connect G (vertices ! src) (vertices ! dst) GPU_INTERCONNECT w)"
    have w1: "wf_world G w1" "nv G w1 = nv G w" "\<forall>v. vat G w1 v = vat G w v" "ids w1 = ids w"
      "objects w1 = objects w" "m_root_vertex (topology w1) = m_root_vertex (topology w)"
      "warcs G w1 = warcs G w + link_arcs vertices pr"
      using v Cons.prems(1) by (auto simp: w1_def graph_simps link_arcs_def pr intro!: wf_connect)
    have "\<forall>v \<in> set vertices. v < nv G w1" using Cons.prems(2) w1(2) by simp
    from Cons.IH [OF w1(1) this, of "k + 1"] Cons.prems(3) w1(2-) True show ?thesis
      by (simp add: pr link_devices_def w1_def [symmetric] ac_simps)
  qed
qed

end

text \<open>The pairs of linked devices, each once.\<close>

definition linked_pairs :: "(nat \<Rightarrow> nat \<Rightarrow> bool) \<Rightarrow> nat \<Rightarrow> (nat \<times> nat) set" where
  "linked_pairs direct n = {(i, j). i < j \<and> j < n \<and> direct i j}"

lemma length_linked: "length (filter (case_prod direct) (device_pairs n)) = card (linked_pairs direct n)"
proof -
  have "distinct (filter (case_prod direct) (device_pairs n))"
    by (simp add: distinct_device_pairs)
  then have "length (filter (case_prod direct) (device_pairs n)) =
      card (set (filter (case_prod direct) (device_pairs n)))"
    by (rule distinct_card [symmetric])
  also have "set (filter (case_prod direct) (device_pairs n)) = linked_pairs direct n"
    by (auto simp: set_device_pairs linked_pairs_def)
  finally show ?thesis .
qed

lemma size_link_arcs: "size (sum_list (map (link_arcs vertices) ps)) = 2 * length ps"
  by (induction ps) (simp_all add: link_arcs_def)

lemma count_both_ways:
  "count {#(a, t, b), (b, t, a)#} (u, t, v) = count {#(a, t, b), (b, t, a)#} (v, t, u)"
  by (cases "a = u"; cases "b = v"; cases "a = v"; cases "b = u") simp_all

lemma count_link_arcs:
  "count (sum_list (map (link_arcs vertices) ps)) (u, GPU_INTERCONNECT, v) =
     count (sum_list (map (link_arcs vertices) ps)) (v, GPU_INTERCONNECT, u)"
proof (induction ps)
  case (Cons pr ps)
  have "count (link_arcs vertices pr) (u, GPU_INTERCONNECT, v) =
      count (link_arcs vertices pr) (v, GPU_INTERCONNECT, u)"
    unfolding link_arcs_def by (rule count_both_ways)
  then show ?case
    unfolding list.map sum_list.Cons plus_multiset.rep_eq Cons.IH by simp
qed simp

lemma reversed_link_arcs:
  "image_mset reversed (sum_list (map (link_arcs vertices) ps)) = sum_list (map (link_arcs vertices) ps)"
  by (induction ps) (simp_all add: link_arcs_def add_mset_commute)

lemma in_link_arcs:
  "a \<in># sum_list (map (link_arcs vertices) ps) \<longleftrightarrow> (\<exists>pr \<in> set ps. a \<in># link_arcs vertices pr)"
  by (induction ps) auto

text \<open>The specification of the two loops.\<close>

definition interconnected :: "'g bgl \<Rightarrow> (nat \<Rightarrow> nat \<Rightarrow> bool) \<Rightarrow> nat \<Rightarrow> vertex_t list \<Rightarrow>
    ('g, 'b) world \<Rightarrow> ('g, 'b) world \<Rightarrow> bool" where
  "interconnected G direct n vertices w w' \<longleftrightarrow>
     (\<forall>u t v. (u, t, v) \<in># warcs G w' \<longleftrightarrow> (u, t, v) \<in># warcs G w \<or>
        (t = GPU_INTERCONNECT \<and> (\<exists>(i, j) \<in> linked_pairs direct n.
           {u, v} = {vertices ! i, vertices ! j}))) \<and>
     size (warcs G w') = size (warcs G w) + 2 * card (linked_pairs direct n) \<and>
     (\<forall>u v. count (warcs G w) (u, GPU_INTERCONNECT, v) = count (warcs G w) (v, GPU_INTERCONNECT, u) \<longrightarrow>
        count (warcs G w') (u, GPU_INTERCONNECT, v) = count (warcs G w') (v, GPU_INTERCONNECT, u))"

context boost_graph
begin

lemma gpu_interconnect_spec:
  assumes "wf_world G w" and "\<forall>v \<in> set vertices. v < nv G w" and "length vertices = n"
  shows "\<exists>w'. gpu_interconnect G direct n vertices w = (of_nat (card (linked_pairs direct n)), w') \<and>
    wf_world G w' \<and> (paired G w \<longrightarrow> paired G w') \<and> nv G w' = nv G w \<and>
    (\<forall>v. vat G w' v = vat G w v) \<and> ids w' = ids w \<and> objects w' = objects w \<and>
    m_root_vertex (topology w') = m_root_vertex (topology w) \<and>
    child_rel G (topology w') = child_rel G (topology w) \<and> interconnected G direct n vertices w w'"
proof -
  let ?ps = "filter (case_prod direct) (device_pairs n)"
  have "\<forall>pr \<in> set (device_pairs n). fst pr < length vertices \<and> snd pr < length vertices"
    by (auto simp: set_device_pairs assms(3))
  from fold_link_devices [OF assms(1,2) this, of direct 0] obtain w' where
    run: "gpu_interconnect G direct n vertices w = (of_nat (card (linked_pairs direct n)), w')"
    and keep: "wf_world G w'" "nv G w' = nv G w" "\<forall>v. vat G w' v = vat G w v" "ids w' = ids w"
      "objects w' = objects w" "m_root_vertex (topology w') = m_root_vertex (topology w)"
    and arcs: "warcs G w' = warcs G w + sum_list (map (link_arcs vertices) ?ps)"
    by (auto simp: gpu_interconnect_def length_linked)
  have member: "(u, t, v) \<in># sum_list (map (link_arcs vertices) ?ps) \<longleftrightarrow>
      t = GPU_INTERCONNECT \<and> (\<exists>(i, j) \<in> linked_pairs direct n. {u, v} = {vertices ! i, vertices ! j})"
    for u t v
    unfolding in_link_arcs
    by (auto simp: set_device_pairs linked_pairs_def link_arcs_def doubleton_eq_iff)
  have "interconnected G direct n vertices w w'"
    unfolding interconnected_def
  proof (intro conjI allI impI)
    show "size (warcs G w') = size (warcs G w) + 2 * card (linked_pairs direct n)"
      by (simp add: arcs size_link_arcs length_linked)
  next
    fix u v
    assume "count (warcs G w) (u, GPU_INTERCONNECT, v) = count (warcs G w) (v, GPU_INTERCONNECT, u)"
    then show "count (warcs G w') (u, GPU_INTERCONNECT, v) = count (warcs G w') (v, GPU_INTERCONNECT, u)"
      unfolding arcs plus_multiset.rep_eq count_link_arcs [of vertices ?ps u v] by simp
  next
    fix u t v
    show "(u, t, v) \<in># warcs G w' \<longleftrightarrow> (u, t, v) \<in># warcs G w \<or>
        (t = GPU_INTERCONNECT \<and> (\<exists>(i, j) \<in> linked_pairs direct n.
           {u, v} = {vertices ! i, vertices ! j}))"
      unfolding arcs using member by simp
  qed
  moreover have "paired G w \<longrightarrow> paired G w'"
    by (simp add: paired_def arcs reversed_link_arcs)
  moreover have "child_rel G (topology w') = child_rel G (topology w)"
    unfolding child_rel_def arcs using member by auto
  ultimately show ?thesis using run keep by blast
qed

end

section \<open>Marking vertices as GPUs\<close>

text \<open>
  What the loops over the devices do before: vertices get adapters and the type \<open>GPU\<close>; nothing
  else changes for the vertices that were there.
\<close>

definition marks :: "'g bgl \<Rightarrow> ('g, 'b) world \<Rightarrow> ('g, 'b) world \<Rightarrow> bool" where
  "marks G w w' \<longleftrightarrow> nv G w \<le> nv G w' \<and> warcs G w' = warcs G w \<and> ids w \<subseteq>\<^sub>m ids w' \<and>
     m_root_vertex (topology w') = m_root_vertex (topology w) \<and>
     (\<exists>new. objects w' = objects w @ new) \<and>
     (\<forall>v < nv G w. (\<exists>ps. m_adapters (vat G w' v) = m_adapters (vat G w v) @ ps) \<and>
        (m_type (vat G w' v) = m_type (vat G w v) \<or> m_type (vat G w' v) = GPU))"

lemma marks_refl [simp]: "marks G w w"
  by (simp add: marks_def)

lemma marks_trans:
  assumes ab: "marks G a b" and bc: "marks G b c"
  shows "marks G a c"
  unfolding marks_def
proof (intro conjI allI impI)
  show "nv G a \<le> nv G c" "warcs G c = warcs G a" "ids a \<subseteq>\<^sub>m ids c"
    "m_root_vertex (topology c) = m_root_vertex (topology a)" "\<exists>new. objects c = objects a @ new"
    using assms by (auto simp: marks_def intro: map_le_trans)
  fix v
  assume v: "v < nv G a"
  with ab have v': "v < nv G b" by (simp add: marks_def)
  obtain ps qs where "m_adapters (vat G b v) = m_adapters (vat G a v) @ ps"
    "m_adapters (vat G c v) = m_adapters (vat G b v) @ qs"
    using ab bc v v' unfolding marks_def by blast
  then show "\<exists>ps. m_adapters (vat G c v) = m_adapters (vat G a v) @ ps" by simp
  show "m_type (vat G c v) = m_type (vat G a v) \<or> m_type (vat G c v) = GPU"
    using ab bc v v' unfolding marks_def by metis
qed

text \<open>The component of an identifier is a GPU and holds a given adapter.\<close>

definition gpu_at :: "'g bgl \<Rightarrow> ('g, 'b) world \<Rightarrow> string \<Rightarrow> vertex_t \<Rightarrow> 'b adapter \<Rightarrow> bool" where
  "gpu_at G w i v a \<longleftrightarrow> ids w i = Some v \<and> v < nv G w \<and> m_type (vat G w v) = GPU \<and>
     (\<exists>p \<in> set (m_adapters (vat G w v)). p < length (objects w) \<and> objects w ! p = a)"

lemma gpu_at_marks:
  assumes "marks G w w'" and "gpu_at G w i v a"
  shows "gpu_at G w' i v a"
proof -
  from assms(2) obtain p where at: "ids w i = Some v" "v < nv G w" "m_type (vat G w v) = GPU"
      "p \<in> set (m_adapters (vat G w v))" "p < length (objects w)" "objects w ! p = a"
    by (auto simp: gpu_at_def)
  from assms(1) at obtain new ps where "objects w' = objects w @ new"
    "m_adapters (vat G w' v) = m_adapters (vat G w v) @ ps" "m_type (vat G w' v) = GPU"
    "nv G w \<le> nv G w'" "ids w \<subseteq>\<^sub>m ids w'"
    unfolding marks_def by auto
  with at show ?thesis
    unfolding gpu_at_def by (auto simp: nth_append map_le_def dom_def intro!: bexI [of _ p])
qed

lemma gpu_at_cong:
  assumes "ids w' = ids w" and "nv G w' = nv G w" and "\<forall>v. vat G w' v = vat G w v"
    and "objects w' = objects w"
  shows "gpu_at G w' i v a \<longleftrightarrow> gpu_at G w i v a"
  using assms by (simp add: gpu_at_def)

lemma gpu_at_extends:
  assumes "extends G w w'" and "gpu_at G w i v a"
  shows "gpu_at G w' i v a"
proof -
  note e = extendsD [OF assms(1)]
  obtain p where at: "ids w i = Some v" "v < nv G w" "m_type (vat G w v) = GPU"
      "p \<in> set (m_adapters (vat G w v))" "p < length (objects w)" "objects w ! p = a"
    using assms(2) by (auto simp: gpu_at_def)
  have "m_type (vat G w' v) = GPU" using e(7) [OF at(2)] at(3) by simp
  then show ?thesis
    unfolding gpu_at_def using at e(1,5) e(3) [OF at(1)] e(4) [OF at(5)] e(6) [OF at(2,4)]
    by (auto intro!: bexI [of _ p])
qed

text \<open>One device: its vertex gets the adapter and the type.\<close>

definition mark_gpu :: "'g bgl \<Rightarrow> 'b adapter \<Rightarrow> vertex_t \<Rightarrow> ('g, 'b) world \<Rightarrow> ('g, 'b) world" where
  "mark_gpu G a v w = set_type G v GPU (attach G v (length (objects w)) (snd (make_shared a w)))"

context boost_graph
begin

lemma mark_gpu_spec:
  assumes wf: "wf_world G w" and v: "v < nv G w" and a: "adapter_typed a"
  shows "wf_world G (mark_gpu G a v w)" and "marks G w (mark_gpu G a v w)"
    and "ids w i = Some v \<Longrightarrow> gpu_at G (mark_gpu G a v w) i v a"
    and "nv G (mark_gpu G a v w) = nv G w" and "ids (mark_gpu G a v w) = ids w"
    and "u < nv G w \<Longrightarrow> m_type (vat G (mark_gpu G a v w) u) = (if u = v then GPU else m_type (vat G w u))"
proof -
  have at: "u < nv G w \<Longrightarrow> vat G (mark_gpu G a v w) u = (if u = v then
      add_adapter (length (objects w)) (vat G w v)\<lparr>m_type := GPU\<rparr> else vat G w u)" for u
    using v by (simp add: mark_gpu_def graph_simps)
  show same: "nv G (mark_gpu G a v w) = nv G w" "ids (mark_gpu G a v w) = ids w"
    by (simp_all add: mark_gpu_def graph_simps)
  have o: "objects (mark_gpu G a v w) = objects w @ [a]" "warcs G (mark_gpu G a v w) = warcs G w"
    "m_root_vertex (topology (mark_gpu G a v w)) = m_root_vertex (topology w)"
    by (simp_all add: mark_gpu_def graph_simps)
  define w3 where "w3 = snd (make_shared a w)"
  have wf3: "wf_world G w3" unfolding w3_def by (rule wf_make_shared [OF wf a])
  have v3: "v < nv G w3" "length (objects w) < length (objects w3)"
    using v by (simp_all add: w3_def graph_simps)
  show "wf_world G (mark_gpu G a v w)"
    unfolding mark_gpu_def w3_def [symmetric]
    by (rule wf_set_type [OF wf_attach [OF wf3 v3]]) (simp_all add: graph_simps v3(1))
  show "marks G w (mark_gpu G a v w)"
    unfolding marks_def same o by (auto simp: at)
  show "u < nv G w \<Longrightarrow> m_type (vat G (mark_gpu G a v w) u) = (if u = v then GPU else m_type (vat G w u))"
    by (simp add: at)
  show "gpu_at G (mark_gpu G a v w) i v a" if "ids w i = Some v"
    unfolding gpu_at_def same o using that v by (auto simp: at)
qed

end

end
