(* ===== verification/Nvml_Module.thy ===== *)
theory Nvml_Module
  imports Gpu_Link Bdfid Yloc_Module
begin

text \<open>
  The NVML module: \<^verbatim>\<open>modules/nvml/nvml_adapter.h\<close>, \<^verbatim>\<open>modules/nvml/nvml_impl.cc\<close> and
  \<^verbatim>\<open>modules/nvml/nvml_util.h\<close>. NVML is a parameter: what its functions return for a device, \<open>None\<close>
  being any code but \<^verbatim>\<open>NVML_SUCCESS\<close> (then \<^verbatim>\<open>CHECK_NVML\<close> is false). The number of devices, their handles and
  the link status of pairs, whose codes the program does not act on, are what the variables hold after
  the call. In \<^verbatim>\<open>init_graph\<close> the names \<^verbatim>\<open>a\<close> and
  \<^verbatim>\<open>type\<close>, which do not exist, are read as \<^verbatim>\<open>nvml_adapter\<close> and \<^verbatim>\<open>m_type\<close>.
\<close>

section \<open>The library\<close>

record 'd nvml_api =
  DeviceGetName :: "'d \<Rightarrow> char list"                     \<comment> \<open>the buffer of 96 bytes after the call\<close>
  DeviceGetMemoryInfo :: "'d \<Rightarrow> (u64 \<times> u64) option"       \<comment> \<open>total and used, in bytes\<close>
  DeviceGetUtilizationRates :: "'d \<Rightarrow> (u32 \<times> u32) option" \<comment> \<open>gpu and memory, in percent\<close>
  DeviceGetClock_MEM :: "'d \<Rightarrow> u32 option"               \<comment> \<open>in MHz\<close>
  DeviceGetClock_GRAPHICS :: "'d \<Rightarrow> u32 option"
  DeviceGetPciInfo :: "'d \<Rightarrow> (u32 \<times> u32 \<times> u32) option"    \<comment> \<open>domain, bus, device\<close>
  DeviceGetMemoryAffinity :: "'d \<Rightarrow> u64 option"          \<comment> \<open>the node set, an \<^verbatim>\<open>unsigned long\<close>\<close>
  DeviceGetTemperature :: "'d \<Rightarrow> u32 option"             \<comment> \<open>in degrees\<close>
  DeviceGetPowerUsage :: "'d \<Rightarrow> u32 option"              \<comment> \<open>in milliwatts\<close>
  DeviceGetCount :: nat
  DeviceGetHandleByIndex :: "nat \<Rightarrow> 'd"
  DeviceGetP2PStatus_NVLINK :: "'d \<Rightarrow> 'd \<Rightarrow> bool"        \<comment> \<open>the status is \<^verbatim>\<open>NVML_P2P_STATUS_OK\<close>\<close>

section \<open>The adapter\<close>

definition NVML_DEVICE_NAME_V2_BUFFER_SIZE :: nat where
  "NVML_DEVICE_NAME_V2_BUFFER_SIZE = 96"

definition nvml_to_string :: "'d nvml_api \<Rightarrow> 'd \<Rightarrow> string" where
  "nvml_to_string N m_obj =
     c_string ((DeviceGetName N m_obj)[NVML_DEVICE_NAME_V2_BUFFER_SIZE - 1 := NUL])"

definition nvml_memory :: "'d nvml_api \<Rightarrow> 'd \<Rightarrow> u64 option" where
  "nvml_memory N m_obj = map_option (\<lambda>(total, used). total) (DeviceGetMemoryInfo N m_obj)"

definition nvml_memory_usage :: "'d nvml_api \<Rightarrow> 'd \<Rightarrow> u64 option" where
  "nvml_memory_usage N m_obj = map_option (\<lambda>(total, used). used) (DeviceGetMemoryInfo N m_obj)"

definition nvml_memory_load :: "'d nvml_api \<Rightarrow> 'd \<Rightarrow> u64 option" where
  "nvml_memory_load N m_obj =
     map_option (\<lambda>(gpu, memory). ucast memory) (DeviceGetUtilizationRates N m_obj)"

definition nvml_memory_frequency :: "'d nvml_api \<Rightarrow> 'd \<Rightarrow> u64 option" where
  "nvml_memory_frequency N m_obj =
     map_option (\<lambda>clockMHz. ucast clockMHz * 1000 * 1000) (DeviceGetClock_MEM N m_obj)"

definition nvml_bdfid :: "'d nvml_api \<Rightarrow> 'd \<Rightarrow> u64 option" where
  "nvml_bdfid N m_obj =
     map_option (\<lambda>(domain, bus, device). nvml_bdfid_get (ucast domain) (ucast bus) (ucast device))
       (DeviceGetPciInfo N m_obj)"

text \<open>\<^verbatim>\<open>ffs\<close> on a C \<^verbatim>\<open>int\<close>: the position of the lowest bit, counted from 1, or 0.\<close>

definition ffs :: "32 word \<Rightarrow> nat" where
  "ffs x = (case find (bit x) [0..<32] of None \<Rightarrow> 0 | Some i \<Rightarrow> Suc i)"

text \<open>The argument of \<^verbatim>\<open>ffs\<close> is converted to \<^verbatim>\<open>int\<close>, which keeps the lower half of the node set.\<close>

definition nvml_numa_affinity :: "'d nvml_api \<Rightarrow> 'd \<Rightarrow> u64 option" where
  "nvml_numa_affinity N m_obj =
     map_option (\<lambda>nodeSet. of_nat (ffs (ucast nodeSet))) (DeviceGetMemoryAffinity N m_obj)"

definition nvml_temperature :: "'d nvml_api \<Rightarrow> 'd \<Rightarrow> u64 option" where
  "nvml_temperature N m_obj = map_option (\<lambda>t. ucast t * 1000) (DeviceGetTemperature N m_obj)"

definition nvml_frequency :: "'d nvml_api \<Rightarrow> 'd \<Rightarrow> u64 option" where
  "nvml_frequency N m_obj =
     map_option (\<lambda>clockMHz. ucast clockMHz * 1000 * 1000) (DeviceGetClock_GRAPHICS N m_obj)"

definition nvml_load :: "'d nvml_api \<Rightarrow> 'd \<Rightarrow> u64 option" where
  "nvml_load N m_obj = map_option (\<lambda>(gpu, memory). ucast gpu) (DeviceGetUtilizationRates N m_obj)"

definition nvml_power :: "'d nvml_api \<Rightarrow> 'd \<Rightarrow> u64 option" where
  "nvml_power N m_obj = map_option (\<lambda>p. ucast p * 1000) (DeviceGetPowerUsage N m_obj)"

definition nvml_adapter :: "'d nvml_api \<Rightarrow> 'd \<Rightarrow> 'b adapter" where
  "nvml_adapter N m_obj =
     override Adapter_memory (map_option U64 (nvml_memory N m_obj))
      (override Adapter_memory_usage (map_option U64 (nvml_memory_usage N m_obj))
       (override Adapter_memory_load (map_option U64 (nvml_memory_load N m_obj))
        (override Adapter_memory_frequency (map_option U64 (nvml_memory_frequency N m_obj))
         (override Adapter_bdfid (map_option U64 (nvml_bdfid N m_obj))
          (override Adapter_numa_affinity (map_option U64 (nvml_numa_affinity N m_obj))
           (override Adapter_temperature (map_option I64 (nvml_temperature N m_obj))
            (override Adapter_frequency (map_option U64 (nvml_frequency N m_obj))
             (override Adapter_load (map_option U64 (nvml_load N m_obj))
              (override Adapter_power (map_option U64 (nvml_power N m_obj))
               (base_adapter\<lparr>to_str := nvml_to_string N m_obj\<rparr>))))))))))"

lemma nvml_adapter_typed [simp, intro]: "adapter_typed (nvml_adapter N d)"
proof -
  have "adapter_typed (base_adapter\<lparr>to_str := s\<rparr>)" for s
    by (auto simp: adapter_typed_def dest: adapter_map_typed)
  then show ?thesis unfolding nvml_adapter_def by (intro override_typed) auto
qed

section \<open>ModuleNvml\<close>

text \<open>
  The body of the loop over the devices: \<open>None\<close> is the \<^verbatim>\<open>bad_optional_access\<close> of a device without bus
  address, or the failed assertion that its vertex is a PCI device.
\<close>

definition nvml_device :: "'d nvml_api \<Rightarrow> 'g bgl \<Rightarrow> nat \<Rightarrow> ('g, 'b) world \<Rightarrow>
    (vertex_t \<times> ('g, 'b) world) option" where
  "nvml_device N G dev_index w =
     (let device = DeviceGetHandleByIndex N dev_index;
          (p, w1) = make_shared (nvml_adapter N device) w
      in case nvml_bdfid N device of
           None \<Rightarrow> None
         | Some bdfid \<Rightarrow>
             (let (vd, w2) = vertex_named G (bdfid_identifier bdfid) w1;
                  w3 = attach G vd p w2
              in if element_is_a (vat G w3 vd) PCIDevice
                 then Some (vd, set_type G vd GPU w3) else None))"

text \<open>The loop from device \<open>i\<close> on; \<open>vertices\<close> collects the vertices in order.\<close>

fun nvml_devices :: "'d nvml_api \<Rightarrow> 'g bgl \<Rightarrow> nat list \<Rightarrow> vertex_t list \<Rightarrow> ('g, 'b) world \<Rightarrow>
    (vertex_t list \<times> ('g, 'b) world) option" where
  "nvml_devices N G [] vertices w = Some (vertices, w)"
| "nvml_devices N G (i # is) vertices w =
     Option.bind (nvml_device N G i w) (\<lambda>r. nvml_devices N G is (vertices @ [fst r]) (snd r))"

definition nvml_direct :: "'d nvml_api \<Rightarrow> nat \<Rightarrow> nat \<Rightarrow> bool" where
  "nvml_direct N src dst =
     DeviceGetP2PStatus_NVLINK N (DeviceGetHandleByIndex N src) (DeviceGetHandleByIndex N dst)"

definition yloc_nvml_gpu_interconnect :: "'d nvml_api \<Rightarrow> 'g bgl \<Rightarrow> nat \<Rightarrow> vertex_t list \<Rightarrow>
    ('g, 'b) world \<Rightarrow> u64 \<times> ('g, 'b) world" where
  "yloc_nvml_gpu_interconnect N G num_devices vertices w =
     gpu_interconnect G (nvml_direct N) num_devices vertices w"

definition ModuleNvml_init_graph :: "'d nvml_api \<Rightarrow> 'g bgl \<Rightarrow> ('g, 'b) world \<Rightarrow>
    (yloc_status_t \<times> ('g, 'b) world) option" where
  "ModuleNvml_init_graph N G w =
     Option.bind (nvml_devices N G [0..<DeviceGetCount N] [] w) (\<lambda>(vertices, w1).
       Some (YLOC_STATUS_SUCCESS,
         snd (yloc_nvml_gpu_interconnect N G (DeviceGetCount N) vertices w1)))"

section \<open>What the loop does\<close>

text \<open>Device \<open>i\<close> has a bus address, and its vertex is a PCI device already.\<close>

definition nvml_known :: "'d nvml_api \<Rightarrow> 'g bgl \<Rightarrow> ('g, 'b) world \<Rightarrow> nat \<Rightarrow> bool" where
  "nvml_known N G w i \<longleftrightarrow> (\<exists>b v. nvml_bdfid N (DeviceGetHandleByIndex N i) = Some b \<and>
     ids w (bdfid_identifier b) = Some v \<and> is_a (m_type (vat G w v)) PCIDevice)"

definition nvml_at :: "'d nvml_api \<Rightarrow> 'g bgl \<Rightarrow> ('g, 'b) world \<Rightarrow> nat \<Rightarrow> vertex_t \<Rightarrow> bool" where
  "nvml_at N G w i v \<longleftrightarrow> (\<exists>b. nvml_bdfid N (DeviceGetHandleByIndex N i) = Some b \<and>
     gpu_at G w (bdfid_identifier b) v (nvml_adapter N (DeviceGetHandleByIndex N i)))"

lemma nvml_at_marks: "marks G w w' \<Longrightarrow> nvml_at N G w i v \<Longrightarrow> nvml_at N G w' i v"
  unfolding nvml_at_def by (blast intro: gpu_at_marks)

context boost_graph
begin

lemma nvml_device_eq:
  assumes wf: "wf_world G w"
  shows "nvml_device N G i w =
    (if nvml_known N G w i then
       (let v = the (ids w (bdfid_identifier (the (nvml_bdfid N (DeviceGetHandleByIndex N i)))))
        in Some (v, mark_gpu G (nvml_adapter N (DeviceGetHandleByIndex N i)) v w))
     else None)"
proof (cases "nvml_bdfid N (DeviceGetHandleByIndex N i)")
  case None
  then show ?thesis by (simp add: nvml_device_def nvml_known_def make_shared_def)
next
  case (Some b)
  show ?thesis
  proof (cases "ids w (bdfid_identifier b)")
    case None
    have "\<not> is_a UnknownComponentType PCIDevice" by (simp add: is_a_eval)
    then show ?thesis
      using Some None
      by (simp add: nvml_device_def nvml_known_def make_shared_def vertex_named_def add_vertex_new
          Let_def split_def graph_simps element_is_a_def)
  next
    case (Some v)
    have "v < nv G w" by (rule wf_graphD(1) [OF wf_world_graph [OF wf] Some])
    with Some \<open>nvml_bdfid N _ = Some b\<close> show ?thesis
      by (simp add: nvml_device_def nvml_known_def make_shared_def vertex_named_def add_vertex_known
          Let_def split_def graph_simps element_is_a_def mark_gpu_def)
  qed
qed

lemma nvml_known_step:
  assumes wf: "wf_world G w" and v: "v < nv G w" and pci: "is_a (m_type (vat G w v)) PCIDevice"
    and a: "adapter_typed a"
  shows "nvml_known N G (mark_gpu G a v w) i \<longleftrightarrow> nvml_known N G w i"
proof -
  have gpu: "is_a GPU PCIDevice" by (simp add: is_a_eval)
  have "is_a (m_type (vat G (mark_gpu G a v w) u)) PCIDevice \<longleftrightarrow> is_a (m_type (vat G w u)) PCIDevice"
    if "ids w j = Some u" for u j
    using mark_gpu_spec(6) [OF wf v a wf_graphD(1) [OF wf_world_graph [OF wf] that]] pci gpu by auto
  then show ?thesis
    unfolding nvml_known_def mark_gpu_spec(5) [OF wf v a] by blast
qed

text \<open>The loop returns exactly when all devices are known, and then marks their vertices.\<close>

lemma nvml_devices_spec:
  "wf_world G w \<Longrightarrow>
     (if \<forall>i \<in> set is. nvml_known N G w i
      then \<exists>new w'. nvml_devices N G is vertices w = Some (vertices @ new, w') \<and> wf_world G w' \<and>
        marks G w w' \<and> nv G w' = nv G w \<and> ids w' = ids w \<and> list_all2 (nvml_at N G w') is new
      else nvml_devices N G is vertices w = None)"
proof (induction "is" arbitrary: vertices w)
  case Nil
  then show ?case by simp
next
  case (Cons i "is")
  show ?case
  proof (cases "nvml_known N G w i")
    case False
    then show ?thesis by (simp add: nvml_device_eq [OF Cons.prems])
  next
    case True
    then obtain b v where b: "nvml_bdfid N (DeviceGetHandleByIndex N i) = Some b"
      and v: "ids w (bdfid_identifier b) = Some v" and pci: "is_a (m_type (vat G w v)) PCIDevice"
      by (auto simp: nvml_known_def)
    let ?a = "nvml_adapter N (DeviceGetHandleByIndex N i)"
    define w1 where "w1 = mark_gpu G ?a v w"
    have lt: "v < nv G w" by (rule wf_graphD(1) [OF wf_world_graph [OF Cons.prems] v])
    note one = mark_gpu_spec [OF Cons.prems lt nvml_adapter_typed
        [of N "DeviceGetHandleByIndex N i"], folded w1_def]
    have step: "nvml_device N G i w = Some (v, w1)"
      using True b v by (simp add: nvml_device_eq [OF Cons.prems] w1_def)
    have at: "nvml_at N G w1 i v" using one(3) [OF v] b by (simp add: nvml_at_def)
    have known: "nvml_known N G w1 j \<longleftrightarrow> nvml_known N G w j" for j
      unfolding w1_def by (rule nvml_known_step [OF Cons.prems lt pci nvml_adapter_typed])
    show ?thesis
    proof (cases "\<forall>j \<in> set is. nvml_known N G w j")
      case False
      then show ?thesis using Cons.IH [OF one(1), of "vertices @ [v]"] step by (auto simp: known)
    next
      case all: True
      then obtain new w' where rest: "nvml_devices N G is (vertices @ [v]) w1 = Some ((vertices @ [v]) @ new, w')"
        "wf_world G w'" "marks G w1 w'" "nv G w' = nv G w1" "ids w' = ids w1"
        "list_all2 (nvml_at N G w') is new"
        using Cons.IH [OF one(1), of "vertices @ [v]"] by (auto simp: known)
      have "nvml_devices N G (i # is) vertices w = Some (vertices @ v # new, w')"
        using step rest(1) by simp
      moreover have "marks G w w'" by (rule marks_trans [OF one(2) rest(3)])
      moreover have "list_all2 (nvml_at N G w') (i # is) (v # new)"
        using nvml_at_marks [OF rest(3) at] rest(6) by simp
      ultimately show ?thesis
        using all True rest(2,4,5) one(4,5) by (auto intro!: exI [of _ "v # new"] exI [of _ w'])
    qed
  qed
qed

lemma nvml_init_spec:
  assumes wf: "wf_world G w"
  shows "if \<forall>i < DeviceGetCount N. nvml_known N G w i
    then \<exists>vertices w1 w'. ModuleNvml_init_graph N G w = Some (YLOC_STATUS_SUCCESS, w') \<and>
      wf_world G w' \<and> (paired G w \<longrightarrow> paired G w') \<and> marks G w w1 \<and>
      list_all2 (nvml_at N G w') [0..<DeviceGetCount N] vertices \<and>
      child_rel G (topology w') = child_rel G (topology w) \<and> ids w' = ids w \<and>
      m_root_vertex (topology w') = m_root_vertex (topology w) \<and>
      interconnected G (nvml_direct N) (DeviceGetCount N) vertices w w' \<and>
      nvml_devices N G [0..<DeviceGetCount N] [] w = Some (vertices, w1) \<and> nv G w' = nv G w \<and>
      (\<forall>v. vat G w' v = vat G w1 v) \<and> objects w' = objects w1
    else ModuleNvml_init_graph N G w = None"
proof (cases "\<forall>i < DeviceGetCount N. nvml_known N G w i")
  case False
  then have "nvml_devices N G [0..<DeviceGetCount N] [] w = None"
    using nvml_devices_spec [OF wf, of "[0..<DeviceGetCount N]" N "[]"] by (auto split: if_splits)
  with False show ?thesis by (simp add: ModuleNvml_init_graph_def)
next
  case True
  then obtain vertices w1 where loop: "nvml_devices N G [0..<DeviceGetCount N] [] w = Some (vertices, w1)"
    and wf1: "wf_world G w1" and m1: "marks G w w1" and ids1: "ids w1 = ids w" and num1: "nv G w1 = nv G w"
    and at1: "list_all2 (nvml_at N G w1) [0..<DeviceGetCount N] vertices"
    using nvml_devices_spec [OF wf, of "[0..<DeviceGetCount N]" N "[]"] by auto
  have len: "length vertices = DeviceGetCount N" using list_all2_lengthD [OF at1] by simp
  have lt: "\<forall>v \<in> set vertices. v < nv G w1"
  proof
    fix v assume "v \<in> set vertices"
    then obtain i where "nvml_at N G w1 i v" using at1 by (auto simp: list_all2_conv_all_nth in_set_conv_nth)
    then show "v < nv G w1" by (auto simp: nvml_at_def gpu_at_def)
  qed
  obtain w' where links: "gpu_interconnect G (nvml_direct N) (DeviceGetCount N) vertices w1 =
      (of_nat (card (linked_pairs (nvml_direct N) (DeviceGetCount N))), w')"
    and w': "wf_world G w'" "paired G w1 \<longrightarrow> paired G w'" "nv G w' = nv G w1"
      "\<forall>v. vat G w' v = vat G w1 v" "ids w' = ids w1" "objects w' = objects w1"
      "child_rel G (topology w') = child_rel G (topology w1)"
      "interconnected G (nvml_direct N) (DeviceGetCount N) vertices w1 w'"
      "m_root_vertex (topology w') = m_root_vertex (topology w1)"
    using gpu_interconnect_spec [OF wf1 lt len, of "nvml_direct N"] by blast
  have arcs: "warcs G w1 = warcs G w" and root: "m_root_vertex (topology w1) = m_root_vertex (topology w)"
    using m1 by (simp_all add: marks_def)
  have "nvml_at N G w' = nvml_at N G w1"
    by (intro ext) (simp add: nvml_at_def gpu_at_cong [OF w'(5,3,4,6)])
  then have "list_all2 (nvml_at N G w') [0..<DeviceGetCount N] vertices" using at1 by simp
  moreover have "interconnected G (nvml_direct N) (DeviceGetCount N) vertices w w'"
    using w'(8) by (simp add: interconnected_def arcs)
  moreover have "paired G w \<longrightarrow> paired G w'" using w'(2) by (simp add: paired_def arcs)
  moreover have "child_rel G (topology w') = child_rel G (topology w)"
    using w'(7) by (simp add: child_rel_def arcs)
  ultimately show ?thesis
    using True loop links w'(1,3,4,5,6,9) m1 ids1 num1 root
    by (auto simp: ModuleNvml_init_graph_def yloc_nvml_gpu_interconnect_def intro!: exI [of _ vertices] exI [of _ w1])
qed

lemma nvml_keeps: "module_contract G (ModuleNvml_init_graph N G)"
proof
  show "wf_world G w'" if "wf_world G w" and "ModuleNvml_init_graph N G w = Some (s, w')" for w w' s
    using nvml_init_spec [OF that(1), of N] that(2) by (auto split: if_splits)
  show "paired G w'" if "wf_world G w" and "paired G w" and "ModuleNvml_init_graph N G w = Some (s, w')" for w w' s
    using nvml_init_spec [OF that(1), of N] that(2,3) by (auto split: if_splits)
qed

end

interpretation nvml_contract: module_contract adjlist_ops "ModuleNvml_init_graph N adjlist_ops"
  for N :: "'d nvml_api"
  by (rule adjlist.nvml_keeps)

section \<open>A machine with two linked GPUs\<close>

definition sample_nvml :: "nat nvml_api" where
  "sample_nvml =
    \<lparr>DeviceGetName = (\<lambda>_. replicate 96 (CHR ''A'')), DeviceGetMemoryInfo = (\<lambda>_. Some (1000, 10)),
     DeviceGetUtilizationRates = (\<lambda>_. None), DeviceGetClock_MEM = (\<lambda>_. Some 1215),
     DeviceGetClock_GRAPHICS = (\<lambda>_. None), DeviceGetPciInfo = (\<lambda>d. Some (0, of_nat d, 0)),
     DeviceGetMemoryAffinity = (\<lambda>_. Some 2), DeviceGetTemperature = (\<lambda>_. Some 45),
     DeviceGetPowerUsage = (\<lambda>_. Some 30000), DeviceGetCount = 2,
     DeviceGetHandleByIndex = (\<lambda>i. i), DeviceGetP2PStatus_NVLINK = (\<lambda>_ _. True)\<rparr>"

section \<open>Properties\<close>

text \<open>
  C20. The NVML module depends on another module having run before: \<^verbatim>\<open>init_graph\<close> passes its assertion
  exactly when every device has a bus address under which the graph already knows a PCI
  device. Then every device's vertex becomes a GPU with its NVML adapter, the directly linked
  pairs (and no others) are joined by GPU_INTERCONNECT edges both ways, and the hierarchy of
  CHILD edges is not touched. Modules of the same order run in an unspecified order, so a build
  with hwloc is not safe from the failure.
\<close>

theorem ModuleNvml_needs_vertices:
  assumes "boost_graph G" and "wf_world G w"
  shows "if \<forall>i < DeviceGetCount N. nvml_known N G w i
    then \<exists>vertices w'. ModuleNvml_init_graph N G w = Some (YLOC_STATUS_SUCCESS, w') \<and>
      wf_world G w' \<and> list_all2 (nvml_at N G w') [0..<DeviceGetCount N] vertices \<and>
      child_rel G (topology w') = child_rel G (topology w) \<and>
      interconnected G (nvml_direct N) (DeviceGetCount N) vertices w w'
    else ModuleNvml_init_graph N G w = None"
  using boost_graph.nvml_init_spec [OF assms, of N] by (auto split: if_splits)

definition sample_gpu_world :: "(adjlist, bool list) world" where
  "sample_gpu_world = set_type adjlist_ops 0 PCIDevice
     (snd (vertex_named adjlist_ops (bdfid_identifier (nvml_bdfid_get 0 0 0)) (root_graph adjlist_ops)))"

lemma sample_gpu_wf: "wf_world adjlist_ops sample_gpu_world"
  unfolding sample_gpu_world_def
  by (intro adjlist.wf_set_type adjlist.wf_vertex_named adjlist.wf_root_graph)
    (simp_all add: step_simps adjlist.add_vertex_new adjlist.new_graph_simps)

lemma sample_gpu_known: "nvml_known (sample_nvml\<lparr>DeviceGetCount := 1\<rparr>) adjlist_ops sample_gpu_world 0"
proof -
  have "nvml_bdfid (sample_nvml\<lparr>DeviceGetCount := 1\<rparr>)
      (DeviceGetHandleByIndex (sample_nvml\<lparr>DeviceGetCount := 1\<rparr>) 0) = Some (nvml_bdfid_get 0 0 0)"
    by (simp add: nvml_bdfid_def sample_nvml_def)
  moreover have "ids sample_gpu_world (bdfid_identifier (nvml_bdfid_get 0 0 0)) = Some 0"
    and "m_type (vat adjlist_ops sample_gpu_world 0) = PCIDevice"
    by (simp_all add: sample_gpu_world_def step_simps adjlist.add_vertex_new adjlist.new_graph_simps
        graph_record_simps adjlist.modify_simps)
  moreover have "is_a PCIDevice PCIDevice" by (simp add: is_a_eval)
  ultimately show ?thesis by (auto simp: nvml_known_def)
qed

theorem ModuleNvml_needs_vertices_witness:
  "ModuleNvml_init_graph sample_nvml adjlist_ops (root_graph adjlist_ops :: (adjlist, bool list) world) = None \<and>
   (\<exists>v w'. ModuleNvml_init_graph (sample_nvml\<lparr>DeviceGetCount := 1\<rparr>) adjlist_ops sample_gpu_world =
      Some (YLOC_STATUS_SUCCESS, w') \<and> nvml_at (sample_nvml\<lparr>DeviceGetCount := 1\<rparr>) adjlist_ops w' 0 v)"
proof
  have "\<not> nvml_known sample_nvml adjlist_ops (root_graph adjlist_ops :: (adjlist, bool list) world) 0"
    by (simp add: nvml_known_def step_simps new_graph_def)
  moreover have "0 < DeviceGetCount sample_nvml" by (simp add: sample_nvml_def)
  ultimately have no: "\<not> (\<forall>i < DeviceGetCount sample_nvml. nvml_known sample_nvml adjlist_ops
      (root_graph adjlist_ops :: (adjlist, bool list) world) i)" by blast
  have wf: "wf_world adjlist_ops (root_graph adjlist_ops :: (adjlist, bool list) world)"
    by (rule adjlist.wf_root_graph)
  show "ModuleNvml_init_graph sample_nvml adjlist_ops
      (root_graph adjlist_ops :: (adjlist, bool list) world) = None"
    using ModuleNvml_needs_vertices [OF boost_graph_adjlist wf, of sample_nvml]
    unfolding if_not_P [OF no] .
  show "\<exists>v w'. ModuleNvml_init_graph (sample_nvml\<lparr>DeviceGetCount := 1\<rparr>) adjlist_ops sample_gpu_world =
      Some (YLOC_STATUS_SUCCESS, w') \<and> nvml_at (sample_nvml\<lparr>DeviceGetCount := 1\<rparr>) adjlist_ops w' 0 v"
    using ModuleNvml_needs_vertices [OF boost_graph_adjlist sample_gpu_wf,
        of "sample_nvml\<lparr>DeviceGetCount := 1\<rparr>"] sample_gpu_known
    by (auto simp: list_all2_Cons1)
qed

text \<open>
  Units: the adapter's conversions (MHz to Hz, degrees to millidegrees, milliwatts to microwatts) are
  exact for every value that NVML can return in its 32 bits: nothing overflows, and the signed
  temperature is not negative.
\<close>

lemma nvml_units_exact:
  "nvml_frequency N d = map_option (\<lambda>c. of_nat (unat c * 1000000)) (DeviceGetClock_GRAPHICS N d) \<and>
   nvml_memory_frequency N d = map_option (\<lambda>c. of_nat (unat c * 1000000)) (DeviceGetClock_MEM N d) \<and>
   nvml_power N d = map_option (\<lambda>p. of_nat (unat p * 1000)) (DeviceGetPowerUsage N d) \<and>
   nvml_temperature N d = map_option (\<lambda>t. of_nat (unat t * 1000)) (DeviceGetTemperature N d) \<and>
   unat (of_nat (unat (x :: u32) * 1000000) :: u64) = unat x * 1000000 \<and>
   unat (of_nat (unat x * 1000) :: u64) = unat x * 1000 \<and>
   sint (of_nat (unat x * 1000) :: u64) = int (unat x) * 1000"
proof -
  have u: "(ucast c :: u64) = of_nat (unat c)" for c :: u32 by simp
  have mega: "(ucast c :: u64) * 1000 * 1000 = of_nat (unat c * 1000000)" for c :: u32
    unfolding of_nat_mult u by simp
  have kilo: "(ucast c :: u64) * 1000 = of_nat (unat c * 1000)" for c :: u32
    unfolding of_nat_mult u by simp
  have x: "unat x < 4294967296" using unsigned_less [of x] by simp
  have "nvml_frequency N d = map_option (\<lambda>c. of_nat (unat c * 1000000)) (DeviceGetClock_GRAPHICS N d)"
    "nvml_memory_frequency N d = map_option (\<lambda>c. of_nat (unat c * 1000000)) (DeviceGetClock_MEM N d)"
    unfolding nvml_frequency_def nvml_memory_frequency_def mega by (rule refl)+
  moreover have "nvml_power N d = map_option (\<lambda>p. of_nat (unat p * 1000)) (DeviceGetPowerUsage N d)"
    "nvml_temperature N d = map_option (\<lambda>t. of_nat (unat t * 1000)) (DeviceGetTemperature N d)"
    unfolding nvml_power_def nvml_temperature_def kilo by (rule refl)+
  moreover have "unat (of_nat (unat x * 1000000) :: u64) = unat x * 1000000"
    and "unat (of_nat (unat x * 1000) :: u64) = unat x * 1000"
    unfolding unat_of_nat using x by (auto simp: take_bit_nat_eq_self_iff)
  moreover have "sint (of_nat (unat x * 1000) :: u64) = int (unat x) * 1000"
  proof -
    define y where "y = int (unat x * 1000)"
    have y: "y = int (unat x) * 1000" by (simp only: y_def of_nat_mult of_nat_numeral)
    have "int (unat x) < 4294967296" using x by linarith
    then have "0 \<le> y" "y < 4294967296000" unfolding y by linarith+
    then have "signed_take_bit (LENGTH(64) - Suc 0) y = y"
      by (intro signed_take_bit_int_eq_self) simp_all
    then show ?thesis unfolding signed_of_nat y_def [symmetric] of_int_eq_id id_def by (rule trans [OF _ y])
  qed
  ultimately show ?thesis by blast
qed

text \<open>
  C24. The NUMA node of a device: \<^verbatim>\<open>ffs\<close> counts from one and sees the lower 32 bits only. The reported
  number is one above the lowest node of the set, 0 stands for no node, and a device attached
  only to nodes from 32 on is reported as attached to none.
\<close>

theorem nvml_numa_affinity_off_by_one:
  assumes "DeviceGetMemoryAffinity N d = Some nodes"
  shows "(\<forall>k < 32. bit nodes k \<and> (\<forall>j < k. \<not> bit nodes j) \<longrightarrow> nvml_numa_affinity N d = Some (of_nat (Suc k))) \<and>
    ((\<forall>j < 32. \<not> bit nodes j) \<longrightarrow> nvml_numa_affinity N d = Some 0)"
proof -
  have eq: "nvml_numa_affinity N d = Some (of_nat (ffs (ucast nodes)))"
    by (simp add: nvml_numa_affinity_def assms)
  have low: "bit (ucast nodes :: 32 word) j \<longleftrightarrow> bit nodes j" if "j < 32" for j
    using that by (simp add: bit_simps)
  have "ffs (ucast nodes) = Suc k" if "k < 32" "bit nodes k" "\<forall>j < k. \<not> bit nodes j" for k
  proof -
    have "find (bit (ucast nodes :: 32 word)) [0..<32] = Some k"
      unfolding find_Some_iff using that low by (intro exI [of _ k]) auto
    then show ?thesis by (simp add: ffs_def)
  qed
  moreover have "ffs (ucast nodes) = 0" if "\<forall>j < 32. \<not> bit nodes j"
  proof -
    have "find (bit (ucast nodes :: 32 word)) [0..<32] = None"
      unfolding find_None_iff using that low by auto
    then show ?thesis by (simp add: ffs_def)
  qed
  ultimately show ?thesis unfolding eq by auto
qed

theorem nvml_numa_affinity_off_by_one_witness: "nvml_numa_affinity sample_nvml 0 = Some (of_nat (Suc 1))"
proof -
  have "DeviceGetMemoryAffinity sample_nvml 0 = Some 2" by (simp add: sample_nvml_def)
  from nvml_numa_affinity_off_by_one [OF this] show ?thesis
    by (auto simp: bit_iff_odd less_Suc_eq dest!: spec [of _ 1])
qed

end
