(* ===== verification/Rooted.thy ===== *)
theory Rooted
  imports Pci_Names Mpi_Module Nvml_Module
begin

text \<open>
  What the hierarchy holds after \<^verbatim>\<open>init()\<close>: when the hwloc module runs first, every component that is
  no MPI process and whose type is known is reached from the root vertex by CHILD edges, and the
  MPI and the NVML module keep it so.
\<close>

section \<open>Components in the hierarchy\<close>

definition rooted :: "'g bgl \<Rightarrow> ('g, 'b) world \<Rightarrow> bool" where
  "rooted G w \<longleftrightarrow> m_root_vertex (topology w) < nv G w \<and>
     (\<forall>v < nv G w. m_type (vat G w v) \<in> {UnknownComponentType, MPIProcess} \<or>
        (m_root_vertex (topology w), v) \<in> (child_rel G (topology w))\<^sup>*)"

lemma child_rel_extends: "extends G w w' \<Longrightarrow> child_rel G (topology w) \<subseteq> child_rel G (topology w')"
  by (auto simp: extends_def child_rel_def dest: mset_subset_eqD)

lemma rootedI:
  assumes old: "rooted G w" and ext: "extends G w w'"
    and root: "m_root_vertex (topology w') = m_root_vertex (topology w)"
    and new: "\<And>v. v < nv G w' \<Longrightarrow> m_type (vat G w' v) \<in> {UnknownComponentType, MPIProcess} \<or>
      (m_root_vertex (topology w), v) \<in> (child_rel G (topology w'))\<^sup>* \<or>
      v < nv G w \<and> m_type (vat G w' v) = m_type (vat G w v)"
  shows "rooted G w'"
  unfolding rooted_def
proof (intro conjI allI impI)
  show "m_root_vertex (topology w') < nv G w'"
    using old extendsD(1) [OF ext] by (simp add: rooted_def root)
  fix v
  assume v: "v < nv G w'"
  have "(child_rel G (topology w))\<^sup>* \<subseteq> (child_rel G (topology w'))\<^sup>*"
    by (rule rtrancl_mono [OF child_rel_extends [OF ext]])
  then show "m_type (vat G w' v) \<in> {UnknownComponentType, MPIProcess} \<or>
      (m_root_vertex (topology w'), v) \<in> (child_rel G (topology w'))\<^sup>*"
    using new [OF v] old unfolding root rooted_def by auto
qed

section \<open>The hwloc module\<close>

context hwloc_build
begin

lemma add_hwloc_child_rooted:
  assumes wf: "wf_world G w" and vd: "vd < nv G w" and known: "knows_type A child"
    and add: "add_hwloc_child B H G A n vd child w = Some (v, w')"
    and rooted: "rooted G w" and reach: "(m_root_vertex (topology w), vd) \<in> (child_rel G (topology w))\<^sup>*"
  shows "rooted G w' \<and> (m_root_vertex (topology w'), v) \<in> (child_rel G (topology w'))\<^sup>* \<and>
    (m_root_vertex (topology w'), vd) \<in> (child_rel G (topology w'))\<^sup>*"
proof -
  obtain t where t: "hwloc_2_yloc_type A child = Some t" using type_known known by blast
  obtain v' w'' where "add_hwloc_child B H G A n vd child w = Some (v', w'')" and ext: "extends G w w''"
    and arcs: "warcs G w'' = {#(v', PARENT, vd), (vd, CHILD, v')#} + warcs G w"
    and root: "m_root_vertex (topology w'') = m_root_vertex (topology w)"
    by (rule add_hwloc_child_spec [OF wf vd known, of B H n]) (rule that)
  then have same: "v' = v" "w'' = w'" using add by simp_all
  note ext = ext [unfolded same] and root = root [unfolded same]
  have vd': "(m_root_vertex (topology w), vd) \<in> (child_rel G (topology w'))\<^sup>*"
    using reach rtrancl_mono [OF child_rel_extends [OF ext]] by blast
  have "(vd, v) \<in> child_rel G (topology w')" using arcs unfolding same by (simp add: child_rel_def)
  with vd' have v': "(m_root_vertex (topology w), v) \<in> (child_rel G (topology w'))\<^sup>*" by simp
  have "rooted G w'"
  proof (rule rootedI [OF rooted ext root])
    fix u
    assume "u < nv G w'"
    from add_hwloc_child_at(1) [OF wf vd t add this] v'
    show "m_type (vat G w' u) \<in> {UnknownComponentType, MPIProcess} \<or>
        (m_root_vertex (topology w), u) \<in> (child_rel G (topology w'))\<^sup>* \<or>
        u < nv G w \<and> m_type (vat G w' u) = m_type (vat G w u)"
      by (cases "u = v") (simp_all add: Let_def)
  qed
  with vd' v' show ?thesis by (simp add: root)
qed

lemma build_forest_rooted:
  assumes "wf_world G w" and "vd < nv G w" and "\<forall>obj \<in> set (forest_objects ts). knows_type A obj"
    and "rooted G w" and "(m_root_vertex (topology w), vd) \<in> (child_rel G (topology w))\<^sup>*"
    and "build_forest B H G A n vd ts w = Some w'"
  shows "rooted G w'"
  using assms
proof (induction ts arbitrary: vd w w' rule: forest_objects.induct)
  case 1
  then show ?case by simp
next
  case (2 obj cs ts)
  have known: "knows_type A obj" using "2.prems"(3) by simp
  obtain v w1 where add: "add_hwloc_child B H G A n vd obj w = Some (v, w1)"
    and wf1: "wf_world G w1" and v: "v < nv G w1" "vd < nv G w1"
    by (rule add_hwloc_child_spec [OF "2.prems"(1,2) known, of B H n]) (rule that)
  note one = add_hwloc_child_rooted [OF "2.prems"(1,2) known add "2.prems"(4,5)]
  have cs: "\<forall>obj \<in> set (forest_objects cs). knows_type A obj"
    and ts: "\<forall>obj \<in> set (forest_objects ts). knows_type A obj" using "2.prems"(3) by auto
  from build_forest_spec [OF wf1 v(1) cs, of B H n] obtain w2 where
    w2: "build_forest B H G A n v cs w1 = Some w2" and wf2: "wf_world G w2" and ext2: "extends G w1 w2"
    and root2: "m_root_vertex (topology w2) = m_root_vertex (topology w1)"
    by auto
  have "vd < nv G w2" using v(2) extendsD(1) [OF ext2] by simp
  moreover have "rooted G w2" using "2.IH"(1) [OF wf1 v(1) cs _ _ w2] one by blast
  moreover have "(m_root_vertex (topology w2), vd) \<in> (child_rel G (topology w2))\<^sup>*"
    using one rtrancl_mono [OF child_rel_extends [OF ext2]] unfolding root2 by blast
  moreover have "build_forest B H G A n vd ts w2 = Some w'" using "2.prems"(6) add w2 by simp
  ultimately show ?case using "2.IH"(2) [OF wf2 _ ts] by blast
qed

end

section \<open>The MPI module\<close>

context mpi_build
begin

lemma mpi_process_rooted:
  assumes wf: "wf_world G w" and rooted: "rooted G w"
    and run: "mpi_process B G srt n hostname i hn cs w = Some w'"
  shows "rooted G w'"
proof -
  let ?msk = "affinity_of_cpuset B n cs"
  obtain node_vd proc_vd w4 where eq: "mpi_process B G srt n hostname i hn cs w =
      (let msk = ?msk; w5 = set_cpu_affinity_mask B (length (objects w)) (of_nat i) msk w4
       in if hn = hostname \<and> bs_any B msk
          then map_option (\<lambda>r. add_child G r proc_vd w5) (lowest_containing_vertex B G srt w5 msk)
          else Some (add_child G node_vd proc_vd w4))"
    and wf4: "wf_world G w4" and v: "node_vd < nv G w4" "proc_vd < nv G w4" and le: "nv G w \<le> nv G w4"
    and arcs4: "warcs G w4 = warcs G w" and root4: "m_root_vertex (topology w4) = m_root_vertex (topology w)"
    and type: "\<forall>v < nv G w4. m_type (vat G w4 v) \<in> {UnknownComponentType, MPIProcess} \<or>
      v < nv G w \<and> m_type (vat G w4 v) = m_type (vat G w v)"
    by (rule mpi_process_cases [OF wf, of n i hn]) (rule that)
  have child4: "child_rel G (topology w4) = child_rel G (topology w)" by (rule child_rel_cong [OF arcs4])
  have four: "rooted G w5" if "topology w5 = topology w4" for w5 :: "('g, 'b) world"
    unfolding rooted_def that root4 child4
  proof (intro conjI allI impI)
    show "m_root_vertex (topology w) < nv G w4" using rooted le by (simp add: rooted_def)
    show "m_type (vat G w4 u) \<in> {UnknownComponentType, MPIProcess} \<or>
        (m_root_vertex (topology w), u) \<in> (child_rel G (topology w))\<^sup>*" if "u < nv G w4" for u
      using type rooted that unfolding rooted_def by metis
  qed
  have add: "rooted G (add_child G r proc_vd w5)"
    if t: "topology w5 = topology w4" and r: "r < nv G w4" for r and w5 :: "('g, 'b) world"
  proof -
    have "proc_vd < nv G w5" "r < nv G w5" using v r by (simp_all add: t)
    then show ?thesis
      using four [OF t] rtrancl_mono [of "child_rel G (topology w5)" "insert (r, proc_vd) (child_rel G (topology w5))"]
      unfolding rooted_def by (auto simp: add_child_simps child_rel_add_child root_add_child)
  qed
  show ?thesis
  proof (cases "hn = hostname \<and> bs_any B ?msk")
    case False
    with eq run have "w' = add_child G node_vd proc_vd w4" by (auto simp: Let_def)
    then show ?thesis using add [OF refl v(1)] by simp
  next
    case True
    define w5 where "w5 = set_cpu_affinity_mask B (length (objects w)) (of_nat i) ?msk w4"
    have t5: "topology w5 = topology w4" by (simp add: w5_def graph_simps)
    have wf5: "wf_world G w5" unfolding w5_def by (rule wf_set_mask [OF wf4])
    from eq run True obtain r where r: "lowest_containing_vertex B G srt w5 ?msk = Some r"
      and w': "w' = add_child G r proc_vd w5"
      by (auto simp: w5_def [symmetric] Let_def split: option.splits)
    have "r < nv G w5" by (rule lowest_in_graph [OF wf5 _ r]) (use v(2) in \<open>simp add: t5\<close>)
    then show ?thesis using add [OF t5] w' by (simp add: t5)
  qed
qed

lemma mpi_init_rooted:
  assumes "wf_world G w" and "rooted G w"
    and "ModuleMPI_init_graph B G srt n initialized rows hostname w = Some (s, w')"
  shows "rooted G w'"
proof -
  have "wf_world G w \<Longrightarrow> rooted G w \<Longrightarrow> mpi_processes B G srt n hostname i rows w = Some w' \<Longrightarrow> rooted G w'"
    for i w
  proof (induction rows arbitrary: i w)
    case Nil
    then show ?case by simp
  next
    case (Cons row rows)
    then obtain w1 where one: "mpi_process B G srt n hostname i (fst row) (snd row) w = Some w1"
      and rest: "mpi_processes B G srt n hostname (Suc i) rows w1 = Some w'"
      by (cases row) (auto simp: bind_eq_Some_conv)
    show ?case
      using Cons.IH [OF _ mpi_process_rooted [OF Cons.prems(1,2) one] rest]
        mpi_process_keeps [OF Cons.prems(1) one] by blast
  qed
  then show ?thesis
    using assms by (auto simp: ModuleMPI_init_graph_def make_mpi_graph_def split: if_splits)
qed

end

section \<open>The NVML module\<close>

context boost_graph
begin

lemma nvml_devices_types:
  assumes "wf_world G w" and "nvml_devices N G is vertices w = Some (vertices', w')" and "u < nv G w"
  shows "m_type (vat G w' u) = m_type (vat G w u) \<or> is_a (m_type (vat G w u)) PCIDevice"
  using assms
proof (induction "is" arbitrary: vertices w)
  case Nil
  then show ?case by simp
next
  case (Cons i "is")
  obtain v w1 where step: "nvml_device N G i w = Some (v, w1)"
    and rest: "nvml_devices N G is (vertices @ [v]) w1 = Some (vertices', w')"
    using Cons.prems(2) by (auto simp: bind_eq_Some_conv)
  have known: "nvml_known N G w i" using step by (simp add: nvml_device_eq [OF Cons.prems(1)] split: if_splits)
  then obtain b where b: "nvml_bdfid N (DeviceGetHandleByIndex N i) = Some b"
    and id: "ids w (bdfid_identifier b) = Some v" and pci: "is_a (m_type (vat G w v)) PCIDevice"
    and w1: "w1 = mark_gpu G (nvml_adapter N (DeviceGetHandleByIndex N i)) v w"
    using step by (auto simp: nvml_known_def nvml_device_eq [OF Cons.prems(1)] Let_def)
  have v: "v < nv G w" by (rule wf_graphD(1) [OF wf_world_graph [OF Cons.prems(1)] id])
  note one = mark_gpu_spec [OF Cons.prems(1) v nvml_adapter_typed [of N "DeviceGetHandleByIndex N i"], folded w1]
  have u1: "u < nv G w1" using Cons.prems(3) one(4) by simp
  show ?case
    using Cons.IH [OF one(1) rest u1] one(6) [OF Cons.prems(3)] pci by (auto split: if_splits)
qed

lemma nvml_init_rooted:
  assumes wf: "wf_world G w" and rooted: "rooted G w" and run: "ModuleNvml_init_graph N G w = Some (s, w')"
  shows "rooted G w'"
proof -
  have "\<forall>i < DeviceGetCount N. nvml_known N G w i"
    using nvml_init_spec [OF wf, of N] run by (auto split: if_splits)
  then obtain vertices w1 where loop: "nvml_devices N G [0..<DeviceGetCount N] [] w = Some (vertices, w1)"
    and child: "child_rel G (topology w') = child_rel G (topology w)"
    and root: "m_root_vertex (topology w') = m_root_vertex (topology w)"
    and num: "nv G w' = nv G w" and at: "\<forall>v. vat G w' v = vat G w1 v"
    using nvml_init_spec [OF wf, of N] run by auto
  have "m_type (vat G w u) \<in> {UnknownComponentType, MPIProcess} \<longrightarrow> \<not> is_a (m_type (vat G w u)) PCIDevice" for u
    by (auto simp: is_a_eval)
  then show ?thesis
    using rooted nvml_devices_types [OF wf loop] unfolding rooted_def num child root at[rule_format] by metis
qed

end

end
