(* ===== verification/Supermuc_Module.thy ===== *)
theory Supermuc_Module
  imports Yloc_Module
begin

text \<open>
  The SuperMUC module: \<^verbatim>\<open>modules/supermuc/supermuc_adapter.h\<close> and \<^verbatim>\<open>modules/supermuc/init_graph.cc\<close>.
  Host names like \<^verbatim>\<open>i01r02c03s04\<close> give the position of a node: island, rack, column, slot. The rows
  that \<^verbatim>\<open>MPI_Allgather\<close> collects are the 32 bytes of each process's name buffer; the code cuts
  them by writing terminators into them.
\<close>

section \<open>C strings in rows of bytes\<close>

text \<open>The 32 gathered bytes of a process named \<open>name\<close>; what follows the terminator is arbitrary.\<close>

definition row_of :: "string \<Rightarrow> char list \<Rightarrow> bool" where
  "row_of name row \<longleftrightarrow> length row = 32 \<and> NUL \<notin> set name \<and> (\<exists>rest. row = name @ NUL # rest)"

section \<open>The host name pattern\<close>

definition is_digit :: "char \<Rightarrow> bool" where
  "is_digit c \<longleftrightarrow> c \<in> set ''0123456789''"

text \<open>
  \<^verbatim>\<open>sscanf\<close> on a format of literals, each followed by \<^verbatim>\<open>%2[0-9]\<close>: the number of fields that were
  converted. A field takes one or two digits; neither part skips white space.
\<close>

fun sscanf_fields :: "char list \<Rightarrow> string \<Rightarrow> nat" where
  "sscanf_fields [] s = 0"
| "sscanf_fields (l # ls) [] = 0"
| "sscanf_fields (l # ls) (c # s) =
     (if c = l then
        (let field = takeWhile is_digit (take 2 s)
         in if field = [] then 0 else Suc (sscanf_fields ls (drop (length field) s)))
      else 0)"

definition matches_supermuc :: "string \<Rightarrow> bool" where
  "matches_supermuc hostname \<longleftrightarrow> length hostname = 12 \<and> sscanf_fields ''ircs'' hostname = 4"

section \<open>make_supermuc_graph\<close>

definition supermuc_adapter :: "string \<Rightarrow> 'b adapter" where
  "supermuc_adapter m_obj = base_adapter\<lparr>to_str := m_obj\<rparr>"

text \<open>The vertex of an identifier, with type, description and adapter.\<close>

definition supermuc_vertex :: "'g bgl \<Rightarrow> string \<Rightarrow> ctype \<Rightarrow> string \<Rightarrow> ('g, 'b) world \<Rightarrow>
    vertex_t \<times> ('g, 'b) world" where
  "supermuc_vertex G i t name w =
     (let (vd, w1) = vertex_named G i w;
          w2 = set_description G vd name (set_type G vd t w1);
          (p, w3) = make_shared (supermuc_adapter name) w2
      in (vd, attach G vd p w3))"

definition make_supermuc_node :: "'g bgl \<Rightarrow> string \<Rightarrow> ('g, 'b) world \<Rightarrow> vertex_t \<times> ('g, 'b) world" where
  "make_supermuc_node G name w = supermuc_vertex G (''system:'' @ name) Misc name w"

text \<open>The pair of edges, unless there is an edge already.\<close>

definition add_child_once :: "'g bgl \<Rightarrow> vertex_t \<Rightarrow> vertex_t \<Rightarrow> ('g, 'b) world \<Rightarrow> ('g, 'b) world" where
  "add_child_once G u v w = (if \<not> bg_has_edge G (m_boost (topology w)) u v then add_child G u v w else w)"

definition supermuc_process :: "'g bgl \<Rightarrow> char list \<Rightarrow> ('g, 'b) world \<Rightarrow> ('g, 'b) world" where
  "supermuc_process G row w =
     (let (slot_vd, w1) = supermuc_vertex G (''machine:'' @ c_string row) Node (c_string row) w;
          row9 = row[9 := NUL];
          (column_vd, w2) = make_supermuc_node G (c_string row9) w1;
          row6 = row9[6 := NUL];
          (rack_vd, w3) = make_supermuc_node G (c_string row6) w2;
          row3 = row6[3 := NUL];
          (island_vd, w4) = make_supermuc_node G (c_string row3) w3
      in add_child_once G column_vd slot_vd
           (add_child_once G rack_vd column_vd (add_child_once G island_vd rack_vd w4)))"

fun make_supermuc_graph :: "'g bgl \<Rightarrow> char list list \<Rightarrow> ('g, 'b) world \<Rightarrow> ('g, 'b) world" where
  "make_supermuc_graph G [] w = w"
| "make_supermuc_graph G (row # hostnames) w = make_supermuc_graph G hostnames (supermuc_process G row w)"

definition ModuleSuperMUC_init_graph ::
  "'g bgl \<Rightarrow> bool \<Rightarrow> string \<Rightarrow> char list list \<Rightarrow> ('g, 'b) world \<Rightarrow>
     (yloc_status_t \<times> ('g, 'b) world) option" where
  "ModuleSuperMUC_init_graph G initialized hostname hostnames w =
     (if \<not> initialized then Some (YLOC_STATUS_INIT_ERROR, w)
      else if length hostname \<noteq> 12 then Some (YLOC_STATUS_INIT_ERROR, w)
      else if sscanf_fields ''ircs'' hostname \<noteq> 4 then Some (YLOC_STATUS_INIT_ERROR, w)
      else Some (YLOC_STATUS_SUCCESS, make_supermuc_graph G hostnames w))"

text \<open>The constructor of the module: it is disabled unless the user enables it.\<close>

definition ModuleSuperMUC ::
  "(('g, 'b) world \<Rightarrow> (yloc_status_t \<times> ('g, 'b) world) option) \<Rightarrow> ('g, 'b) module" where
  "ModuleSuperMUC f = (default_module f)\<lparr>m_enabled := False\<rparr>"

section \<open>Rows and names\<close>

lemma c_string_row:
  assumes "row_of name row"
  shows "c_string row = name"
proof -
  from assms obtain rest where row: "row = name @ NUL # rest" and "NUL \<notin> set name"
    by (auto simp: row_of_def)
  then have "\<And>c. c \<in> set name \<Longrightarrow> c \<noteq> NUL" by auto
  then show ?thesis by (simp add: c_string_def row takeWhile_append)
qed

text \<open>The four names that the code reads from a row.\<close>

lemma row_cuts:
  assumes "row_of name row" and "9 \<le> length name"
  shows "c_string row = name"
    and "c_string (row[9 := NUL]) = take 9 name"
    and "c_string (row[9 := NUL, 6 := NUL]) = take 6 name"
    and "c_string (row[9 := NUL, 6 := NUL, 3 := NUL]) = take 3 name"
proof -
  from assms obtain rest where row: "row = name @ NUL # rest" and nul: "NUL \<notin> set name"
    by (auto simp: row_of_def)
  have t: "take k row = take k name" if "k \<le> 9" for k using that assms(2) by (simp add: row)
  have n: "NUL \<notin> set (take k name)" for k using nul by (auto dest: in_set_takeD)
  have len: "9 < length row" using assms(2) by (simp add: row)
  show "c_string row = name" by (rule c_string_row [OF assms(1)])
  show "c_string (row[9 := NUL]) = take 9 name"
    using c_string_cut [of 9 row] len t n by simp
  show "c_string (row[9 := NUL, 6 := NUL]) = take 6 name"
    using c_string_cut [of 6 "row[9 := NUL]"] len t n by simp
  show "c_string (row[9 := NUL, 6 := NUL, 3 := NUL]) = take 3 name"
    using c_string_cut [of 3 "row[9 := NUL, 6 := NUL]"] len t n by simp
qed

section \<open>What the steps do\<close>

lemma supermuc_adapter_typed [simp, intro]: "adapter_typed (supermuc_adapter name)"
  by (auto simp: adapter_typed_def supermuc_adapter_def dest: adapter_map_typed)

context boost_graph
begin

lemma supermuc_vertex_spec:
  fixes i t name w
  assumes wf: "wf_world G w" and t: "t \<noteq> MPIProcess"
  obtains v w' where "supermuc_vertex G i t name w = (v, w')" and "wf_world G w'"
    and "v < nv G w'" and "nv G w \<le> nv G w'" and "warcs G w' = warcs G w"
    and "ids w' = (ids w)(i \<mapsto> v)" and "ids w \<subseteq>\<^sub>m ids w'"
    and "m_type (vat G w' v) = t" and "m_description (vat G w' v) = name"
    and "\<forall>u < nv G w. u \<noteq> v \<longrightarrow> vat G w' u = vat G w u"
    and "ids w i = None \<longrightarrow> v = nv G w"
proof -
  define w1 where "w1 = snd (vertex_named G i w)"
  define v where "v = fst (vertex_named G i w)"
  define w3 where "w3 = snd (make_shared (supermuc_adapter name)
    (set_description G v name (set_type G v t w1)))"
  define w4 where "w4 = attach G v (length (objects w)) w3"
  have g1: "topology w1 = snd (add_vertex G i (topology w))" "v = fst (add_vertex G i (topology w))"
    and o1: "objects w1 = objects w"
    by (simp_all only: w1_def v_def step_simps)
  have wf1: "wf_world G w1" unfolding w1_def by (rule wf_vertex_named [OF wf])
  have v: "v < nv G w1" unfolding g1 by (rule fst_add_vertex_less [OF wf_world_graph [OF wf]])
  have at: "u < nv G w1 \<Longrightarrow> vat G w4 u = (if u = v then
      add_adapter (length (objects w)) (vat G w1 u\<lparr>m_type := t, m_description := name\<rparr>) else vat G w1 u)"
    for u using v by (simp add: w4_def w3_def graph_simps o1)
  have same: "nv G w4 = nv G w1" "warcs G w4 = warcs G w1" "ids w4 = ids w1"
    by (simp_all add: w4_def w3_def graph_simps)
  have le: "nv G w \<le> nv G w1" unfolding g1 num_add_vertex_if by simp
  show thesis
  proof
    show "supermuc_vertex G i t name w = (v, w4)"
      by (simp add: supermuc_vertex_def split_def Let_def w4_def w3_def w1_def v_def step_simps)
    have "wf_world G w3" unfolding w3_def
      by (intro wf_make_shared wf_set_description wf_set_type wf1) (use v t in \<open>simp_all add: graph_simps\<close>)
    then show "wf_world G w4" unfolding w4_def
      by (rule wf_attach) (use v in \<open>simp_all add: w3_def graph_simps o1\<close>)
    show "v < nv G w4" "nv G w \<le> nv G w4" using v le same by simp_all
    show "warcs G w4 = warcs G w" unfolding same g1 by (rule arcs_add_vertex)
    show "ids w4 = (ids w)(i \<mapsto> v)" unfolding same g1 by (rule map_add_vertex)
    show "ids w \<subseteq>\<^sub>m ids w4"
      using extends_vertex_named [of w i] unfolding same w1_def by (simp add: extends_def)
    show "m_type (vat G w4 v) = t" "m_description (vat G w4 v) = name" using v by (simp_all add: at)
    show "\<forall>u < nv G w. u \<noteq> v \<longrightarrow> vat G w4 u = vat G w u"
      using le by (auto simp: at g1 vertex_add_vertex_old)
    show "ids w i = None \<longrightarrow> v = nv G w" by (simp add: g1 add_vertex_new)
  qed
qed

lemma add_child_once_spec:
  assumes "wf_world G w" and "u < nv G w" and "v < nv G w"
  shows "wf_world G (add_child_once G u v w)" and "nv G (add_child_once G u v w) = nv G w"
    and "ids (add_child_once G u v w) = ids w"
    and "vat G (add_child_once G u v w) x = vat G w x"
    and "paired G w \<Longrightarrow> paired G (add_child_once G u v w)"
    and "warcs G (add_child_once G u v w) =
      (if \<exists>t. (u, t, v) \<in># warcs G w then {#} else {#(v, PARENT, u), (u, CHILD, v)#}) + warcs G w"
  using assms by (auto simp: add_child_once_def graph_simps has_edge_arcs intro: wf_add_child paired_add_child)

end

section \<open>The hierarchy\<close>

definition named_at :: "'g bgl \<Rightarrow> ('g, 'b) world \<Rightarrow> string \<Rightarrow> vertex_t \<Rightarrow> ctype \<Rightarrow> string \<Rightarrow> bool" where
  "named_at G w i v t name \<longleftrightarrow> ids w i = Some v \<and> v < nv G w \<and> m_type (vat G w v) = t \<and>
     m_description (vat G w v) = name"

definition hung :: "'g bgl \<Rightarrow> ('g, 'b) world \<Rightarrow> vertex_t \<Rightarrow> vertex_t \<Rightarrow> bool" where
  "hung G w u v \<longleftrightarrow> (u, CHILD, v) \<in># warcs G w \<and> (v, PARENT, u) \<in># warcs G w"

text \<open>A node is in its slot, in its column, in its rack, in its island.\<close>

definition supermuc_placed :: "'g bgl \<Rightarrow> ('g, 'b) world \<Rightarrow> string \<Rightarrow> bool" where
  "supermuc_placed G w name \<longleftrightarrow> (\<exists>island rack column slot.
     named_at G w (''system:'' @ take 3 name) island Misc (take 3 name) \<and>
     named_at G w (''system:'' @ take 6 name) rack Misc (take 6 name) \<and>
     named_at G w (''system:'' @ take 9 name) column Misc (take 9 name) \<and>
     named_at G w (''machine:'' @ name) slot Node name \<and>
     hung G w island rack \<and> hung G w rack column \<and> hung G w column slot)"

text \<open>No two CHILD edges join the same vertices.\<close>

definition simple_children :: "'g bgl \<Rightarrow> ('g, 'b) world \<Rightarrow> bool" where
  "simple_children G w \<longleftrightarrow> (\<forall>u v. count (warcs G w) (u, CHILD, v) \<le> 1)"

text \<open>
  The order of identifiers in the hierarchy, and graphs whose edges down the hierarchy all are
  CHILD edges: there the test for an existing edge, which ignores the kind of edge, is exact.
\<close>

definition below :: "string \<Rightarrow> string \<Rightarrow> bool" where
  "below i j \<longleftrightarrow> (\<exists>s. i = ''system:'' @ s \<and> (\<forall>s'. j = ''system:'' @ s' \<longrightarrow> length s < length s'))"

definition tidy :: "'g bgl \<Rightarrow> ('g, 'b) world \<Rightarrow> bool" where
  "tidy G w \<longleftrightarrow> (\<forall>i j u v t. below i j \<longrightarrow> ids w i = Some u \<longrightarrow> ids w j = Some v \<longrightarrow>
     (u, t, v) \<in># warcs G w \<longrightarrow> t = CHILD)"

definition supermuc_inv :: "'g bgl \<Rightarrow> ('g, 'b) world \<Rightarrow> bool" where
  "supermuc_inv G w \<longleftrightarrow> wf_world G w \<and> paired G w \<and> tidy G w"

definition expected :: "string \<Rightarrow> ctype \<Rightarrow> string \<Rightarrow> bool" where
  "expected i t name \<longleftrightarrow>
     (i = ''machine:'' @ name \<and> t = Node) \<or> (i = ''system:'' @ name \<and> t = Misc)"

text \<open>What the steps of the module do not undo.\<close>

definition keeps :: "'g bgl \<Rightarrow> ('g, 'b) world \<Rightarrow> ('g, 'b) world \<Rightarrow> bool" where
  "keeps G w w' \<longleftrightarrow> warcs G w \<subseteq># warcs G w' \<and> (simple_children G w \<longrightarrow> simple_children G w') \<and>
     (\<forall>i v t name. expected i t name \<longrightarrow> named_at G w i v t name \<longrightarrow> named_at G w' i v t name)"

lemma keeps_refl [simp]: "keeps G w w"
  by (simp add: keeps_def)

lemma keeps_trans: "keeps G a b \<Longrightarrow> keeps G b c \<Longrightarrow> keeps G a c"
  unfolding keeps_def by (meson subset_mset.order_trans)

lemma keeps_hung: "keeps G w w' \<Longrightarrow> hung G w u v \<Longrightarrow> hung G w' u v"
  by (auto simp: keeps_def hung_def dest: mset_subset_eqD)

lemma keeps_named: "keeps G w w' \<Longrightarrow> expected i t name \<Longrightarrow> named_at G w i v t name \<Longrightarrow> named_at G w' i v t name"
  by (simp add: keeps_def)

lemma expected_simps [simp]:
  "expected (''machine:'' @ s) Node s" "expected (''system:'' @ s) Misc s"
  by (simp_all add: expected_def)

lemma expected_unique: "expected i t s \<Longrightarrow> expected i t' s' \<Longrightarrow> t = t' \<and> s = s'"
  by (auto simp: expected_def)

lemma below_simps [simp]:
  "below (''system:'' @ s) (''system:'' @ s') \<longleftrightarrow> length s < length s'"
  "below (''system:'' @ s) (''machine:'' @ s')"
  by (auto simp: below_def)

lemma below_asym: "below i j \<Longrightarrow> \<not> below j i"
  by (force simp: below_def)

lemma keeps_placed: "keeps G w w' \<Longrightarrow> supermuc_placed G w name \<Longrightarrow> supermuc_placed G w' name"
  unfolding supermuc_placed_def by (meson expected_simps keeps_hung keeps_named)

context boost_graph
begin

lemma supermuc_vertex_keeps:
  assumes inv: "supermuc_inv G w" and i: "expected i t name"
  obtains v w' where "supermuc_vertex G i t name w = (v, w')" and "supermuc_inv G w'"
    and "keeps G w w'" and "named_at G w' i v t name"
proof -
  have wf: "wf_world G w" and pair: "paired G w" and tidy: "tidy G w"
    using inv by (simp_all add: supermuc_inv_def)
  obtain v w' where run: "supermuc_vertex G i t name w = (v, w')" and wf': "wf_world G w'"
    and v: "v < nv G w'" and le: "nv G w \<le> nv G w'" and arcs: "warcs G w' = warcs G w"
    and ids': "ids w' = (ids w)(i \<mapsto> v)" and sub: "ids w \<subseteq>\<^sub>m ids w'"
    and new: "m_type (vat G w' v) = t" "m_description (vat G w' v) = name"
    and old: "\<forall>u < nv G w. u \<noteq> v \<longrightarrow> vat G w' u = vat G w u"
    and fresh: "ids w i = None \<longrightarrow> v = nv G w"
    by (rule supermuc_vertex_spec [OF wf, of t i name]) (use i in \<open>auto simp: expected_def intro: that\<close>)
  note inj = wf_graphD(2) [OF wf_world_graph [OF wf]]
  have known: "ids w i = None \<or> ids w i = Some v"
    using sub ids' by (cases "ids w i") (auto simp: map_le_def dom_def split: if_splits)
  have earlier: "ids w j = Some u" if "ids w' j = Some u" "u < nv G w" for j u
    using that ids' known fresh by (auto split: if_splits)
  have tidy': "tidy G w'"
    unfolding tidy_def arcs
    using tidy earlier wf_graphD(3) [OF wf_world_graph [OF wf]] unfolding tidy_def by blast
  have keep: "named_at G w' j u t' s" if "expected j t' s" "named_at G w j u t' s" for j u t' s
  proof (cases "u = v")
    case True
    then have "j = i" using that(2) known fresh inj by (auto simp: named_at_def)
    with that i True show ?thesis
      using expected_unique [OF that(1)] v new ids' by (auto simp: named_at_def)
  next
    case False
    with that(2) show ?thesis using old le sub
      by (auto simp: named_at_def map_le_def dom_def)
  qed
  show thesis
  proof
    show "supermuc_vertex G i t name w = (v, w')" by (rule run)
    show "supermuc_inv G w'" using wf' pair tidy' arcs by (simp add: supermuc_inv_def paired_def)
    show "keeps G w w'" using keep by (simp add: keeps_def arcs simple_children_def)
    show "named_at G w' i v t name" using v new ids' by (simp add: named_at_def)
  qed
qed

lemma add_child_once_keeps:
  assumes inv: "supermuc_inv G w" and u: "named_at G w i u t s" and v: "named_at G w j v t' s'"
    and ij: "below i j"
  shows "supermuc_inv G (add_child_once G u v w)" and "keeps G w (add_child_once G u v w)"
    and "hung G (add_child_once G u v w) u v"
proof -
  have wf: "wf_world G w" and pair: "paired G w" and tidy: "tidy G w"
    using inv by (simp_all add: supermuc_inv_def)
  have uv: "u < nv G w" "v < nv G w" and id: "ids w i = Some u" "ids w j = Some v"
    using u v by (simp_all add: named_at_def)
  note once = add_child_once_spec [OF wf uv]
  note inj = wf_graphD(2) [OF wf_world_graph [OF wf]]
  have pair': "paired G (add_child_once G u v w)" by (rule once(5) [OF pair])
  have "tidy G (add_child_once G u v w)"
    unfolding tidy_def once(3)
  proof (intro allI impI)
    fix a b x y t
    assume ab: "below a b" "ids w a = Some x" "ids w b = Some y"
      and "(x, t, y) \<in># warcs G (add_child_once G u v w)"
    then consider "(x, t, y) \<in># warcs G w" | "t = CHILD" | "x = v" "y = u"
      unfolding once(6) by (auto split: if_splits)
    then show "t = CHILD"
    proof cases
      case 1
      with ab tidy show ?thesis unfolding tidy_def by blast
    next
      case 3
      with ab id inj have "a = j" "b = i" by blast+
      with ab(1) ij below_asym show ?thesis by blast
    qed
  qed
  with once(1) pair' show "supermuc_inv G (add_child_once G u v w)" by (simp add: supermuc_inv_def)
  have "simple_children G w \<Longrightarrow> simple_children G (add_child_once G u v w)"
    unfolding simple_children_def once(6) by (auto simp: not_in_iff)
  then show "keeps G w (add_child_once G u v w)"
    by (auto simp: keeps_def named_at_def once(2,3,4,6))
  have "(u, CHILD, v) \<in># warcs G (add_child_once G u v w)"
    using tidy id ij unfolding once(6) tidy_def by fastforce
  moreover have "(v, PARENT, u) \<in># warcs G (add_child_once G u v w)"
    using paired_member [OF pair' calculation] by simp
  ultimately show "hung G (add_child_once G u v w) u v" by (simp add: hung_def)
qed

lemma supermuc_process_placed:
  assumes inv: "supermuc_inv G w" and row: "row_of name row" "9 \<le> length name"
  shows "supermuc_inv G (supermuc_process G row w) \<and> keeps G w (supermuc_process G row w) \<and>
    supermuc_placed G (supermuc_process G row w) name"
proof -
  note cut = row_cuts [OF row]
  obtain slot w1 where 1: "supermuc_vertex G (''machine:'' @ name) Node name w = (slot, w1)"
      "supermuc_inv G w1" "keeps G w w1" "named_at G w1 (''machine:'' @ name) slot Node name"
    by (rule supermuc_vertex_keeps [OF inv expected_simps(1)])
  obtain column w2 where 2: "make_supermuc_node G (take 9 name) w1 = (column, w2)"
      "supermuc_inv G w2" "keeps G w1 w2"
      "named_at G w2 (''system:'' @ take 9 name) column Misc (take 9 name)"
    unfolding make_supermuc_node_def by (rule supermuc_vertex_keeps [OF 1(2) expected_simps(2)])
  obtain rack w3 where 3: "make_supermuc_node G (take 6 name) w2 = (rack, w3)"
      "supermuc_inv G w3" "keeps G w2 w3"
      "named_at G w3 (''system:'' @ take 6 name) rack Misc (take 6 name)"
    unfolding make_supermuc_node_def by (rule supermuc_vertex_keeps [OF 2(2) expected_simps(2)])
  obtain island w4 where 4: "make_supermuc_node G (take 3 name) w3 = (island, w4)"
      "supermuc_inv G w4" "keeps G w3 w4"
      "named_at G w4 (''system:'' @ take 3 name) island Misc (take 3 name)"
    unfolding make_supermuc_node_def by (rule supermuc_vertex_keeps [OF 3(2) expected_simps(2)])
  define w5 where "w5 = add_child_once G island rack w4"
  define w6 where "w6 = add_child_once G rack column w5"
  define w7 where "w7 = add_child_once G column slot w6"
  have run: "supermuc_process G row w = w7"
    unfolding supermuc_process_def w5_def w6_def w7_def
    using cut 1(1) 2(1) 3(1) 4(1) by simp
  have b: "below (''system:'' @ take 3 name) (''system:'' @ take 6 name)"
    "below (''system:'' @ take 6 name) (''system:'' @ take 9 name)"
    "below (''system:'' @ take 9 name) (''machine:'' @ name)"
    using row(2) below_simps(2) unfolding below_simps(1) by auto
  note rack4 = keeps_named [OF 4(3) expected_simps(2) 3(4)]
  note column4 = keeps_named [OF keeps_trans [OF 3(3) 4(3)] expected_simps(2) 2(4)]
  note slot4 = keeps_named [OF keeps_trans [OF keeps_trans [OF 2(3) 3(3)] 4(3)] expected_simps(1) 1(4)]
  note 5 = add_child_once_keeps [OF 4(2,4) rack4 b(1), folded w5_def]
  note rack5 = keeps_named [OF 5(2) expected_simps(2) rack4]
  note column5 = keeps_named [OF 5(2) expected_simps(2) column4]
  note 6 = add_child_once_keeps [OF 5(1) rack5 column5 b(2), folded w6_def]
  note column6 = keeps_named [OF 6(2) expected_simps(2) column5]
  note slot6 = keeps_named [OF keeps_trans [OF 5(2) 6(2)] expected_simps(1) slot4]
  note 7 = add_child_once_keeps [OF 6(1) column6 slot6 b(3), folded w7_def]
  note k57 = keeps_trans [OF 6(2) 7(2)]
  have "supermuc_placed G w7 name"
    unfolding supermuc_placed_def
    using keeps_named [OF keeps_trans [OF 5(2) k57] expected_simps(2) 4(4)]
      keeps_named [OF k57 expected_simps(2) rack5] keeps_named [OF 7(2) expected_simps(2) column6]
      keeps_named [OF 7(2) expected_simps(1) slot6]
      keeps_hung [OF k57 5(3)] keeps_hung [OF 7(2) 6(3)] 7(3)
    by blast
  moreover have "keeps G w w7"
    using 1(3) 2(3) 3(3) 4(3) 5(2) k57 by (blast intro: keeps_trans)
  ultimately show ?thesis using 7(1) run by simp
qed

lemma make_supermuc_graph_placed:
  "supermuc_inv G w \<Longrightarrow> list_all2 (\<lambda>name row. row_of name row \<and> 9 \<le> length name) names hostnames \<Longrightarrow>
     supermuc_inv G (make_supermuc_graph G hostnames w) \<and>
     keeps G w (make_supermuc_graph G hostnames w) \<and>
     (\<forall>name \<in> set names. supermuc_placed G (make_supermuc_graph G hostnames w) name)"
proof (induction hostnames arbitrary: w names)
  case Nil
  then show ?case by simp
next
  case (Cons row hostnames)
  then obtain name names' where names: "names = name # names'" "row_of name row" "9 \<le> length name"
    and rest: "list_all2 (\<lambda>name row. row_of name row \<and> 9 \<le> length name) names' hostnames"
    by (auto simp: list_all2_Cons2)
  note one = supermuc_process_placed [OF Cons.prems(1) names(2,3)]
  note more = Cons.IH [OF conjunct1 [OF one] rest]
  show ?case
    using one more by (auto simp: names(1) intro: keeps_trans keeps_placed)
qed

text \<open>Without any assumption on the rows the invariants of the topology are kept.\<close>

lemma supermuc_process_keeps:
  assumes wf: "wf_world G w"
  shows "wf_world G (supermuc_process G row w) \<and>
    (paired G w \<longrightarrow> paired G (supermuc_process G row w))"
proof -
  obtain slot w1 where 1: "supermuc_vertex G (''machine:'' @ c_string row) Node (c_string row) w = (slot, w1)"
      "wf_world G w1" "slot < nv G w1" "warcs G w1 = warcs G w"
    by (rule supermuc_vertex_spec [OF wf, of Node]) (simp, rule that)
  obtain column w2 where 2: "make_supermuc_node G (c_string (row[9 := NUL])) w1 = (column, w2)"
      "wf_world G w2" "column < nv G w2" "nv G w1 \<le> nv G w2" "warcs G w2 = warcs G w1"
    by (rule supermuc_vertex_spec [OF 1(2), of Misc]) (simp, rule that [unfolded make_supermuc_node_def])
  obtain rack w3 where 3: "make_supermuc_node G (c_string (row[9 := NUL, 6 := NUL])) w2 = (rack, w3)"
      "wf_world G w3" "rack < nv G w3" "nv G w2 \<le> nv G w3" "warcs G w3 = warcs G w2"
    by (rule supermuc_vertex_spec [OF 2(2), of Misc]) (simp, rule that [unfolded make_supermuc_node_def])
  obtain island w4 where 4: "make_supermuc_node G (c_string (row[9 := NUL, 6 := NUL, 3 := NUL])) w3 = (island, w4)"
      "wf_world G w4" "island < nv G w4" "nv G w3 \<le> nv G w4" "warcs G w4 = warcs G w3"
    by (rule supermuc_vertex_spec [OF 3(2), of Misc]) (simp, rule that [unfolded make_supermuc_node_def])
  have v: "slot < nv G w4" "column < nv G w4" "rack < nv G w4" using 1(3) 2(3,4) 3(3,4) 4(3,4) by auto
  have pair4: "paired G w \<Longrightarrow> paired G w4" using 1(4) 2(5) 3(5) 4(5) by (simp add: paired_def)
  define w5 where "w5 = add_child_once G island rack w4"
  define w6 where "w6 = add_child_once G rack column w5"
  have run: "supermuc_process G row w = add_child_once G column slot w6"
    unfolding supermuc_process_def w5_def w6_def using 1(1) 2(1) 3(1) 4(1) by simp
  note 5 = add_child_once_spec [OF 4(2,3) v(3), folded w5_def]
  have v5: "rack < nv G w5" "column < nv G w5" "slot < nv G w5" using v 5(2) by simp_all
  note 6 = add_child_once_spec [OF 5(1) v5(1,2), folded w6_def]
  have v6: "column < nv G w6" "slot < nv G w6" using v5 6(2) by simp_all
  note 7 = add_child_once_spec [OF 6(1) v6]
  show ?thesis using pair4 5(5) 6(5) 7(1,5) by (simp add: run)
qed

lemma make_supermuc_graph_keeps:
  "wf_world G w \<Longrightarrow> wf_world G (make_supermuc_graph G hostnames w) \<and>
     (paired G w \<longrightarrow> paired G (make_supermuc_graph G hostnames w))"
  using supermuc_process_keeps by (induction hostnames arbitrary: w) auto

lemma supermuc_contract: "module_contract G (ModuleSuperMUC_init_graph G initialized hostname hostnames)"
  using make_supermuc_graph_keeps
  by unfold_locales (auto simp: ModuleSuperMUC_init_graph_def split: if_splits)

end

interpretation supermuc_contract: module_contract adjlist_ops
  "ModuleSuperMUC_init_graph adjlist_ops initialized hostname hostnames"
  for initialized :: bool and hostname :: string and hostnames :: "char list list"
  by (rule adjlist.supermuc_contract)

section \<open>The pattern\<close>

definition scan_field :: "string \<Rightarrow> bool" where
  "scan_field f \<longleftrightarrow> f \<noteq> [] \<and> length f \<le> 2 \<and> (\<forall>c \<in> set f. is_digit c)"

lemma scan_field_greedy: "f = takeWhile is_digit (take 2 s) \<Longrightarrow> f \<noteq> [] \<Longrightarrow> scan_field f"
  by (auto simp: scan_field_def dest: set_takeWhileD intro: order_trans [OF length_takeWhile_le])

lemma sscanf_step:
  assumes "\<forall>l' \<in> set ls. \<not> is_digit l'"
  shows "sscanf_fields (l # ls) s = Suc (length ls) \<longleftrightarrow>
    (\<exists>f rest. s = l # f @ rest \<and> scan_field f \<and> sscanf_fields ls rest = length ls)"
  (is "_ \<longleftrightarrow> ?R")
proof
  assume "sscanf_fields (l # ls) s = Suc (length ls)"
  then obtain s' where s: "s = l # s'" and f: "takeWhile is_digit (take 2 s') \<noteq> []"
    and rest: "sscanf_fields ls (drop (length (takeWhile is_digit (take 2 s'))) s') = length ls"
    by (cases s) (auto simp: Let_def split: if_splits)
  have "s' = takeWhile is_digit (take 2 s') @ drop (length (takeWhile is_digit (take 2 s'))) s'"
    by (metis append_take_drop_id append_eq_conv_conj takeWhile_dropWhile_id append.assoc)
  with s f rest scan_field_greedy show ?R by blast
next
  assume ?R
  then obtain f rest where s: "s = l # f @ rest" and f: "scan_field f"
    and rest: "sscanf_fields ls rest = length ls" by blast
  have digit: "ls = []" if "rest = c # r" "is_digit c" for c r
    using rest that assms by (cases ls) (auto split: if_splits)
  have "length f = 1 \<or> length f = 2" using f by (cases f rule: list.exhaust; cases "tl f") (auto simp: scan_field_def)
  then show "sscanf_fields (l # ls) s = Suc (length ls)"
  proof
    assume "length f = 2"
    then have field: "takeWhile is_digit (take 2 (f @ rest)) = f"
      using f by (simp add: scan_field_def takeWhile_eq_all_conv)
    have "sscanf_fields (l # ls) s = (if f = [] then 0 else Suc (sscanf_fields ls (drop (length f) (f @ rest))))"
      by (simp only: s sscanf_fields.simps field Let_def simp_thms if_True)
    with rest f show ?thesis by (simp add: scan_field_def)
  next
    assume "length f = 1"
    then obtain d where d: "f = [d]" "is_digit d" using f by (auto simp: scan_field_def length_Suc_conv)
    show ?thesis
    proof (cases rest)
      case Nil
      with d rest show ?thesis by (simp add: s)
    next
      case (Cons c r)
      with d rest digit [OF Cons] show ?thesis by (cases "is_digit c") (simp_all add: s)
    qed
  qed
qed

lemma ircs_letters [simp]:
  "\<not> is_digit (CHR ''i'')" "\<not> is_digit (CHR ''r'')" "\<not> is_digit (CHR ''c'')" "\<not> is_digit (CHR ''s'')"
  by (simp_all add: is_digit_def)

section \<open>Properties\<close>

text \<open>
  C40. Which host names the module takes for SuperMUC's: those of 12 characters that begin with the
  four letters, each followed by one or two digits. Fewer digits and any tail will do, so names
  outside the convention \<^verbatim>\<open>i..r..c..s..\<close> of two digits each are accepted too, although the code
  goes on to cut them at the fixed positions 9, 6 and 3.
\<close>

theorem matches_supermuc_iff:
  "(matches_supermuc h \<longleftrightarrow> length h = 12 \<and> (\<exists>i r c s rest.
      h = ''i'' @ i @ ''r'' @ r @ ''c'' @ c @ ''s'' @ s @ rest \<and>
      scan_field i \<and> scan_field r \<and> scan_field c \<and> scan_field s)) \<and>
   matches_supermuc ''i1r2c3s4-new''"
proof
  have 1: "sscanf_fields ''s'' x = 1 \<longleftrightarrow> (\<exists>s rest. x = CHR ''s'' # s @ rest \<and> scan_field s)" for x
    using sscanf_step [of "[]" "CHR ''s''" x] by simp
  have 2: "sscanf_fields ''cs'' x = 2 \<longleftrightarrow>
      (\<exists>c y. x = CHR ''c'' # c @ y \<and> scan_field c \<and> sscanf_fields ''s'' y = 1)" for x
    using sscanf_step [of "''s''" "CHR ''c''" x] by (simp add: eval_nat_numeral del: sscanf_fields.simps)
  have 3: "sscanf_fields ''rcs'' x = 3 \<longleftrightarrow>
      (\<exists>r y. x = CHR ''r'' # r @ y \<and> scan_field r \<and> sscanf_fields ''cs'' y = 2)" for x
    using sscanf_step [of "''cs''" "CHR ''r''" x] by (simp add: eval_nat_numeral del: sscanf_fields.simps)
  have 4: "sscanf_fields ''ircs'' x = 4 \<longleftrightarrow>
      (\<exists>i y. x = CHR ''i'' # i @ y \<and> scan_field i \<and> sscanf_fields ''rcs'' y = 3)" for x
    using sscanf_step [of "''rcs''" "CHR ''i''" x] by (simp add: eval_nat_numeral del: sscanf_fields.simps)
  have "sscanf_fields ''ircs'' h = 4 \<longleftrightarrow> (\<exists>i r c s rest.
      h = CHR ''i'' # i @ CHR ''r'' # r @ CHR ''c'' # c @ CHR ''s'' # s @ rest \<and>
      scan_field i \<and> scan_field r \<and> scan_field c \<and> scan_field s)"
    unfolding 4 3 2 1 by blast
  then show "matches_supermuc h \<longleftrightarrow> length h = 12 \<and> (\<exists>i r c s rest.
      h = ''i'' @ i @ ''r'' @ r @ ''c'' @ c @ ''s'' @ s @ rest \<and>
      scan_field i \<and> scan_field r \<and> scan_field c \<and> scan_field s)"
    by (simp add: matches_supermuc_def)
  show "matches_supermuc ''i1r2c3s4-new''"
    by (simp add: matches_supermuc_def is_digit_def eval_nat_numeral)
qed

text \<open>
  C7. The hierarchy: on a topology in which no edge that goes down the hierarchy is anything but a
  CHILD edge (in particular, on one without SuperMUC vertices), every gathered name
  (of at least 9 characters, ended by a NUL within its row) ends up as a node in its slot, in the column, rack and island of its prefixes of 9, 6 and 3 characters,
  with types and descriptions; and however many processes share a node, rack or island, no two
  CHILD edges join the same vertices if none did before.
\<close>

theorem make_supermuc_graph_hierarchy:
  assumes "boost_graph G" and "wf_world G w" and "paired G w" and "tidy G w"
    and "list_all2 (\<lambda>name row. row_of name row \<and> 9 \<le> length name) names hostnames"
  shows "(\<forall>name \<in> set names. supermuc_placed G (make_supermuc_graph G hostnames w) name) \<and>
    (simple_children G w \<longrightarrow> simple_children G (make_supermuc_graph G hostnames w)) \<and>
    tidy G (make_supermuc_graph G hostnames w)"
  using boost_graph.make_supermuc_graph_placed [OF assms(1) _ assms(5), of w] assms(2,3,4)
  by (auto simp: supermuc_inv_def keeps_def)

definition sample_row :: "string \<Rightarrow> char list" where
  "sample_row name = name @ NUL # replicate (31 - length name) (CHR ''x'')"

theorem make_supermuc_graph_hierarchy_witness:
  "supermuc_placed adjlist_ops
     (make_supermuc_graph adjlist_ops
       [sample_row ''i01r02c03s04'', sample_row ''i01r02c03s04''] (root_graph adjlist_ops :: (adjlist, bool list) world))
     ''i01r02c03s04'' \<and>
   simple_children adjlist_ops
     (make_supermuc_graph adjlist_ops
       [sample_row ''i01r02c03s04'', sample_row ''i01r02c03s04''] (root_graph adjlist_ops :: (adjlist, bool list) world))"
proof -
  have row: "row_of ''i01r02c03s04'' (sample_row ''i01r02c03s04'') \<and> 9 \<le> length ''i01r02c03s04''"
    by (auto simp: row_of_def sample_row_def NUL_def)
  have tidy: "tidy adjlist_ops (root_graph adjlist_ops :: (adjlist, bool list) world)"
    by (simp add: tidy_def step_simps adjlist.new_graph_simps)
  moreover have "simple_children adjlist_ops (root_graph adjlist_ops :: (adjlist, bool list) world)"
    by (simp add: simple_children_def step_simps adjlist.new_graph_simps)
  moreover have rows: "list_all2 (\<lambda>name row. row_of name row \<and> 9 \<le> length name)
      [''i01r02c03s04'', ''i01r02c03s04''] [sample_row ''i01r02c03s04'', sample_row ''i01r02c03s04'']"
    using row by simp
  ultimately show ?thesis
    using make_supermuc_graph_hierarchy [OF boost_graph_adjlist adjlist.wf_root_graph
        adjlist.paired_root_graph tidy rows] by simp
qed

text \<open>
  C33. \<^verbatim>\<open>ModuleSuperMUC::init_graph\<close> touches the topology only when MPI is initialised and the name of
  this host matches; otherwise it reports an error. In every case it returns and keeps the
  invariants, whatever bytes were gathered.
\<close>

theorem ModuleSuperMUC_init_graph_keeps:
  assumes "boost_graph G" and "wf_world G w"
  shows "\<exists>s w'. ModuleSuperMUC_init_graph G initialized hostname hostnames w = Some (s, w') \<and>
    wf_world G w' \<and> (paired G w \<longrightarrow> paired G w') \<and>
    (s = YLOC_STATUS_SUCCESS \<longleftrightarrow> initialized \<and> matches_supermuc hostname) \<and>
    (s \<noteq> YLOC_STATUS_SUCCESS \<longrightarrow> s = YLOC_STATUS_INIT_ERROR \<and> w' = w)"
  using boost_graph.make_supermuc_graph_keeps [OF assms, of hostnames] assms(2)
  by (auto simp: ModuleSuperMUC_init_graph_def matches_supermuc_def)

theorem ModuleSuperMUC_init_graph_keeps_witness:
  "\<exists>s w'. ModuleSuperMUC_init_graph adjlist_ops True ''i01r02c03s04'' [sample_row ''i01r02c03s04'']
      (root_graph adjlist_ops) = Some (s, w') \<and> wf_world adjlist_ops w'"
  using ModuleSuperMUC_init_graph_keeps [OF boost_graph_adjlist adjlist.wf_root_graph,
      of True "''i01r02c03s04''" "[sample_row ''i01r02c03s04'']"] by blast

end
