(* ===== verification/Rocm_Module.thy ===== *)
theory Rocm_Module
  imports Gpu_Link Bdfid Yloc_Module
begin

text \<open>
  The ROCm module: \<^verbatim>\<open>modules/rocm/rocm_adapter.h\<close>, \<^verbatim>\<open>modules/rocm/rocm_impl.cc\<close> and
  \<^verbatim>\<open>modules/rocm/rocm_util.h\<close>. ROCm-SMI is a parameter: what its functions write for a device index,
  \<open>None\<close> being any code but \<^verbatim>\<open>RSMI_STATUS_SUCCESS\<close>. In \<^verbatim>\<open>rocm_impl.cc\<close> the names \<^verbatim>\<open>type\<close> and
  \<^verbatim>\<open>YLOC_GPU_INTERCONNECT\<close>, which do not exist, are read as \<^verbatim>\<open>m_type\<close> and \<^verbatim>\<open>GPU_INTERCONNECT\<close>; what is
  only printed is left out, but for the arrays that are read for it.
\<close>

section \<open>The library\<close>

record rocm_frequencies =
  rf_num_supported :: u32
  rf_current :: u32
  rf_frequency :: "u32 \<Rightarrow> u64"                        \<comment> \<open>in Hz, the array from its start\<close>

record rocm_pcie_bandwidth =
  transfer_rate :: rocm_frequencies
  lanes :: "u32 \<Rightarrow> u32"                               \<comment> \<open>the array from its start\<close>

record rocm_api =
  dev_name_get :: "nat \<Rightarrow> char list"                  \<comment> \<open>the buffer of 2048 bytes after the call\<close>
  dev_memory_total_get :: "nat \<Rightarrow> u64 option"         \<comment> \<open>of the visible VRAM, as the next one\<close>
  dev_memory_usage_get :: "nat \<Rightarrow> u64 option"
  dev_memory_busy_percent_get :: "nat \<Rightarrow> u32 option"
  dev_gpu_clk_freq_get_MEM :: "nat \<Rightarrow> rocm_frequencies option"
  dev_gpu_clk_freq_get_SYS :: "nat \<Rightarrow> rocm_frequencies option"
  dev_pci_id_get :: "nat \<Rightarrow> u64 option"
  topo_numa_affinity_get :: "nat \<Rightarrow> u32 option"
  dev_temp_metric_get :: "nat \<Rightarrow> u64 option"          \<comment> \<open>the bits of an \<^verbatim>\<open>int64_t\<close>\<close>
  dev_busy_percent_get :: "nat \<Rightarrow> u32 option"
  dev_power_ave_get :: "nat \<Rightarrow> u64 option"
  dev_pci_throughput_get :: "nat \<Rightarrow> (u64 \<times> u64) option"  \<comment> \<open>sent and received, in bytes\<close>
  dev_pci_bandwidth_get :: "nat \<Rightarrow> rocm_pcie_bandwidth option"
  RSMI_MAX_NUM_FREQUENCIES :: nat                    \<comment> \<open>the length of both arrays\<close>
  num_monitor_devices :: "u32 option"
  topo_get_link_hops :: "nat \<Rightarrow> nat \<Rightarrow> u64"           \<comment> \<open>\<^verbatim>\<open>hops\<close> after \<^verbatim>\<open>rsmi_topo_get_link_type\<close>\<close>

section \<open>The adapter\<close>

definition rocm_to_string :: "rocm_api \<Rightarrow> nat \<Rightarrow> string" where
  "rocm_to_string R m_obj = c_string ((dev_name_get R m_obj)[2048 - 1 := NUL])"

definition rocm_memory :: "rocm_api \<Rightarrow> nat \<Rightarrow> u64 option" where
  "rocm_memory R m_obj = dev_memory_total_get R m_obj"

definition rocm_memory_usage :: "rocm_api \<Rightarrow> nat \<Rightarrow> u64 option" where
  "rocm_memory_usage R m_obj = dev_memory_usage_get R m_obj"

definition rocm_memory_load :: "rocm_api \<Rightarrow> nat \<Rightarrow> u64 option" where
  "rocm_memory_load R m_obj = map_option ucast (dev_memory_busy_percent_get R m_obj)"

text \<open>
  \<^verbatim>\<open>f.frequency[f.current]\<close>; \<open>None\<close> is a read outside of the array. The two functions that use it have this
  outer \<open>None\<close> as well, the inner one being no value.
\<close>

definition current_frequency :: "rocm_api \<Rightarrow> rocm_frequencies \<Rightarrow> u64 option" where
  "current_frequency R f =
     (if unat (rf_current f) < RSMI_MAX_NUM_FREQUENCIES R then Some (rf_frequency f (rf_current f)) else None)"

definition rocm_memory_frequency :: "rocm_api \<Rightarrow> nat \<Rightarrow> u64 option option" where
  "rocm_memory_frequency R m_obj =
     (case dev_gpu_clk_freq_get_MEM R m_obj of None \<Rightarrow> Some None | Some f \<Rightarrow> map_option Some (current_frequency R f))"

definition rocm_bdfid :: "rocm_api \<Rightarrow> nat \<Rightarrow> u64 option" where
  "rocm_bdfid R m_obj = dev_pci_id_get R m_obj"

definition rocm_numa_affinity :: "rocm_api \<Rightarrow> nat \<Rightarrow> u64 option" where
  "rocm_numa_affinity R m_obj = map_option ucast (topo_numa_affinity_get R m_obj)"

definition rocm_temperature :: "rocm_api \<Rightarrow> nat \<Rightarrow> u64 option" where
  "rocm_temperature R m_obj = dev_temp_metric_get R m_obj"

definition rocm_frequency :: "rocm_api \<Rightarrow> nat \<Rightarrow> u64 option option" where
  "rocm_frequency R m_obj =
     (case dev_gpu_clk_freq_get_SYS R m_obj of None \<Rightarrow> Some None | Some f \<Rightarrow> map_option Some (current_frequency R f))"

definition rocm_load :: "rocm_api \<Rightarrow> nat \<Rightarrow> u64 option" where
  "rocm_load R m_obj = map_option ucast (dev_busy_percent_get R m_obj)"

definition rocm_power :: "rocm_api \<Rightarrow> nat \<Rightarrow> u64 option" where
  "rocm_power R m_obj = dev_power_ave_get R m_obj"

definition rocm_pci_throughput :: "rocm_api \<Rightarrow> nat \<Rightarrow> u64 option" where
  "rocm_pci_throughput R m_obj =
     map_option (\<lambda>(sent, received). sent + received) (dev_pci_throughput_get R m_obj)"

definition rocm_pci_throughput_read :: "rocm_api \<Rightarrow> nat \<Rightarrow> u64 option" where
  "rocm_pci_throughput_read R m_obj =
     map_option (\<lambda>(sent, received). received) (dev_pci_throughput_get R m_obj)"

definition rocm_pci_throughput_write :: "rocm_api \<Rightarrow> nat \<Rightarrow> u64 option" where
  "rocm_pci_throughput_write R m_obj =
     map_option (\<lambda>(sent, received). sent) (dev_pci_throughput_get R m_obj)"

text \<open>
  The object \<^verbatim>\<open>RocmAdapter(m_obj)\<close>. It is what its functions return, so a device of which a frequency is read
  outside of the array, where C++ leaves open what happens, is outside of this model. ROCm-SMI documents
  that the index is within the array (\<open>clocks_in_bounds\<close>).
\<close>

definition clocks_in_bounds :: "rocm_api \<Rightarrow> bool" where
  "clocks_in_bounds R \<longleftrightarrow> (\<forall>d f. dev_gpu_clk_freq_get_MEM R d = Some f \<or> dev_gpu_clk_freq_get_SYS R d = Some f \<longrightarrow>
     unat (rf_current f) < RSMI_MAX_NUM_FREQUENCIES R)"

lemma clocks_read:
  "clocks_in_bounds R \<Longrightarrow> rocm_memory_frequency R d \<noteq> None \<and> rocm_frequency R d \<noteq> None"
  by (auto simp: clocks_in_bounds_def rocm_memory_frequency_def rocm_frequency_def current_frequency_def
      split: option.split)

definition rocm_adapter :: "rocm_api \<Rightarrow> nat \<Rightarrow> 'b adapter" where
  "rocm_adapter R m_obj =
     override Adapter_memory (map_option U64 (rocm_memory R m_obj))
      (override Adapter_memory_usage (map_option U64 (rocm_memory_usage R m_obj))
       (override Adapter_memory_load (map_option U64 (rocm_memory_load R m_obj))
        (override Adapter_memory_frequency (map_option U64 (Option.bind (rocm_memory_frequency R m_obj) id))
         (override Adapter_bdfid (map_option U64 (rocm_bdfid R m_obj))
          (override Adapter_numa_affinity (map_option U64 (rocm_numa_affinity R m_obj))
           (override Adapter_temperature (map_option I64 (rocm_temperature R m_obj))
            (override Adapter_frequency (map_option U64 (Option.bind (rocm_frequency R m_obj) id))
             (override Adapter_load (map_option U64 (rocm_load R m_obj))
              (override Adapter_power (map_option U64 (rocm_power R m_obj))
               (override Adapter_pci_throughput (map_option U64 (rocm_pci_throughput R m_obj))
                (override Adapter_pci_throughput_read
                   (map_option U64 (rocm_pci_throughput_read R m_obj))
                 (override Adapter_pci_throughput_write
                    (map_option U64 (rocm_pci_throughput_write R m_obj))
                  (base_adapter\<lparr>to_str := rocm_to_string R m_obj\<rparr>)))))))))))))"

lemma rocm_adapter_typed [simp, intro]: "adapter_typed (rocm_adapter R d)"
proof -
  have "adapter_typed (base_adapter\<lparr>to_str := s\<rparr>)" for s
    by (auto simp: adapter_typed_def dest: adapter_map_typed)
  then show ?thesis unfolding rocm_adapter_def by (intro override_typed) auto
qed

section \<open>ModuleRocm\<close>

text \<open>
  The local variables of \<^verbatim>\<open>init_graph\<close> that only ROCm-SMI writes: \<^verbatim>\<open>num_devices\<close>, \<^verbatim>\<open>bdfid\<close>, and
  \<^verbatim>\<open>bandwidth\<close>, a variable of every round of the loop. What they hold before is a parameter. The code
  that ROCm-SMI returns is only printed (\<^verbatim>\<open>CHECK_ROCM_MSG\<close>), and that of \<^verbatim>\<open>rsmi_init\<close> only leads to a call
  of \<^verbatim>\<open>rsmi_shut_down\<close> (\<^verbatim>\<open>EXIT_ERR_ROCM\<close> does not exit): a variable whose call fails keeps its value.
\<close>

record rocm_locals =
  l_num_devices :: u32
  l_bdfid :: u64
  l_bandwidth :: "nat \<Rightarrow> rocm_pcie_bandwidth"

definition rocm_num_devices :: "rocm_api \<Rightarrow> rocm_locals \<Rightarrow> nat" where
  "rocm_num_devices R L =
     unat (case num_monitor_devices R of Some num_devices \<Rightarrow> num_devices | None \<Rightarrow> l_num_devices L)"

text \<open>
  The largest and the current PCIe bandwidth, printed for every device. \<open>None\<close> is an index that is not
  one of the two arrays, which C++ leaves undefined: \<^verbatim>\<open>num_supported - 1\<close> wraps around for a device
  without bandwidths.
\<close>

definition pcie_bandwidths :: "rocm_api \<Rightarrow> rocm_pcie_bandwidth \<Rightarrow> (u64 \<times> u64) option" where
  "pcie_bandwidths R bandwidth =
     (let f = transfer_rate bandwidth;
          last = rf_num_supported f - 1
      in if unat last < RSMI_MAX_NUM_FREQUENCIES R \<and> unat (rf_current f) < RSMI_MAX_NUM_FREQUENCIES R
         then Some (rf_frequency f last * ucast (lanes bandwidth last),
                    rf_frequency f (rf_current f) * ucast (lanes bandwidth (rf_current f)))
         else None)"

definition rocm_bandwidths :: "rocm_api \<Rightarrow> rocm_locals \<Rightarrow> nat \<Rightarrow> (u64 \<times> u64) option" where
  "rocm_bandwidths R L dev_index =
     pcie_bandwidths R (case dev_pci_bandwidth_get R dev_index of
         Some bandwidth \<Rightarrow> bandwidth
       | None \<Rightarrow> l_bandwidth L dev_index)"

text \<open>The vertex of a device at its address.\<close>

definition mark_rocm_vertex :: "rocm_api \<Rightarrow> 'g bgl \<Rightarrow> nat \<Rightarrow> u64 \<Rightarrow> ('g, 'b) world \<Rightarrow> vertex_t \<times> ('g, 'b) world" where
  "mark_rocm_vertex R G dev_index bdfid w =
     (let (p, w1) = make_shared (rocm_adapter R dev_index) w;
          (vd, w2) = vertex_named G (bdfid_identifier bdfid) w1;
          w3 = attach G vd p w2;
          w4 = set_description G vd (rocm_to_string R dev_index) w3
      in (vd, set_type G vd GPU w4))"

text \<open>
  The body of the loop over the devices. The variable \<^verbatim>\<open>bdfid\<close> is declared outside the loop: when
  \<^verbatim>\<open>rsmi_dev_pci_id_get\<close> fails, it holds the address of the device before. \<open>None\<close> is a read outside of
  an array or a failed assertion.
\<close>

definition rocm_device :: "rocm_api \<Rightarrow> rocm_locals \<Rightarrow> 'g bgl \<Rightarrow> nat \<Rightarrow> u64 \<times> ('g, 'b) world \<Rightarrow>
    (vertex_t \<times> u64 \<times> ('g, 'b) world) option" where
  "rocm_device R L G dev_index state =
     (let (bdfid, w) = state;
          bdfid = (case dev_pci_id_get R dev_index of Some b \<Rightarrow> b | None \<Rightarrow> bdfid)
      in case rocm_bandwidths R L dev_index of
           None \<Rightarrow> None
         | Some (bandwidth_pcie_max, bandwidth_pcie_current) \<Rightarrow>
             (let (vd, w') = mark_rocm_vertex R G dev_index bdfid w
              in if element_is_a (vat G w' vd) PCIDevice \<and> element_is_a (vat G w' vd) Accelerator \<and>
                    element_is_a (vat G w' vd) GPU
                 then Some (vd, bdfid, w') else None))"

fun rocm_devices :: "rocm_api \<Rightarrow> rocm_locals \<Rightarrow> 'g bgl \<Rightarrow> nat list \<Rightarrow> vertex_t list \<Rightarrow> u64 \<times> ('g, 'b) world \<Rightarrow>
    (vertex_t list \<times> u64 \<times> ('g, 'b) world) option" where
  "rocm_devices R L G [] vertices state = Some (vertices, state)"
| "rocm_devices R L G (i # is) vertices state =
     Option.bind (rocm_device R L G i state) (\<lambda>r. rocm_devices R L G is (vertices @ [fst r]) (snd r))"

definition rocm_direct :: "rocm_api \<Rightarrow> nat \<Rightarrow> nat \<Rightarrow> bool" where
  "rocm_direct R src dst \<longleftrightarrow> topo_get_link_hops R src dst = 1"

definition yloc_rocm_gpu_interconnect :: "rocm_api \<Rightarrow> 'g bgl \<Rightarrow> nat \<Rightarrow> vertex_t list \<Rightarrow>
    ('g, 'b) world \<Rightarrow> u64 \<times> ('g, 'b) world" where
  "yloc_rocm_gpu_interconnect R G num_devices vertices w =
     gpu_interconnect G (rocm_direct R) num_devices vertices w"

definition ModuleRocm_init_graph :: "rocm_api \<Rightarrow> rocm_locals \<Rightarrow> 'g bgl \<Rightarrow> ('g, 'b) world \<Rightarrow>
    (yloc_status_t \<times> ('g, 'b) world) option" where
  "ModuleRocm_init_graph R L G w =
     (let num_devices = rocm_num_devices R L
      in Option.bind (rocm_devices R L G [0..<num_devices] [] (l_bdfid L, w))
           (\<lambda>(vertices, bdfid, w1).
             Some (YLOC_STATUS_SUCCESS, snd (yloc_rocm_gpu_interconnect R G num_devices vertices w1))))"

text \<open>
  The two arrays are read inside their bounds. ROCm-SMI documents this of the bandwidths that it
  returns with success.
\<close>

definition bandwidths_in_bounds :: "rocm_api \<Rightarrow> rocm_locals \<Rightarrow> bool" where
  "bandwidths_in_bounds R L \<longleftrightarrow> (\<forall>i < rocm_num_devices R L. rocm_bandwidths R L i \<noteq> None)"

section \<open>What the loop does\<close>

text \<open>The address under which the devices of a list are looked up, from the value before.\<close>

fun rocm_addresses :: "rocm_api \<Rightarrow> u64 \<Rightarrow> nat list \<Rightarrow> u64 list" where
  "rocm_addresses R b [] = []"
| "rocm_addresses R b (i # is) =
     (case dev_pci_id_get R i of Some a \<Rightarrow> a # rocm_addresses R a is
      | None \<Rightarrow> b # rocm_addresses R b is)"

lemma length_rocm_addresses [simp]: "length (rocm_addresses R b is) = length is"
  by (induction "is" arbitrary: b) (auto split: option.splits)

lemma rocm_addresses_own:
  "i < length is \<Longrightarrow> dev_pci_id_get R (is ! i) = Some a \<Longrightarrow> rocm_addresses R b is ! i = a"
  by (induction "is" arbitrary: b i) (auto simp: nth_Cons split: option.splits nat.splits)

lemma rocm_addresses_stale:
  "Suc i < length is \<Longrightarrow> dev_pci_id_get R (is ! Suc i) = None \<Longrightarrow>
     rocm_addresses R b is ! Suc i = rocm_addresses R b is ! i"
proof (induction "is" arbitrary: b i)
  case (Cons j js)
  then show ?case
    by (cases i; cases js) (auto split: option.splits)
qed simp

text \<open>The vertices of new identifiers are new.\<close>

definition fresh_ids :: "'g bgl \<Rightarrow> ('g, 'b) world \<Rightarrow> ('g, 'b) world \<Rightarrow> bool" where
  "fresh_ids G w w' \<longleftrightarrow> (\<forall>i v. ids w' i = Some v \<longrightarrow> ids w i = Some v \<or> nv G w \<le> v)"

text \<open>Device \<open>d\<close>, a pair of an index and an address, is marked at vertex \<open>v\<close>.\<close>

definition rocm_marked :: "rocm_api \<Rightarrow> 'g bgl \<Rightarrow> ('g, 'b) world \<Rightarrow> nat \<times> u64 \<Rightarrow> vertex_t \<Rightarrow> bool" where
  "rocm_marked R G w d v \<longleftrightarrow> gpu_at G w (bdfid_identifier (snd d)) v (rocm_adapter R (fst d))"

context boost_graph
begin

lemma marks_steps:
  "marks G w (snd (make_shared a w))"
  "marks G w (snd (vertex_named G i w))"
  "v < nv G w \<Longrightarrow> marks G w (attach G v p w)"
  "v < nv G w \<Longrightarrow> marks G w (set_description G v s w)"
  "v < nv G w \<Longrightarrow> marks G w (set_type G v GPU w)"
proof -
  show "marks G w (snd (vertex_named G i w))"
    using extends_vertex_named [of w i] by (auto simp: marks_def extends_def graph_simps vertex_add_vertex_old)
qed (auto simp: marks_def graph_simps)

lemma mark_rocm_vertex_spec:
  fixes w :: "('g, 'b) world"
  assumes wf: "wf_world G w" and run: "mark_rocm_vertex R G i b w = (v, w')"
  shows "wf_world G w'" and "marks G w w'" and "fresh_ids G w w'"
    and "dom (ids w') = insert (bdfid_identifier b) (dom (ids w))"
    and "gpu_at G w' (bdfid_identifier b) v (rocm_adapter R i)"
proof -
  define a p where "a = (rocm_adapter R i :: 'b adapter)" and "p = length (objects w)"
  define w1 where "w1 = snd (make_shared a w)"
  define w2 where "w2 = snd (vertex_named G (bdfid_identifier b) w1)"
  define w3 where "w3 = attach G v p w2"
  define w4 where "w4 = set_description G v (rocm_to_string R i) w3"
  have v_def: "v = fst (vertex_named G (bdfid_identifier b) w1)" and w': "w' = set_type G v GPU w4"
    using run by (auto simp: mark_rocm_vertex_def Let_def make_shared_def w1_def w2_def w3_def w4_def p_def a_def
        split: prod.splits)
  have wf1: "wf_world G w1" unfolding w1_def by (rule wf_make_shared [OF wf]) (simp add: a_def)
  have wf2: "wf_world G w2" unfolding w2_def by (rule wf_vertex_named [OF wf1])
  have id2: "ids w2 = (ids w)(bdfid_identifier b \<mapsto> v)"
    by (simp add: w2_def w1_def v_def graph_simps)
  have v: "v < nv G w2" by (rule wf_graphD(1) [OF wf_world_graph [OF wf2], of "bdfid_identifier b"]) (simp add: id2)
  have n: "nv G w3 = nv G w2" "nv G w4 = nv G w2" "nv G w' = nv G w2"
    by (simp_all add: w3_def w4_def w' graph_simps)
  have p: "p < length (objects w2)" "objects w2 ! p = a"
    by (simp_all add: p_def w2_def w1_def graph_simps)
  have o: "objects w' = objects w2" "ids w' = ids w2"
    by (simp_all add: w3_def w4_def w' graph_simps)
  show "wf_world G w'"
    unfolding w' w4_def w3_def
    by (intro wf_set_type wf_set_description wf_attach wf2) (use v p in \<open>simp_all add: graph_simps\<close>)
  have "marks G w w2" unfolding w2_def w1_def by (rule marks_trans [OF marks_steps(1,2)])
  moreover have "marks G w2 w3" unfolding w3_def by (rule marks_steps(3) [OF v])
  moreover have "marks G w3 w4" unfolding w4_def by (rule marks_steps(4)) (simp add: n v)
  moreover have "marks G w4 w'" unfolding w' by (rule marks_steps(5)) (simp add: n v)
  ultimately show "marks G w w'" by (blast intro: marks_trans)
  have "v = nv G w" if "ids w (bdfid_identifier b) = None"
    using that by (simp add: v_def w1_def graph_simps add_vertex_new)
  moreover have "v = u" if "ids w (bdfid_identifier b) = Some u" for u
    using that by (simp add: v_def w1_def graph_simps add_vertex_known)
  ultimately show "fresh_ids G w w'"
    by (cases "ids w (bdfid_identifier b)") (auto simp: fresh_ids_def o id2 split: if_splits)
  show "dom (ids w') = insert (bdfid_identifier b) (dom (ids w))" by (auto simp: o id2)
  have "vat G w' v = add_adapter p (vat G w2 v)\<lparr>m_description := rocm_to_string R i, m_type := GPU\<rparr>"
    using v by (simp add: w3_def w4_def w' graph_simps)
  then show "gpu_at G w' (bdfid_identifier b) v (rocm_adapter R i)"
    using v p by (auto simp: gpu_at_def o id2 n a_def [symmetric])
qed

lemma rocm_device_spec:
  fixes w :: "('g, 'b) world"
  assumes wf: "wf_world G w" and b': "b' = (case dev_pci_id_get R i of Some a \<Rightarrow> a | None \<Rightarrow> b)"
    and reads: "rocm_bandwidths R L i \<noteq> None"
  shows "\<exists>v w'. rocm_device R L G i (b, w) = Some (v, b', w') \<and> wf_world G w' \<and> marks G w w' \<and>
    fresh_ids G w w' \<and> dom (ids w') = insert (bdfid_identifier b') (dom (ids w)) \<and>
    gpu_at G w' (bdfid_identifier b') v (rocm_adapter R i)"
proof -
  obtain v w' where run: "mark_rocm_vertex R G i b' w = (v, w')" by fastforce
  note spec = mark_rocm_vertex_spec [OF wf run]
  have "is_a GPU PCIDevice" "is_a GPU Accelerator" "is_a GPU GPU" by (simp_all add: is_a_eval)
  then have "element_is_a (vat G w' v) PCIDevice" "element_is_a (vat G w' v) Accelerator"
    "element_is_a (vat G w' v) GPU"
    using spec(5) by (simp_all add: gpu_at_def element_is_a_def)
  then have "rocm_device R L G i (b, w) = Some (v, b', w')"
    using reads by (auto simp: rocm_device_def b' [symmetric] run)
  with spec show ?thesis by blast
qed

text \<open>A read outside of an array is the only way to fail.\<close>

lemma rocm_device_stuck: "rocm_bandwidths R L i = None \<Longrightarrow> rocm_device R L G i state = None"
  by (simp add: rocm_device_def Let_def split: prod.splits)

lemma fresh_ids_trans:
  assumes "fresh_ids G a b" and "fresh_ids G b c" and "nv G a \<le> nv G b"
  shows "fresh_ids G a c"
  using assms unfolding fresh_ids_def by (meson order_trans)

text \<open>The loop marks the vertices of all devices.\<close>

lemma rocm_devices_spec:
  fixes w :: "('g, 'b) world"
  assumes "wf_world G w" and "\<forall>i \<in> set is. rocm_bandwidths R L i \<noteq> None"
  shows "\<exists>new b' w'. rocm_devices R L G is vertices (b, w) = Some (vertices @ new, b', w') \<and> wf_world G w' \<and>
    marks G w w' \<and> fresh_ids G w w' \<and>
    dom (ids w') = dom (ids w) \<union> bdfid_identifier ` set (rocm_addresses R b is) \<and>
    list_all2 (rocm_marked R G w') (zip is (rocm_addresses R b is)) new"
  using assms
proof (induction "is" arbitrary: vertices b w)
  case Nil
  then show ?case by (simp add: fresh_ids_def)
next
  case (Cons i "is")
  define b' where "b' = (case dev_pci_id_get R i of Some a \<Rightarrow> a | None \<Rightarrow> b)"
  have addr: "rocm_addresses R b (i # is) = b' # rocm_addresses R b' is"
    by (simp add: b'_def split: option.splits)
  obtain v w1 where step: "rocm_device R L G i (b, w) = Some (v, b', w1)" "wf_world G w1" "marks G w w1"
    "fresh_ids G w w1" "dom (ids w1) = insert (bdfid_identifier b') (dom (ids w))"
    "gpu_at G w1 (bdfid_identifier b') v (rocm_adapter R i)"
    using rocm_device_spec [OF Cons.prems(1) b'_def, of L] Cons.prems(2) by fastforce
  obtain new b'' w' where rest: "rocm_devices R L G is (vertices @ [v]) (b', w1) =
      Some ((vertices @ [v]) @ new, b'', w')" "wf_world G w'" "marks G w1 w'" "fresh_ids G w1 w'"
    "dom (ids w') = dom (ids w1) \<union> bdfid_identifier ` set (rocm_addresses R b' is)"
    "list_all2 (rocm_marked R G w') (zip is (rocm_addresses R b' is)) new"
    using Cons.IH [OF step(2), of "vertices @ [v]" b'] Cons.prems(2) by auto
  have "rocm_devices R L G (i # is) vertices (b, w) = Some (vertices @ v # new, b'', w')"
    using step(1) rest(1) by simp
  moreover have "marks G w w'" by (rule marks_trans [OF step(3) rest(3)])
  moreover have "fresh_ids G w w'"
    using fresh_ids_trans [OF step(4) rest(4)] step(3) by (simp add: marks_def)
  moreover have "dom (ids w') = dom (ids w) \<union> bdfid_identifier ` set (rocm_addresses R b (i # is))"
    unfolding addr rest(5) step(5) by auto
  moreover have "list_all2 (rocm_marked R G w') (zip (i # is) (rocm_addresses R b (i # is))) (v # new)"
    unfolding addr using gpu_at_marks [OF rest(3) step(6)] rest(6) by (simp add: rocm_marked_def)
  ultimately show ?case using rest(2) by blast
qed

lemma rocm_devices_stuck:
  assumes "i \<in> set is" and "rocm_bandwidths R L i = None"
  shows "rocm_devices R L G is vertices state = None"
  using assms
proof (induction "is" arbitrary: vertices state)
  case (Cons j js)
  then show ?case by (cases "rocm_device R L G j state") (auto simp: rocm_device_stuck)
qed simp

lemma rocm_init_stuck:
  assumes "\<not> bandwidths_in_bounds R L"
  shows "ModuleRocm_init_graph R L G w = None"
proof -
  obtain i where i: "i < rocm_num_devices R L" "rocm_bandwidths R L i = None"
    using assms unfolding bandwidths_in_bounds_def by blast
  then have "rocm_devices R L G [0..<rocm_num_devices R L] [] (l_bdfid L, w) = None"
    by (intro rocm_devices_stuck [where i = i]) simp_all
  then show ?thesis by (simp add: ModuleRocm_init_graph_def)
qed

lemma rocm_init_spec:
  fixes w :: "('g, 'b) world"
  assumes wf: "wf_world G w" and reads: "bandwidths_in_bounds R L" and n_def: "n = rocm_num_devices R L"
  shows "\<exists>vertices w'. ModuleRocm_init_graph R L G w = Some (YLOC_STATUS_SUCCESS, w') \<and>
    wf_world G w' \<and> (paired G w \<longrightarrow> paired G w') \<and> fresh_ids G w w' \<and> ids w \<subseteq>\<^sub>m ids w' \<and>
    dom (ids w') = dom (ids w) \<union> bdfid_identifier ` set (rocm_addresses R (l_bdfid L) [0..<n]) \<and>
    list_all2 (rocm_marked R G w') (zip [0..<n] (rocm_addresses R (l_bdfid L) [0..<n])) vertices \<and>
    child_rel G (topology w') = child_rel G (topology w) \<and>
    m_root_vertex (topology w') = m_root_vertex (topology w) \<and>
    interconnected G (rocm_direct R) n vertices w w'"
proof -
  obtain vertices b' w1 where loop: "rocm_devices R L G [0..<n] [] (l_bdfid L, w) = Some (vertices, b', w1)"
    and wf1: "wf_world G w1" and m1: "marks G w w1" and f1: "fresh_ids G w w1"
    and dom1: "dom (ids w1) = dom (ids w) \<union> bdfid_identifier ` set (rocm_addresses R (l_bdfid L) [0..<n])"
    and at1: "list_all2 (rocm_marked R G w1) (zip [0..<n] (rocm_addresses R (l_bdfid L) [0..<n])) vertices"
    using rocm_devices_spec [OF wf, of "[0..<n]" R L "[]" "l_bdfid L"] reads n_def
    by (auto simp: bandwidths_in_bounds_def)
  have len: "length vertices = n" using list_all2_lengthD [OF at1] by simp
  have lt: "\<forall>v \<in> set vertices. v < nv G w1"
  proof
    fix v assume "v \<in> set vertices"
    then obtain d where "rocm_marked R G w1 d v" using at1 by (auto simp: list_all2_conv_all_nth in_set_conv_nth)
    then show "v < nv G w1" by (auto simp: rocm_marked_def gpu_at_def)
  qed
  obtain w' where links: "gpu_interconnect G (rocm_direct R) n vertices w1 =
      (of_nat (card (linked_pairs (rocm_direct R) n)), w')"
    and w': "wf_world G w'" "paired G w1 \<longrightarrow> paired G w'" "nv G w' = nv G w1"
      "\<forall>v. vat G w' v = vat G w1 v" "ids w' = ids w1" "objects w' = objects w1"
      "child_rel G (topology w') = child_rel G (topology w1)"
      "interconnected G (rocm_direct R) n vertices w1 w'"
      "m_root_vertex (topology w') = m_root_vertex (topology w1)"
    using gpu_interconnect_spec [OF wf1 lt len, of "rocm_direct R"] by blast
  have run: "ModuleRocm_init_graph R L G w = Some (YLOC_STATUS_SUCCESS, w')"
    using loop links by (simp add: ModuleRocm_init_graph_def yloc_rocm_gpu_interconnect_def n_def Let_def)
  have arcs: "warcs G w1 = warcs G w" using m1 by (simp add: marks_def)
  have "rocm_marked R G w' = rocm_marked R G w1"
    by (intro ext) (simp add: rocm_marked_def gpu_at_cong [OF w'(5,3,4,6)])
  then have at: "list_all2 (rocm_marked R G w') (zip [0..<n] (rocm_addresses R (l_bdfid L) [0..<n])) vertices"
    using at1 by simp
  have "interconnected G (rocm_direct R) n vertices w w'"
    using w'(8) by (simp add: interconnected_def arcs)
  moreover have "paired G w \<longrightarrow> paired G w'" using w'(2) by (simp add: paired_def arcs)
  moreover have "child_rel G (topology w') = child_rel G (topology w)"
    using w'(7) by (simp add: child_rel_def arcs)
  moreover have "m_root_vertex (topology w') = m_root_vertex (topology w)"
    using w'(9) m1 by (simp add: marks_def)
  moreover have "fresh_ids G w w'" "ids w \<subseteq>\<^sub>m ids w'"
    using f1 m1 by (simp_all add: fresh_ids_def marks_def w'(5))
  moreover have "dom (ids w') = dom (ids w) \<union> bdfid_identifier ` set (rocm_addresses R (l_bdfid L) [0..<n])"
    using dom1 by (simp add: w'(5))
  ultimately show ?thesis using run at w'(1) by blast
qed

text \<open>A device with an address is found under it.\<close>

lemma rocm_init_own:
  fixes w :: "('g, 'b) world"
  assumes wf: "wf_world G w" and reads: "bandwidths_in_bounds R L"
  shows "\<exists>w'. ModuleRocm_init_graph R L G w = Some (YLOC_STATUS_SUCCESS, w') \<and> wf_world G w' \<and>
    ids w \<subseteq>\<^sub>m ids w' \<and> child_rel G (topology w') = child_rel G (topology w) \<and>
    m_root_vertex (topology w') = m_root_vertex (topology w) \<and>
    (\<forall>i < rocm_num_devices R L. \<forall>b. dev_pci_id_get R i = Some b \<longrightarrow>
      (\<exists>v. gpu_at G w' (bdfid_identifier b) v (rocm_adapter R i)))"
proof -
  let ?n = "rocm_num_devices R L"
  obtain vertices w' where run: "ModuleRocm_init_graph R L G w = Some (YLOC_STATUS_SUCCESS, w')"
      "wf_world G w'" "ids w \<subseteq>\<^sub>m ids w'" "child_rel G (topology w') = child_rel G (topology w)"
      "m_root_vertex (topology w') = m_root_vertex (topology w)"
    and at: "list_all2 (rocm_marked R G w') (zip [0..<?n] (rocm_addresses R (l_bdfid L) [0..<?n])) vertices"
    using rocm_init_spec [OF wf reads refl] by blast
  have "\<exists>v. gpu_at G w' (bdfid_identifier b) v (rocm_adapter R i)"
    if i: "i < ?n" and b: "dev_pci_id_get R i = Some b" for i b
  proof -
    have "zip [0..<?n] (rocm_addresses R (l_bdfid L) [0..<?n]) ! i = (i, b)"
      using rocm_addresses_own [of i "[0..<?n]" R b "l_bdfid L"] i b by simp
    then show ?thesis using list_all2_nthD [OF at, of i] i by (auto simp: rocm_marked_def)
  qed
  with run show ?thesis by blast
qed

lemma rocm_keeps: "module_contract G (ModuleRocm_init_graph R L G)"
proof
  fix w :: "('g, 'b) world" and w' s
  assume wf: "wf_world G w" and run: "ModuleRocm_init_graph R L G w = Some (s, w')"
  then have "bandwidths_in_bounds R L" using rocm_init_stuck [of R L w] by (cases "bandwidths_in_bounds R L") simp_all
  note spec = rocm_init_spec [OF wf this refl]
  show "wf_world G w'" using spec run by auto
  show "paired G w'" if "paired G w" using spec run that by auto
qed

end

interpretation rocm_contract: module_contract adjlist_ops "ModuleRocm_init_graph R L adjlist_ops"
  for R :: rocm_api and L :: rocm_locals
  by (rule adjlist.rocm_keeps)

section \<open>Two devices, the second without an address\<close>

definition sample_rocm :: rocm_api where
  "sample_rocm =
    \<lparr>dev_name_get = (\<lambda>_. replicate 2048 (CHR ''M'')), dev_memory_total_get = (\<lambda>_. Some 1000),
     dev_memory_usage_get = (\<lambda>_. Some 10), dev_memory_busy_percent_get = (\<lambda>_. None),
     dev_gpu_clk_freq_get_MEM = (\<lambda>_. None),
     dev_gpu_clk_freq_get_SYS = (\<lambda>_. Some \<lparr>rf_num_supported = 2, rf_current = 1, rf_frequency = (\<lambda>i. 500000000)\<rparr>),
     dev_pci_id_get = (\<lambda>i. if i = 0 then Some 0x300 else None), topo_numa_affinity_get = (\<lambda>_. Some 0),
     dev_temp_metric_get = (\<lambda>_. Some 41000), dev_busy_percent_get = (\<lambda>_. Some 5),
     dev_power_ave_get = (\<lambda>_. Some 30000000), dev_pci_throughput_get = (\<lambda>_. Some (7, 8)),
     dev_pci_bandwidth_get = (\<lambda>i. if i = 0
        then Some \<lparr>transfer_rate = \<lparr>rf_num_supported = 3, rf_current = 0, rf_frequency = (\<lambda>i. 8000000000)\<rparr>,
          lanes = (\<lambda>_. 16)\<rparr> else None),
     RSMI_MAX_NUM_FREQUENCIES = 32, num_monitor_devices = Some 2, topo_get_link_hops = (\<lambda>_ _. 1)\<rparr>"

text \<open>Of the second device nothing is known; the variables happen to hold zeros and small numbers.\<close>

definition sample_locals :: rocm_locals where
  "sample_locals = \<lparr>l_num_devices = 7, l_bdfid = 0,
     l_bandwidth = (\<lambda>_. \<lparr>transfer_rate = \<lparr>rf_num_supported = 1, rf_current = 0, rf_frequency = (\<lambda>_. 0)\<rparr>,
       lanes = (\<lambda>_. 0)\<rparr>)\<rparr>"

lemma sample_rocm_bounds: "bandwidths_in_bounds (sample_rocm\<lparr>num_monitor_devices := n\<rparr>) sample_locals"
  by (simp add: bandwidths_in_bounds_def rocm_bandwidths_def pcie_bandwidths_def sample_rocm_def sample_locals_def)

lemma sample_rocm_devices [simp]: "rocm_num_devices (sample_rocm\<lparr>num_monitor_devices := Some n\<rparr>) L = unat n"
  by (simp add: rocm_num_devices_def)

section \<open>Properties\<close>

text \<open>
  C19. The ROCm module needs no module before it. When the PCIe bandwidths that it prints are read inside
  their arrays, it succeeds: every device's vertex, an existing one of its bus address or a new one,
  becomes a GPU with the device's adapter; exactly the addresses of the devices become known; pairs of
  devices one hop apart, and no others, are joined by GPU_INTERCONNECT edges both ways; and the
  hierarchy of CHILD edges is not touched, so that a device that no other module knew is in no
  hierarchy. Otherwise (a call failed, or a device without bandwidths) a read is out of bounds.
\<close>

theorem ModuleRocm_marks_devices:
  fixes w :: "('g, 'b) world"
  assumes "boost_graph G" and "wf_world G w"
  shows "if bandwidths_in_bounds R L then
    \<exists>vertices w'. ModuleRocm_init_graph R L G w = Some (YLOC_STATUS_SUCCESS, w') \<and> wf_world G w' \<and>
      dom (ids w') = dom (ids w) \<union>
        bdfid_identifier ` set (rocm_addresses R (l_bdfid L) [0..<rocm_num_devices R L]) \<and>
      list_all2 (rocm_marked R G w')
        (zip [0..<rocm_num_devices R L] (rocm_addresses R (l_bdfid L) [0..<rocm_num_devices R L])) vertices \<and>
      interconnected G (rocm_direct R) (rocm_num_devices R L) vertices w w' \<and>
      child_rel G (topology w') = child_rel G (topology w) \<and>
      (\<forall>i v. i \<notin> dom (ids w) \<longrightarrow> ids w' i = Some v \<longrightarrow> v \<notin> Field (child_rel G (topology w')))
    else ModuleRocm_init_graph R L G w = None"
proof (cases "bandwidths_in_bounds R L")
  case True
  let ?n = "rocm_num_devices R L"
  obtain vertices w' where run: "ModuleRocm_init_graph R L G w = Some (YLOC_STATUS_SUCCESS, w')"
      "wf_world G w'" "dom (ids w') = dom (ids w) \<union> bdfid_identifier ` set (rocm_addresses R (l_bdfid L) [0..<?n])"
      "list_all2 (rocm_marked R G w') (zip [0..<?n] (rocm_addresses R (l_bdfid L) [0..<?n])) vertices"
      "interconnected G (rocm_direct R) ?n vertices w w'"
    and same: "child_rel G (topology w') = child_rel G (topology w)" and fresh: "fresh_ids G w w'"
    using boost_graph.rocm_init_spec [OF assms True refl] by blast
  have "v \<notin> Field (child_rel G (topology w'))" if i: "i \<notin> dom (ids w)" "ids w' i = Some v" for i v
  proof
    assume "v \<in> Field (child_rel G (topology w'))"
    then have "v \<in> Field (child_rel G (topology w))" by (simp only: same)
    then obtain u where "(u, CHILD, v) \<in># warcs G w \<or> (v, CHILD, u) \<in># warcs G w"
      by (auto simp: Field_def child_rel_def)
    then have "v < nv G w" using wf_graphD(3) [OF boost_graph.wf_world_graph [OF assms]] by blast
    moreover have "nv G w \<le> v" using fresh i unfolding fresh_ids_def by blast
    ultimately show False by simp
  qed
  with run same True show ?thesis by auto
qed (use boost_graph.rocm_init_stuck [OF assms(1)] in simp)

theorem ModuleRocm_marks_devices_witness:
  "(\<exists>vertices w'. ModuleRocm_init_graph sample_rocm sample_locals adjlist_ops
      (root_graph adjlist_ops :: (adjlist, bool list) world) = Some (YLOC_STATUS_SUCCESS, w') \<and>
     length vertices = 2 \<and> dom (ids w') = {bdfid_identifier 0x300} \<and>
     interconnected adjlist_ops (rocm_direct sample_rocm) 2 vertices (root_graph adjlist_ops) w') \<and>
   ModuleRocm_init_graph (sample_rocm\<lparr>RSMI_MAX_NUM_FREQUENCIES := 2\<rparr>) sample_locals adjlist_ops
     (root_graph adjlist_ops :: (adjlist, bool list) world) = None"
proof -
  have n: "rocm_num_devices sample_rocm L = 2" for L by (simp add: rocm_num_devices_def sample_rocm_def)
  have l: "[0..<2] = [0, Suc 0]" by (simp add: numeral_2_eq_2)
  have a: "rocm_addresses sample_rocm b [0, Suc 0] = [0x300, 0x300]" for b
    by (simp add: sample_rocm_def)
  have e: "dom (ids (root_graph adjlist_ops :: (adjlist, bool list) world)) = {}"
    by (simp add: step_simps new_graph_def)
  have wf: "wf_world adjlist_ops (root_graph adjlist_ops :: (adjlist, bool list) world)"
    by (rule adjlist.wf_root_graph)
  have bounds: "bandwidths_in_bounds sample_rocm sample_locals"
    using sample_rocm_bounds [of "num_monitor_devices sample_rocm"] by simp
  have "\<not> bandwidths_in_bounds (sample_rocm\<lparr>RSMI_MAX_NUM_FREQUENCIES := 2\<rparr>) sample_locals"
    by (auto simp: bandwidths_in_bounds_def rocm_num_devices_def rocm_bandwidths_def pcie_bandwidths_def
        sample_rocm_def intro!: exI [of _ 0])
  then show ?thesis
    using ModuleRocm_marks_devices [OF boost_graph_adjlist wf, of sample_rocm sample_locals] bounds
      ModuleRocm_marks_devices [OF boost_graph_adjlist wf, of "sample_rocm\<lparr>RSMI_MAX_NUM_FREQUENCIES := 2\<rparr>" sample_locals]
    unfolding n l a e by (auto simp: numeral_2_eq_2 dest!: list_all2_lengthD)
qed

text \<open>
  C22. A device whose bus address ROCm-SMI does not return is taken for its predecessor (when the bandwidths are
  read inside their arrays, so that the loop goes on): the result of
  \<^verbatim>\<open>rsmi_dev_pci_id_get\<close> is not checked, and \<^verbatim>\<open>bdfid\<close> still holds the address of the device before.
  Both adapters are then attached to one vertex, which stands for two GPUs. The first device is put at
  the address that the uninitialised variable happens to hold.
\<close>

theorem ModuleRocm_stale_address:
  fixes w :: "('g, 'b) world"
  assumes "boost_graph G" and "wf_world G w" and "bandwidths_in_bounds R L"
    and "i < rocm_num_devices R L" and "dev_pci_id_get R i = None"
  shows "\<exists>w' v b. ModuleRocm_init_graph R L G w = Some (YLOC_STATUS_SUCCESS, w') \<and>
    gpu_at G w' (bdfid_identifier b) v (rocm_adapter R i) \<and>
    (case i of 0 \<Rightarrow> b = l_bdfid L | Suc j \<Rightarrow> gpu_at G w' (bdfid_identifier b) v (rocm_adapter R j))"
proof -
  let ?n = "rocm_num_devices R L"
  let ?b = "\<lambda>i. rocm_addresses R (l_bdfid L) [0..<?n] ! i"
  obtain vertices w' where run: "ModuleRocm_init_graph R L G w = Some (YLOC_STATUS_SUCCESS, w')"
    and at: "list_all2 (rocm_marked R G w') (zip [0..<?n] (rocm_addresses R (l_bdfid L) [0..<?n])) vertices"
    using boost_graph.rocm_init_spec [OF assms(1-3) refl] by blast
  have marked: "gpu_at G w' (bdfid_identifier (?b j)) (vertices ! j) (rocm_adapter R j)" if "j < ?n" for j
    using list_all2_nthD [OF at, of j] that by (simp add: rocm_marked_def)
  show ?thesis
  proof (cases i)
    case 0
    then have "?b 0 = l_bdfid L" using assms(4,5) by (simp add: upt_conv_Cons)
    then show ?thesis using run marked [of 0] assms(4) 0 by (intro exI [of _ w'] exI [of _ "vertices ! 0"] exI [of _ "?b 0"]) simp
  next
    case (Suc j)
    then have "?b i = ?b j" using rocm_addresses_stale [of j "[0..<?n]" R "l_bdfid L"] assms(4,5) by simp
    then have "gpu_at G w' (bdfid_identifier (?b i)) (vertices ! i) (rocm_adapter R j)"
      using marked [of i] marked [of j] assms(4) Suc by (auto simp: gpu_at_def)
    then show ?thesis using run marked [OF assms(4)] Suc by (intro exI [of _ w'] exI [of _ "vertices ! i"] exI [of _ "?b i"]) simp
  qed
qed

theorem ModuleRocm_stale_address_witness:
  "\<exists>w' v b. ModuleRocm_init_graph sample_rocm sample_locals adjlist_ops
      (root_graph adjlist_ops :: (adjlist, bool list) world) = Some (YLOC_STATUS_SUCCESS, w') \<and>
    gpu_at adjlist_ops w' (bdfid_identifier b) v (rocm_adapter sample_rocm (Suc 0)) \<and>
    gpu_at adjlist_ops w' (bdfid_identifier b) v (rocm_adapter sample_rocm 0)"
proof -
  have "bandwidths_in_bounds sample_rocm sample_locals"
    using sample_rocm_bounds [of "num_monitor_devices sample_rocm"] by simp
  moreover have "Suc 0 < rocm_num_devices sample_rocm sample_locals" "dev_pci_id_get sample_rocm (Suc 0) = None"
    by (simp_all add: rocm_num_devices_def sample_rocm_def)
  ultimately show ?thesis
    using ModuleRocm_stale_address [OF boost_graph_adjlist adjlist.wf_root_graph] by fastforce
qed

text \<open>
  C23. When ROCm-SMI cannot be initialised (no call succeeds), \<^verbatim>\<open>EXIT_ERR_ROCM\<close> only shuts it down and
  \<^verbatim>\<open>init_graph\<close> goes on with uninitialised variables. The uninitialised \<^verbatim>\<open>bandwidth\<close> decides whether its
  arrays are read out of bounds, which is undefined behaviour (\<open>None\<close>). If it happens not to,
  as many devices as the uninitialised \<^verbatim>\<open>num_devices\<close> says become one GPU, at the address that the
  uninitialised \<^verbatim>\<open>bdfid\<close> holds, and the module reports success.
\<close>

theorem ModuleRocm_without_library:
  fixes w :: "('g, 'b) world"
  assumes "boost_graph G" and "wf_world G w" and "num_monitor_devices R = None"
    and "\<forall>i. dev_pci_id_get R i = None \<and> dev_pci_bandwidth_get R i = None"
  shows "if \<forall>i < unat (l_num_devices L). pcie_bandwidths R (l_bandwidth L i) \<noteq> None then
    \<exists>w' v. ModuleRocm_init_graph R L G w = Some (YLOC_STATUS_SUCCESS, w') \<and>
      dom (ids w') = (if l_num_devices L = 0 then {} else {bdfid_identifier (l_bdfid L)}) \<union> dom (ids w) \<and>
      (\<forall>i < unat (l_num_devices L). gpu_at G w' (bdfid_identifier (l_bdfid L)) v (rocm_adapter R i))
    else ModuleRocm_init_graph R L G w = None"
proof -
  let ?n = "unat (l_num_devices L)" and ?b = "l_bdfid L"
  have n: "rocm_num_devices R L = ?n" using assms(3) by (simp add: rocm_num_devices_def)
  have reads: "bandwidths_in_bounds R L \<longleftrightarrow> (\<forall>i < ?n. pcie_bandwidths R (l_bandwidth L i) \<noteq> None)"
    using assms(4) by (simp add: bandwidths_in_bounds_def rocm_bandwidths_def n)
  have b: "rocm_addresses R b is = replicate (length is) b" for b "is"
    using assms(4) by (induction "is") simp_all
  show ?thesis
  proof (cases "bandwidths_in_bounds R L")
    case True
    obtain vertices w' where run: "ModuleRocm_init_graph R L G w = Some (YLOC_STATUS_SUCCESS, w')"
      and dom: "dom (ids w') = dom (ids w) \<union> bdfid_identifier ` set (rocm_addresses R ?b [0..<?n])"
      and at: "list_all2 (rocm_marked R G w') (zip [0..<?n] (rocm_addresses R ?b [0..<?n])) vertices"
      using boost_graph.rocm_init_spec [OF assms(1,2) True n [symmetric]] by blast
    have marked: "gpu_at G w' (bdfid_identifier ?b) (vertices ! i) (rocm_adapter R i)" if "i < ?n" for i
      using list_all2_nthD [OF at, of i] that by (simp add: b rocm_marked_def)
    have "vertices ! i = vertices ! 0" if "i < ?n" for i
      using marked [OF that] marked [of 0] that by (simp add: gpu_at_def)
    then have "\<forall>i < ?n. gpu_at G w' (bdfid_identifier ?b) (vertices ! 0) (rocm_adapter R i)"
      using marked by metis
    moreover have "dom (ids w') = (if l_num_devices L = 0 then {} else {bdfid_identifier ?b}) \<union> dom (ids w)"
      using dom unfolding b by (auto simp: unat_eq_0)
    ultimately show ?thesis using run True unfolding reads by auto
  next
    case False
    show ?thesis
      unfolding reads [symmetric] if_not_P [OF False] by (rule boost_graph.rocm_init_stuck [OF assms(1) False])
  qed
qed

text \<open>ROCm-SMI where every call fails.\<close>

definition sample_no_rocm :: rocm_api where
  "sample_no_rocm = sample_rocm\<lparr>dev_pci_id_get := (\<lambda>_. None), dev_pci_bandwidth_get := (\<lambda>_. None),
     num_monitor_devices := None\<rparr>"

theorem ModuleRocm_without_library_witness:
  "\<exists>w' v. ModuleRocm_init_graph sample_no_rocm sample_locals adjlist_ops
      (root_graph adjlist_ops :: (adjlist, bool list) world) = Some (YLOC_STATUS_SUCCESS, w') \<and>
    dom (ids w') = {bdfid_identifier 0} \<and>
    gpu_at adjlist_ops w' (bdfid_identifier 0) v (rocm_adapter sample_no_rocm 6)"
proof -
  let ?w = "root_graph adjlist_ops :: (adjlist, bool list) world"
  have fails: "num_monitor_devices sample_no_rocm = None"
    "\<forall>i. dev_pci_id_get sample_no_rocm i = None \<and> dev_pci_bandwidth_get sample_no_rocm i = None"
    by (simp_all add: sample_no_rocm_def)
  have reads: "\<forall>i < unat (l_num_devices sample_locals). pcie_bandwidths sample_no_rocm (l_bandwidth sample_locals i) \<noteq> None"
    by (simp add: pcie_bandwidths_def sample_no_rocm_def sample_rocm_def sample_locals_def)
  have l: "l_bdfid sample_locals = 0" "dom (ids ?w) = {}" "l_num_devices sample_locals \<noteq> 0"
    and six: "6 < unat (l_num_devices sample_locals)"
    by (simp_all add: sample_locals_def step_simps new_graph_def)
  from ModuleRocm_without_library [where w = ?w and L = sample_locals, OF boost_graph_adjlist adjlist.wf_root_graph fails,
      unfolded if_P [OF reads] l if_not_P [OF l(3)]] obtain w' v where
    "ModuleRocm_init_graph sample_no_rocm sample_locals adjlist_ops ?w = Some (YLOC_STATUS_SUCCESS, w')"
    "dom (ids w') = {bdfid_identifier 0}" and
    gpus: "\<forall>i < unat (l_num_devices sample_locals). gpu_at adjlist_ops w' (bdfid_identifier 0) v (rocm_adapter sample_no_rocm i)"
    using l(3) by auto
  then show ?thesis using gpus [rule_format, OF six] by (intro exI conjI)
qed

end
