(* ===== verification/Build.thy ===== *)
theory Build
  imports Rooted Supermuc_Module Rocm_Module
begin

text \<open>
  A build of the library: its modules as objects (\<^verbatim>\<open>interface_impl.h\<close> of each), the list that
  \<^verbatim>\<open>modules.cc\<close> makes of them, and the topology after the hwloc module has run on the empty graph.
\<close>

section \<open>The modules of a build\<close>

text \<open>
  What the modules learn from the libraries and the system: hwloc's interface, the number of
  processors online, the names that \<^verbatim>\<open>gethostname\<close> and \<^verbatim>\<open>MPI_Get_processor_name\<close> return, and the
  rows that \<^verbatim>\<open>MPI_Allgather\<close> collects.
\<close>

record ('o, 'h) surroundings =
  sys_hwloc :: "('o, 'h) hwloc_api"
  sys_nprocs :: nat
  sys_hostname :: string
  sys_mpi_initialized :: bool
  sys_processor_name :: string
  sys_processes :: "(string \<times> cpu_set_t) list"
  sys_name_rows :: "char list list"

definition hwloc_module :: "'b bitset_ops \<Rightarrow> 'h hwloc_bitmap_ops \<Rightarrow> 'g bgl \<Rightarrow>
    ('o, 'h) surroundings \<Rightarrow> ('g, 'b) module" where
  "hwloc_module B H G S =
     default_module (ModuleHwloc_init_graph B H G (sys_hwloc S) (sys_nprocs S) (sys_hostname S))"

definition mpi_module :: "'b bitset_ops \<Rightarrow> 'g bgl \<Rightarrow> sorter \<Rightarrow>
    ('o, 'h) surroundings \<Rightarrow> ('g, 'b) module" where
  "mpi_module B G srt S =
     ModuleMPI (ModuleMPI_init_graph B G srt (sys_nprocs S) (sys_mpi_initialized S)
       (sys_processes S) (sys_processor_name S))"

definition supermuc_module :: "'g bgl \<Rightarrow> ('o, 'h) surroundings \<Rightarrow> ('g, 'b) module" where
  "supermuc_module G S =
     ModuleSuperMUC (ModuleSuperMUC_init_graph G (sys_mpi_initialized S) (sys_processor_name S)
       (sys_name_rows S))"

definition nvml_module :: "'g bgl \<Rightarrow> 'd nvml_api \<Rightarrow> ('g, 'b) module" where
  "nvml_module G N = default_module (ModuleNvml_init_graph N G)"

definition rocm_module :: "'g bgl \<Rightarrow> rocm_api \<Rightarrow> rocm_locals \<Rightarrow> ('g, 'b) module" where
  "rocm_module G R L = default_module (ModuleRocm_init_graph R L G)"

text \<open>\<^verbatim>\<open>list_modules()\<close> of a build with the three modules that do not need a GPU.\<close>

definition list_modules :: "'b bitset_ops \<Rightarrow> 'h hwloc_bitmap_ops \<Rightarrow> 'g bgl \<Rightarrow> sorter \<Rightarrow>
    ('o, 'h) surroundings \<Rightarrow> ('g, 'b) module list" where
  "list_modules B H G srt S =
     [hwloc_module B H G S, mpi_module B G srt S, supermuc_module G S]"

lemma module_simps [simp]:
  "m_enabled (hwloc_module B H G S)" "m_init_order (hwloc_module B H G S) = FIRST"
  "m_enabled (mpi_module B G srt S)" "m_init_order (mpi_module B G srt S) = SECOND"
  "\<not> m_enabled (supermuc_module G S)" "m_init_order (supermuc_module G S) = FIRST"
  "m_enabled (nvml_module G N)" "m_init_order (nvml_module G N) = FIRST"
  "m_enabled (rocm_module G R L)" "m_init_order (rocm_module G R L) = FIRST"
  by (simp_all add: hwloc_module_def mpi_module_def supermuc_module_def ModuleMPI_def
      ModuleSuperMUC_def default_module_def nvml_module_def rocm_module_def)

text \<open>All modules of the repository.\<close>

definition all_modules :: "'b bitset_ops \<Rightarrow> 'h hwloc_bitmap_ops \<Rightarrow> 'g bgl \<Rightarrow> sorter \<Rightarrow>
    ('o, 'h) surroundings \<Rightarrow> 'd nvml_api \<Rightarrow> rocm_api \<Rightarrow> rocm_locals \<Rightarrow> ('g, 'b) module list" where
  "all_modules B H G srt S N R L =
     list_modules B H G srt S @ [nvml_module G N, rocm_module G R L]"

lemma list_modules_contracts:
  assumes "topology_search G B srt" and "hwloc_types (sys_hwloc S)"
    and "m \<in> set (list_modules B H G srt S)"
  shows "module_contract G (m_init_graph m)"
proof -
  have G: "boost_graph G" using assms(1) by (simp add: topology_search_def)
  show ?thesis
    using assms(3) hwloc_build.init_graph_contract [OF hwloc_buildI [OF G assms(2)]]
      mpi_build.init_graph_contract [OF mpi_buildI [OF assms(1)]] boost_graph.supermuc_contract [OF G]
    by (auto simp: list_modules_def hwloc_module_def mpi_module_def supermuc_module_def
        ModuleMPI_def ModuleSuperMUC_def default_module_def)
qed

lemma all_modules_contracts:
  assumes "topology_search G B srt" and "hwloc_types (sys_hwloc S)"
    and "m \<in> set (all_modules B H G srt S N R L)"
  shows "module_contract G (m_init_graph m)"
proof -
  have G: "boost_graph G" using assms(1) by (simp add: topology_search_def)
  show ?thesis
    using assms(3) list_modules_contracts [OF assms(1,2)] boost_graph.nvml_keeps [OF G, of N]
      boost_graph.rocm_keeps [OF G, of R L]
    by (auto simp: all_modules_def nvml_module_def rocm_module_def default_module_def)
qed

lemma module_suiteI:
  assumes "std_sort srt'" and "topology_search G B srt" and "hwloc_types (sys_hwloc S)"
    and "set modules \<subseteq> set (all_modules B H G srt S N R L)"
  shows "module_suite srt' G modules"
  using module_suite.intro [OF assms(1) module_suite_axioms.intro]
    all_modules_contracts [OF assms(2,3)] assms(4) by blast

interpretation suite_lists: module_suite insertion_sort adjlist_ops
  "all_modules bool_list_ops index_list_ops adjlist_ops insertion_sort
     (S\<lparr>sys_hwloc := documented_types A\<rparr>) N R L"
  for S :: "('o, nat list) surroundings" and A :: "('o, nat list) hwloc_api" and N :: "'d nvml_api"
    and R :: rocm_api and L :: rocm_locals
  by (rule module_suiteI [OF std_sort_insertion_sort topology_search_lists _ order_refl])
    (simp add: hwloc_types_documented)

section \<open>The topology after the first phase\<close>

lemma hwloc_phase:
  fixes G :: "'g bgl" and B :: "'b bitset_ops"
  assumes G: "boost_graph G" and A: "hwloc_types A" and ts: "detected A ts"
    and distinct: "distinct (forest_identifiers A ts)"
  obtains w where
    "ModuleHwloc_init_graph B H G A n hostname (root_graph G) = Some (YLOC_STATUS_SUCCESS, w)"
    and "wf_world G w" and "paired G w" and "increasing G (topology w)"
    and "\<forall>t \<in> set ts. hangs B H G A n w (m_root_vertex (topology w)) t"
    and "dom (ids w) = insert (''machine:'' @ hostname) (set (forest_identifiers A ts))"
    and "pci_named G w" and "rooted G w" and "nv G w = Suc (length (forest_objects ts))"
proof -
  note build = hwloc_buildI [OF G A]
  have known: "\<forall>obj \<in> set (forest_objects ts). knows_type A obj"
    using ts by (simp add: detected_def)
  obtain v w2 w where run:
      "ModuleHwloc_init_graph B H G A n hostname (root_graph G) = Some (YLOC_STATUS_SUCCESS, w)"
    and forest: "build_forest B H G A n v ts w2 = Some w" and v: "v < nv G w2" and wf: "wf_world G w2"
    and num: "ids (root_graph G :: ('g, 'b) world) (''machine:'' @ hostname) = None \<longrightarrow>
      nv G w2 = Suc (nv G (root_graph G :: ('g, 'b) world))"
    and arcs: "warcs G w2 = warcs G (root_graph G :: ('g, 'b) world)" and root: "m_root_vertex (topology w2) = v"
    and dom: "dom (ids w2) = insert (''machine:'' @ hostname) (dom (ids (root_graph G :: ('g, 'b) world)))"
    by (rule hwloc_build.init_graph_builds [OF build boost_graph.wf_root_graph [OF G] ts,
        of B H n hostname]) (rule that)
  have empty: "warcs G w2 = {#}" "dom (ids w2) = {''machine:'' @ hostname}"
    unfolding arcs dom by (simp_all add: step_simps boost_graph.new_graph_simps [OF G])
  have pair: "paired G w2" and inc: "increasing G (topology w2)"
    by (simp_all add: paired_def increasing_def child_rel_def empty(1))
  have fresh: "set (forest_identifiers A ts) \<inter> dom (ids w2) = {}"
    unfolding empty(2) by (auto simp: forest_identifiers_def obj_identifier_def bdfid_identifier_def
        split: option.splits)
  have spec: "wf_world G w" "\<forall>t \<in> set ts. hangs B H G A n w v t" "paired G w"
    "dom (ids w) = dom (ids w2) \<union> set (forest_identifiers A ts)" "m_root_vertex (topology w) = v"
    using hwloc_build.build_forest_spec [OF build wf v known, of B H n] forest pair root by auto
  have inc': "increasing G (topology w)" and num': "nv G w = nv G w2 + length (forest_objects ts)"
    using hwloc_build.build_forest_increasing [OF build wf v known inc distinct fresh forest] by blast+
  have "bdfid_identifier b \<notin> dom (ids w2)" for b
    unfolding empty(2) by (simp add: bdfid_identifier_def)
  then have "pci_named G w2" unfolding pci_named_def by blast
  then have named: "pci_named G w" by (rule hwloc_build.build_forest_named [OF build wf v known _ forest])
  have "dom (ids w) = insert (''machine:'' @ hostname) (set (forest_identifiers A ts))"
    unfolding spec(4) empty(2) by simp
  moreover have one: "nv G w2 = 1"
    using num by (simp add: step_simps boost_graph.new_graph_simps [OF G])
  from one have "rooted G w2" "v = 0" using v root by (auto simp: rooted_def)
  then have "rooted G w"
    using hwloc_build.build_forest_rooted [OF build wf v known _ _ forest] root by simp
  moreover have "nv G w = Suc (length (forest_objects ts))" using num' one by simp
  ultimately show thesis by (rule that [OF run spec(1,3) inc' spec(2) [folded spec(5)] _ named])
qed

text \<open>The MPI module after it.\<close>

lemma mpi_phase:
  assumes T: "topology_search G B srt"
    and w1: "wf_world G w1" "paired G w1" "acyclic (child_rel G (topology w1))"
    and dom: "dom (ids w1) = insert (''machine:'' @ hostname) (set (forest_identifiers A ts))"
  obtains w where "make_mpi_graph B G srt n rows name w1 = Some w"
    and "wf_world G w" and "acyclic (child_rel G (topology w))" and "preserves G w1 w" and "paired G w"
    and "\<forall>i < length rows. process_at B G n name w i (fst (rows ! i)) (snd (rows ! i))"
proof -
  have "rank_identifier i \<notin> dom (ids w1)" for i
    unfolding dom by (auto simp: rank_identifier_def forest_identifiers_def obj_identifier_def
        bdfid_identifier_def split: option.splits)
  then have fresh: "\<forall>i < length rows. ids w1 (rank_identifier (0 + i)) = None" by blast
  obtain w where mpi: "make_mpi_graph B G srt n rows name w1 = Some w"
    and w: "wf_world G w" "acyclic (child_rel G (topology w))" "preserves G w1 w"
      "\<forall>i < length rows. process_at B G n name w i (fst (rows ! i)) (snd (rows ! i))"
    using mpi_build.mpi_processes_new [OF mpi_buildI [OF T] w1(1,3) fresh, of n name]
    by (auto simp: make_mpi_graph_def)
  have "paired G w"
    using mpi_build.mpi_processes_keeps [OF mpi_buildI [OF T] w1(1)] mpi w1(2)
    unfolding make_mpi_graph_def by blast
  then show thesis using that mpi w by blast
qed

text \<open>Both phases, in whatever order the modules are listed: the module for SuperMUC is not enabled.\<close>

lemma init_hwloc_mpi:
  assumes "std_sort srt'" and "mset modules = mset (list_modules B H G srt S)" and "sys_mpi_initialized S"
    and "ModuleHwloc_init_graph B H G (sys_hwloc S) (sys_nprocs S) (sys_hostname S) w =
      Some (YLOC_STATUS_SUCCESS, w1)"
    and "make_mpi_graph B G srt (sys_nprocs S) (sys_processes S) (sys_processor_name S) w1 = Some w2"
  shows "init srt' modules w = Some (YLOC_STATUS_SUCCESS, w2)"
proof -
  obtain firsts seconds where
    first: "mset firsts = filter_mset (\<lambda>m. m_enabled m \<and> m_init_order m = FIRST) (mset modules)"
    and second: "mset seconds = filter_mset (\<lambda>m. m_enabled m \<and> m_init_order m = SECOND) (mset modules)"
    and run: "init srt' modules w = (case run_modules (firsts @ seconds) w of
        None \<Rightarrow> None | Some w' \<Rightarrow> Some (YLOC_STATUS_SUCCESS, w'))"
    using init_phases [OF assms(1)] by blast
  have "firsts = [hwloc_module B H G S]" "seconds = [mpi_module B G srt S]"
    using first second unfolding assms(2) by (simp_all add: list_modules_def)
  then show ?thesis
    unfolding run using assms(3-5)
    by (simp add: hwloc_module_def mpi_module_def ModuleMPI_def default_module_def ModuleMPI_init_graph_def)
qed

section \<open>A machine and its surroundings\<close>

definition sample_system :: "(nat, nat list) surroundings" where
  "sample_system = \<lparr>sys_hwloc = sample_api, sys_nprocs = 2, sys_hostname = ''h'',
     sys_mpi_initialized = True, sys_processor_name = ''h'',
     sys_processes = [(''h'', 1), (''k'', 2)], sys_name_rows = []\<rparr>"

lemma sample_distinct: "distinct (forest_identifiers sample_api sample_tree)"
  by (simp add: forest_identifiers_def sample_tree_def obj_identifier_def hwloc_bdfid_def
      hwloc_types.compare_types_zero [OF hwloc_types_sample])

end
