(* ===== verification/Mpi_Distances.thy ===== *)
theory Mpi_Distances
  imports Examples Build
begin

text \<open>
  The program \<^verbatim>\<open>src/example/example-mpi.cc\<close>, a client of the whole library: it initialises the topology and
  prints, on rank 0, the number of hops between any two MPI processes and the graph with their ranks. The
  lines that it prints and the file are its result.
\<close>

section \<open>The program\<close>

text \<open>\<^verbatim>\<open>distance from mpi rank <r>\<close> and \<^verbatim>\<open>to <r>: <d>\<close>\<close>

datatype mpi_line = Distance_from u64 | To u64 "32 word"

text \<open>\<^verbatim>\<open>g[vd].get("mpi_rank")\<close>, whose \<^verbatim>\<open>value()\<close> throws when there is none (\<open>None\<close>).\<close>

definition rank_of :: "'g bgl \<Rightarrow> ('g, 'b) world \<Rightarrow> vertex_t \<Rightarrow> u64 option" where
  "rank_of G w vd = get_uint64 (objects w) (vat G w vd) ''mpi_rank''"

definition distances_to :: "'g bgl \<Rightarrow> ('g, 'b) world \<Rightarrow> 32 word list \<Rightarrow> vertex_t list \<Rightarrow> mpi_line list option" where
  "distances_to G w dist graph_view =
     those (map (\<lambda>v2. map_option (\<lambda>r. To r (dist ! v2)) (rank_of G w v2)) graph_view)"

definition print_distances :: "'g bgl \<Rightarrow> ('g \<Rightarrow> vertex_t \<Rightarrow> edge_t list) \<Rightarrow> ('g, 'b) world \<Rightarrow> mpi_line list option" where
  "print_distances G bfs w =
     (let g = topology w;
          graph_view = vertices_of_type G g MPIProcess
      in map_option concat (those (map (\<lambda>v1.
           let dist = bfs_hop_vector G bfs g v1
           in case rank_of G w v1 of
                None \<Rightarrow> None
              | Some r \<Rightarrow> map_option (Cons (Distance_from r)) (distances_to G w dist graph_view)) graph_view)))"

definition mpi_dot_file :: "'b bitset_ops \<Rightarrow> 'g bgl \<Rightarrow> ('g, 'b) world \<Rightarrow> dot_file" where
  "mpi_dot_file B G w =
     write_graph_dot_file B G w [0..<nv G w] (bg_edges G (m_boost (topology w))) [''mpi_rank''] False"

text \<open>
  \<^verbatim>\<open>main\<close>, with the rank that \<^verbatim>\<open>MPI_Comm_rank\<close> returns. \<open>Inl\<close> is \<^verbatim>\<open>MPI_Abort\<close> with its code, \<open>None\<close> an
  exception, a failed assertion or no end.
\<close>

definition mpi_main :: "('g, 'b) module_sorter \<Rightarrow> ('g, 'b) module list \<Rightarrow> 'b bitset_ops \<Rightarrow> 'g bgl \<Rightarrow>
    ('g \<Rightarrow> vertex_t \<Rightarrow> edge_t list) \<Rightarrow> int \<Rightarrow> (int + mpi_line list \<times> dot_file option) option" where
  "mpi_main srt modules B G bfs rank =
     (case init srt modules (root_graph G) of
        None \<Rightarrow> None
      | Some (status, w) \<Rightarrow>
          if status \<noteq> YLOC_STATUS_SUCCESS then Some (Inl 1)
          else if rank = 0
          then map_option (\<lambda>lines. Inr (lines, Some (mpi_dot_file B G w))) (print_distances G bfs w)
          else Some (Inr ([], None)))"

section \<open>No exception\<close>

lemma those_all: "\<forall>x \<in> set xs. f x = Some (g x) \<Longrightarrow> those (map f xs) = Some (map g xs)"
  by (induction xs) simp_all

lemma is_process: "is_a t MPIProcess \<longleftrightarrow> t = MPIProcess"
  by (cases t) (simp_all add: is_a_eval)

text \<open>The table of distances, from rank to rank.\<close>

definition distance_table :: "'g bgl \<Rightarrow> ('g \<Rightarrow> vertex_t \<Rightarrow> edge_t list) \<Rightarrow> ('g, 'b) world \<Rightarrow> mpi_line list" where
  "distance_table G bfs w =
     concat (map (\<lambda>u. Distance_from (the (rank_of G w u)) #
         map (\<lambda>v. To (the (rank_of G w v)) (bfs_hop_vector G bfs (topology w) u ! v))
           (vertices_of_type G (topology w) MPIProcess))
       (vertices_of_type G (topology w) MPIProcess))"

lemma print_distances_table:
  assumes G: "boost_graph G" and wf: "wf_world G w"
  shows "print_distances G bfs w = Some (distance_table G bfs w)"
proof -
  have rank: "\<forall>v \<in> set (vertices_of_type G (topology w) MPIProcess). \<exists>r. rank_of G w v = Some r"
    using wf by (auto simp: vertices_of_type_iff [OF G] is_process wf_world_def vertex_ok_def
        reports_rank_def rank_of_def)
  have "distances_to G w dist (vertices_of_type G (topology w) MPIProcess) =
      Some (map (\<lambda>v. To (the (rank_of G w v)) (dist ! v)) (vertices_of_type G (topology w) MPIProcess))" for dist
    unfolding distances_to_def by (rule those_all) (use rank in auto)
  then show ?thesis
    unfolding print_distances_def distance_table_def Let_def
    by (subst those_all) (use rank in auto)
qed

text \<open>A process is labelled with its rank.\<close>

lemma mpi_dot_file_rank:
  fixes G :: "'g bgl" and w :: "('g, 'b) world"
  assumes u: "u < nv G w" and r: "rank_of G w u = Some r"
  shows "\<exists>label. (u, label @ ''mpi_rank='' @ decimal (unat r) @ newline) \<in> set (dot_vertices (mpi_dot_file B G w))"
proof -
  let ?el = "vat G w u"
  obtain p where p: "adapter_map ''mpi_rank'' = Some p" "m_rt p = RT_uint64"
    by (simp add: make_property_pair_def)
  have "get (objects w) RT_uint64 ?el ''mpi_rank'' = Some (U64 r)"
    using r by (simp add: rank_of_def get_uint64_def split: option.splits pvalue.splits)
  then have "get_string B (objects w) ?el ''mpi_rank'' = Some (decimal (unat r))"
    using get_string_prints [OF p(1), of B "objects w" ?el] p(2) by simp
  then have "vertex_label B G w [''mpi_rank''] u =
      (element_to_string ?el @ newline @ ''VD='' @ decimal u @ newline) @ ''mpi_rank='' @ decimal (unat r) @ newline"
    by (simp add: vertex_label_def property_line_def)
  then show ?thesis using u by (force simp: mpi_dot_file_def write_graph_dot_file_def)
qed

section \<open>Properties\<close>

text \<open>
  C13. The example for MPI on any build: whenever \<^verbatim>\<open>init()\<close> returns, whatever subset of the modules is
  built and whatever the libraries report, rank 0 prints a line for every ordered pair of process
  vertices, each of which has a rank, and writes the graph with every process labelled with its rank, and
  no other rank prints or writes; the distances of a pair are the same
  in both directions, and that of processes that are connected is their number of hops (of a graph
  with at most \<open>2^31\<close> vertices). Processes that are not connected are at the distance 0.
\<close>

theorem mpi_main_distances:
  assumes "std_sort srt'" and "topology_search G B srt" and "hwloc_types (sys_hwloc S)" and "boost_bfs G bfs"
    and "set modules \<subseteq> set (all_modules B H G srt S N R L)"
    and "init srt' modules (root_graph G) = Some (s, w)"
  shows "mpi_main srt' modules B G bfs rank =
      Some (Inr (if rank = 0 then (distance_table G bfs w, Some (mpi_dot_file B G w)) else ([], None))) \<and>
    (\<forall>u \<in> set (vertices_of_type G (topology w) MPIProcess).
      (\<exists>r label. rank_of G w u = Some r \<and>
        (u, label @ ''mpi_rank='' @ decimal (unat r) @ newline) \<in> set (dot_vertices (mpi_dot_file B G w))) \<and>
      (\<forall>v \<in> set (vertices_of_type G (topology w) MPIProcess).
        bfs_hop_vector G bfs (topology w) u ! v = bfs_hop_vector G bfs (topology w) v ! u \<and>
        (nv G w \<le> 2 ^ 31 \<longrightarrow> sint (bfs_hop_vector G bfs (topology w) u ! v) =
          (if \<exists>p. path (edges_of G (topology w)) u p v then int (hops (edges_of G (topology w)) u v) else 0))))"
proof (intro conjI ballI impI)
  have G: "boost_graph G" using assms(2) by (simp add: topology_search_def)
  have suite: "module_suite srt' G modules" by (rule module_suiteI [OF assms(1-3,5)])
  have w: "wf_world G w" "paired G w"
    using module_suite.init_keeps [OF suite boost_graph.wf_root_graph [OF G] assms(6)]
      boost_graph.paired_root_graph [OF G] by blast+
  have "s = YLOC_STATUS_SUCCESS" using assms(6) by (auto simp: init_def split: option.splits)
  then show "mpi_main srt' modules B G bfs rank =
      Some (Inr (if rank = 0 then (distance_table G bfs w, Some (mpi_dot_file B G w)) else ([], None)))"
    by (simp add: mpi_main_def assms(6) print_distances_table [OF G w(1)])
  fix u
  assume "u \<in> set (vertices_of_type G (topology w) MPIProcess)"
  then have u: "u < nv G w" "m_type (vat G w u) = MPIProcess"
    by (simp_all add: vertices_of_type_iff [OF G] is_process)
  then have "rank_of G w u \<noteq> None"
    using w(1) by (simp add: wf_world_def vertex_ok_def reports_rank_def rank_of_def)
  then show "\<exists>r label. rank_of G w u = Some r \<and>
      (u, label @ ''mpi_rank='' @ decimal (unat r) @ newline) \<in> set (dot_vertices (mpi_dot_file B G w))"
    using mpi_dot_file_rank [OF u(1)] by blast
  fix v
  assume "v \<in> set (vertices_of_type G (topology w) MPIProcess)"
  then have v: "v < nv G w" by (simp add: vertices_of_type_iff [OF G])
  show "bfs_hop_vector G bfs (topology w) u ! v = bfs_hop_vector G bfs (topology w) v ! u"
    by (rule hops_symmetric [OF assms(4) w u(1) v])
  show "sint (bfs_hop_vector G bfs (topology w) u ! v) =
      (if \<exists>p. path (edges_of G (topology w)) u p v then int (hops (edges_of G (topology w)) u v) else 0)"
    if "nv G w \<le> 2 ^ 31"
    by (rule bfs_hop_vector_hops_value [OF assms(4) _ u(1) v that]) (use w(1) in \<open>simp add: wf_world_def\<close>)
qed

text \<open>A job of two hosts and no module but that for MPI: the processes seem to be in the same place.\<close>

definition two_hosts :: "(nat, nat list) surroundings" where
  "two_hosts = sample_system\<lparr>sys_processes := [(''h'', 0), (''k'', 0)]\<rparr>"

definition two_hosts_world :: "(adjlist, bool list) world" where
  "two_hosts_world =
     \<lparr>topology =
        \<lparr>m_boost = \<lparr>al_vertices = [new_vertex, new_vertex\<lparr>m_adapters := [0], m_type := MPIProcess\<rparr>,
             new_vertex, new_vertex\<lparr>m_adapters := [1], m_type := MPIProcess\<rparr>],
           al_edges = [(0, 1, Edge CHILD), (1, 0, Edge PARENT), (2, 3, Edge CHILD), (3, 2, Edge PARENT)]\<rparr>,
         m_identifier_map = [''machine:h'' \<mapsto> 0, ''mpi_rank:0'' \<mapsto> 1, ''machine:k'' \<mapsto> 2, ''mpi_rank:1'' \<mapsto> 3],
         m_root_vertex = 0\<rparr>,
      objects = map (\<lambda>r. mpi_adapter bool_list_ops r (affinity_zero bool_list_ops 2)) [0, 1]\<rparr>"

lemma no_mask: "\<not> bs_any bool_list_ops (affinity_of_cpuset bool_list_ops 2 0)"
  by (simp add: affinity_of_cpuset_def bool_list_ops_def CPU_ISSET_def numeral_2_eq_2)

lemma digits: "decimal 0 = ''0''" "decimal (Suc 0) = ''1''"
  by code_simp+

lemmas steps_def = vertex_named_def add_vertex_def make_shared_def set_type_def on_vertex_def
  modify_vertex_def vertex_at_def attach_def add_child_def connect_def add_edge_def rank_identifier_def

lemma two_hosts_run:
  "make_mpi_graph bool_list_ops adjlist_ops insertion_sort 2 [(''h'', 0), (''k'', 0)] ''h''
     (root_graph adjlist_ops) = Some two_hosts_world"
proof -
  let ?p = "mpi_process bool_list_ops adjlist_ops insertion_sort 2 ''h''"
  let ?a = "\<lambda>r. mpi_adapter bool_list_ops r (affinity_zero bool_list_ops 2)"
  define w1 :: "(adjlist, bool list) world" where "w1 =
     \<lparr>topology =
        \<lparr>m_boost = \<lparr>al_vertices = [new_vertex, new_vertex\<lparr>m_adapters := [0], m_type := MPIProcess\<rparr>],
           al_edges = [(0, 1, Edge CHILD), (1, 0, Edge PARENT)]\<rparr>,
         m_identifier_map = [''machine:h'' \<mapsto> 0, ''mpi_rank:0'' \<mapsto> 1], m_root_vertex = 0\<rparr>,
      objects = [?a 0]\<rparr>"
  have "?p 0 ''h'' 0 (root_graph adjlist_ops) = Some w1"
    unfolding mpi_process_def w1_def using no_mask
    by (simp add: steps_def root_graph_def new_graph_def adjlist_ops_def digits new_vertex_def add_adapter_def)
  moreover have "?p 1 ''k'' 0 w1 = Some two_hosts_world"
    unfolding mpi_process_def w1_def two_hosts_world_def using no_mask
    by (simp add: steps_def adjlist_ops_def digits new_vertex_def add_adapter_def numeral_eq_Suc)
  ultimately show ?thesis by (simp add: make_mpi_graph_def)
qed

lemma two_hosts_init:
  "init insertion_sort [mpi_module bool_list_ops adjlist_ops insertion_sort two_hosts]
     (root_graph adjlist_ops) = Some (YLOC_STATUS_SUCCESS, two_hosts_world)"
proof -
  have "ModuleMPI_init_graph bool_list_ops adjlist_ops insertion_sort (sys_nprocs two_hosts)
      (sys_mpi_initialized two_hosts) (sys_processes two_hosts) (sys_processor_name two_hosts)
      (root_graph adjlist_ops) = Some (YLOC_STATUS_SUCCESS, two_hosts_world)"
    using two_hosts_run by (simp add: ModuleMPI_init_graph_def two_hosts_def sample_system_def)
  then show ?thesis by (simp add: init_def mpi_module_def ModuleMPI_def default_module_def)
qed

lemma two_hosts_table:
  "distance_table adjlist_ops sample_bfs two_hosts_world =
     [Distance_from 0, To 0 0, To 1 0, Distance_from 1, To 0 0, To 1 0]"
proof -
  let ?g = "topology two_hosts_world"
  have view: "vertices_of_type adjlist_ops ?g MPIProcess = [1, 3]"
    by (simp add: vertices_of_type_def two_hosts_world_def adjlist_ops_def vertex_at_def element_is_a_def
        is_a_eval upt_conv_Cons)
  have rank: "rank_of adjlist_ops two_hosts_world 1 = Some 0" "rank_of adjlist_ops two_hosts_world 3 = Some 1"
    by (simp_all add: rank_of_def get_uint64_def get_first two_hosts_world_def adjlist_ops_def vertex_at_def)
  have edges: "bg_edges adjlist_ops (m_boost ?g) =
     [\<lparr>m_source = 0, m_target = 1, m_eproperty = 0\<rparr>, \<lparr>m_source = 1, m_target = 0, m_eproperty = 1\<rparr>,
      \<lparr>m_source = 2, m_target = 3, m_eproperty = 2\<rparr>, \<lparr>m_source = 3, m_target = 2, m_eproperty = 3\<rparr>]"
    by (simp add: two_hosts_world_def adjlist_ops_def al_descriptors_def upt_conv_Cons)
  have n: "num_vertices adjlist_ops ?g = 4"
    by (simp add: two_hosts_world_def adjlist_ops_def num_vertices_def)
  have "bfs_hop_vector adjlist_ops sample_bfs ?g 1 = [1, 0, 0, 0]"
    "bfs_hop_vector adjlist_ops sample_bfs ?g 3 = [0, 0, 1, 0]"
    unfolding bfs_hop_vector_def bfs_distance_vector_def n edges
    by (simp_all add: search_edges_def discovered_def tree_edge_def Let_def numeral_eq_Suc)
  then show ?thesis unfolding distance_table_def view by (simp add: rank [simplified])
qed

theorem mpi_main_distances_witness:
  "\<exists>mpi_graph_dot. mpi_main insertion_sort [mpi_module bool_list_ops adjlist_ops insertion_sort two_hosts]
      bool_list_ops adjlist_ops sample_bfs 0 =
    Some (Inr ([Distance_from 0, To 0 0, To 1 0, Distance_from 1, To 0 0, To 1 0], Some mpi_graph_dot))"
proof -
  have "hwloc_types (sys_hwloc two_hosts)"
    using hwloc_types_sample by (simp add: two_hosts_def sample_system_def)
  moreover have "set [mpi_module bool_list_ops adjlist_ops insertion_sort two_hosts] \<subseteq>
      set (all_modules bool_list_ops index_list_ops adjlist_ops insertion_sort two_hosts
        sample_one_gpu sample_rocm sample_locals)"
    by (simp add: all_modules_def list_modules_def)
  ultimately show ?thesis
    using mpi_main_distances [OF std_sort_insertion_sort topology_search_lists _ boost_bfs_adjlist _ two_hosts_init, of two_hosts
        index_list_ops sample_one_gpu sample_rocm sample_locals 0] two_hosts_table by simp
qed

end
