(* ===== verification/Gpu_Build.thy ===== *)
theory Gpu_Build
  imports Build
begin

text \<open>
  Builds with the hwloc module and one of the GPU modules, all of order FIRST. The NVML module looks up
  vertices that hwloc names, so it must not run first; the ROCm module makes the vertices that it
  does not find, and hwloc keeps their type, so these two run in either order.
\<close>

section \<open>The two modules in order\<close>

text \<open>Address \<open>a\<close>, that of a device, is the address of an object that hwloc detects.\<close>

definition hwloc_has :: "('o, 'h) hwloc_api \<Rightarrow> 'o htree list \<Rightarrow> u64 option \<Rightarrow> bool" where
  "hwloc_has A ts a \<longleftrightarrow> (\<exists>obj \<in> set (forest_objects ts). hwloc_bdfid A obj \<noteq> None \<and> hwloc_bdfid A obj = a)"

text \<open>A device that hwloc does not have stops the NVML module.\<close>

lemma nvml_stuck_after_hwloc:
  fixes G :: "'g bgl" and B :: "'b bitset_ops"
  assumes G: "boost_graph G" and A: "hwloc_types A" and ts: "detected A ts"
    and distinct: "distinct (forest_identifiers A ts)"
    and i: "i < DeviceGetCount N" "\<not> hwloc_has A ts (nvml_bdfid N (DeviceGetHandleByIndex N i))"
  obtains w :: "('g, 'b) world" where
    "ModuleHwloc_init_graph B H G A n hostname (root_graph G) = Some (YLOC_STATUS_SUCCESS, w)"
    and "ModuleNvml_init_graph N G w = None"
proof -
  obtain w where run: "ModuleHwloc_init_graph B H G A n hostname (root_graph G) = Some (YLOC_STATUS_SUCCESS, w)"
    and wf: "wf_world G w" and dom: "dom (ids w) = insert (''machine:'' @ hostname) (set (forest_identifiers A ts))"
    by (rule hwloc_phase [OF G A ts distinct, of B H n hostname]) (rule that)
  have "\<not> nvml_known N G w i"
  proof
    assume "nvml_known N G w i"
    then obtain b v where b: "nvml_bdfid N (DeviceGetHandleByIndex N i) = Some b" "ids w (bdfid_identifier b) = Some v"
      by (auto simp: nvml_known_def)
    then have "bdfid_identifier b \<in> insert (''machine:'' @ hostname) (set (forest_identifiers A ts))"
      using dom by blast
    then have "bdfid_identifier b \<in> set (forest_identifiers A ts)" by (simp add: bdfid_identifier_def)
    then obtain obj where "obj \<in> set (forest_objects ts)" "hwloc_bdfid A obj = Some b"
      by (auto simp: forest_identifiers_def obj_identifier_def split: option.splits)
    with b(1) i(2) show False by (auto simp: hwloc_has_def)
  qed
  then have no: "\<not> (\<forall>i < DeviceGetCount N. nvml_known N G w i)" using i(1) by blast
  have "ModuleNvml_init_graph N G w = None"
    using boost_graph.nvml_init_spec [OF G wf, of N] unfolding if_not_P [OF no] .
  with run show thesis by (rule that)
qed

lemma nvml_after_hwloc:
  fixes G :: "'g bgl" and B :: "'b bitset_ops"
  assumes G: "boost_graph G" and A: "hwloc_types A" and ts: "detected A ts"
    and distinct: "distinct (forest_identifiers A ts)"
    and devices: "\<forall>i < DeviceGetCount N. \<exists>obj \<in> set (forest_objects ts).
      hwloc_bdfid A obj \<noteq> None \<and> hwloc_bdfid A obj = nvml_bdfid N (DeviceGetHandleByIndex N i)"
  obtains w w' :: "('g, 'b) world" where
    "ModuleHwloc_init_graph B H G A n hostname (root_graph G) = Some (YLOC_STATUS_SUCCESS, w)"
    and "ModuleNvml_init_graph N G w = Some (YLOC_STATUS_SUCCESS, w')" and "wf_world G w'"
    and "\<forall>i < DeviceGetCount N. \<exists>v. nvml_at N G w' i v \<and>
      (m_root_vertex (topology w'), v) \<in> (child_rel G (topology w'))\<^sup>+"
proof -
  obtain w where run: "ModuleHwloc_init_graph B H G A n hostname (root_graph G) = Some (YLOC_STATUS_SUCCESS, w)"
    and wf: "wf_world G w" and hang: "\<forall>t \<in> set ts. hangs B H G A n w (m_root_vertex (topology w)) t"
    and named: "pci_named G w"
    by (rule hwloc_phase [OF G A ts distinct, of B H n hostname]) (rule that)
  have reached: "\<exists>b v. nvml_bdfid N (DeviceGetHandleByIndex N i) = Some b \<and> ids w (bdfid_identifier b) = Some v \<and>
      (m_root_vertex (topology w), v) \<in> (child_rel G (topology w))\<^sup>+"
    if i: "i < DeviceGetCount N" for i
  proof -
    obtain obj where o: "obj \<in> set (forest_objects ts)" "hwloc_bdfid A obj \<noteq> None"
      "hwloc_bdfid A obj = nvml_bdfid N (DeviceGetHandleByIndex N i)"
      using devices i by blast
    then obtain b where obj: "obj \<in> set (forest_objects ts)" "hwloc_bdfid A obj = Some b"
      "nvml_bdfid N (DeviceGetHandleByIndex N i) = Some b"
      by (cases "hwloc_bdfid A obj") auto
    show ?thesis using forest_reaches [OF hang obj(1,2)] obj(3) by blast
  qed
  then have known: "\<forall>i < DeviceGetCount N. nvml_known N G w i"
    using named unfolding nvml_known_def pci_named_def by blast
  obtain vertices w1 w' where nvml: "ModuleNvml_init_graph N G w = Some (YLOC_STATUS_SUCCESS, w')"
    and wf': "wf_world G w'" and at: "list_all2 (nvml_at N G w') [0..<DeviceGetCount N] vertices"
    and same: "child_rel G (topology w') = child_rel G (topology w)" and ids: "ids w' = ids w"
    and root: "m_root_vertex (topology w') = m_root_vertex (topology w)"
    using boost_graph.nvml_init_spec [OF G wf, of N] known by auto
  have "\<exists>v. nvml_at N G w' i v \<and> (m_root_vertex (topology w'), v) \<in> (child_rel G (topology w'))\<^sup>+"
    if i: "i < DeviceGetCount N" for i
  proof -
    have *: "nvml_at N G w' i (vertices ! i)" using list_all2_nthD [OF at, of i] i by simp
    obtain b v where b: "nvml_bdfid N (DeviceGetHandleByIndex N i) = Some b" "ids w (bdfid_identifier b) = Some v"
      "(m_root_vertex (topology w), v) \<in> (child_rel G (topology w))\<^sup>+"
      using reached [OF i] by blast
    have "ids w' (bdfid_identifier b) = Some v" using ids b(2) by simp
    then have "vertices ! i = v" using * b(1) by (auto simp: nvml_at_def gpu_at_def)
    then show ?thesis using * b(3) same root by auto
  qed
  then show thesis using that [OF run nvml wf'] by blast
qed

section \<open>The hwloc and the ROCm module in either order\<close>

text \<open>
  Every device with a known address is a GPU with its adapter, and below the root vertex when hwloc has
  its address.
\<close>

definition rocm_placed :: "rocm_api \<Rightarrow> rocm_locals \<Rightarrow> ('o, 'h) hwloc_api \<Rightarrow> 'o htree list \<Rightarrow> 'g bgl \<Rightarrow>
    ('g, 'b) world \<Rightarrow> bool" where
  "rocm_placed R L A ts G w \<longleftrightarrow> (\<forall>i < rocm_num_devices R L. \<forall>b. dev_pci_id_get R i = Some b \<longrightarrow>
     (\<exists>v. gpu_at G w (bdfid_identifier b) v (rocm_adapter R i) \<and>
       (hwloc_has A ts (Some b) \<longrightarrow> (m_root_vertex (topology w), v) \<in> (child_rel G (topology w))\<^sup>+)))"

lemma rocm_placedI:
  assumes "\<forall>i < rocm_num_devices R L. \<forall>b. dev_pci_id_get R i = Some b \<longrightarrow>
      (\<exists>v. gpu_at G w (bdfid_identifier b) v (rocm_adapter R i))"
    and "\<And>obj b. obj \<in> set (forest_objects ts) \<Longrightarrow> hwloc_bdfid A obj = Some b \<Longrightarrow>
      \<exists>v. ids w (bdfid_identifier b) = Some v \<and> (m_root_vertex (topology w), v) \<in> (child_rel G (topology w))\<^sup>+"
  shows "rocm_placed R L A ts G w"
  unfolding rocm_placed_def
proof (intro allI impI)
  fix i b
  assume "i < rocm_num_devices R L" "dev_pci_id_get R i = Some b"
  then obtain v where v: "gpu_at G w (bdfid_identifier b) v (rocm_adapter R i)" using assms(1) by blast
  moreover have "(m_root_vertex (topology w), v) \<in> (child_rel G (topology w))\<^sup>+" if "hwloc_has A ts (Some b)"
    using that assms(2) v by (fastforce simp: hwloc_has_def gpu_at_def)
  ultimately show "\<exists>v. gpu_at G w (bdfid_identifier b) v (rocm_adapter R i) \<and>
      (hwloc_has A ts (Some b) \<longrightarrow> (m_root_vertex (topology w), v) \<in> (child_rel G (topology w))\<^sup>+)"
    by blast
qed

lemma rocm_after_hwloc:
  fixes G :: "'g bgl" and B :: "'b bitset_ops"
  assumes G: "boost_graph G" and A: "hwloc_types A" and ts: "detected A ts"
    and distinct: "distinct (forest_identifiers A ts)"
    and reads: "bandwidths_in_bounds R L"
  obtains w w' :: "('g, 'b) world" where
    "ModuleHwloc_init_graph B H G A n hostname (root_graph G) = Some (YLOC_STATUS_SUCCESS, w)"
    and "ModuleRocm_init_graph R L G w = Some (YLOC_STATUS_SUCCESS, w')" and "wf_world G w'"
    and "rocm_placed R L A ts G w'"
proof -
  obtain w where run: "ModuleHwloc_init_graph B H G A n hostname (root_graph G) = Some (YLOC_STATUS_SUCCESS, w)"
    and wf: "wf_world G w" and hang: "\<forall>t \<in> set ts. hangs B H G A n w (m_root_vertex (topology w)) t"
    by (rule hwloc_phase [OF G A ts distinct, of B H n hostname]) (rule that)
  obtain w' where rocm: "ModuleRocm_init_graph R L G w = Some (YLOC_STATUS_SUCCESS, w')"
    and wf': "wf_world G w'" and ids: "ids w \<subseteq>\<^sub>m ids w'"
    and same: "child_rel G (topology w') = child_rel G (topology w)"
      "m_root_vertex (topology w') = m_root_vertex (topology w)"
    and at: "\<forall>i < rocm_num_devices R L. \<forall>b. dev_pci_id_get R i = Some b \<longrightarrow>
      (\<exists>v. gpu_at G w' (bdfid_identifier b) v (rocm_adapter R i))"
    using boost_graph.rocm_init_own [OF G wf reads] by blast
  have "rocm_placed R L A ts G w'"
  proof (rule rocm_placedI [OF at])
    fix obj b
    assume obj: "obj \<in> set (forest_objects ts)" "hwloc_bdfid A obj = Some b"
    obtain v where "ids w (bdfid_identifier b) = Some v"
      "(m_root_vertex (topology w), v) \<in> (child_rel G (topology w))\<^sup>+"
      using forest_reaches [OF hang obj] by blast
    then show "\<exists>v. ids w' (bdfid_identifier b) = Some v \<and>
        (m_root_vertex (topology w'), v) \<in> (child_rel G (topology w'))\<^sup>+"
      using ids unfolding same by (intro exI [of _ v]) (auto simp: map_le_def dom_def)
  qed
  then show thesis by (rule that [OF run rocm wf'])
qed

lemma hwloc_after_rocm:
  fixes G :: "'g bgl" and B :: "'b bitset_ops"
  assumes G: "boost_graph G" and A: "hwloc_types A" and ts: "detected A ts"
    and reads: "bandwidths_in_bounds R L"
  obtains w w' :: "('g, 'b) world" where
    "ModuleRocm_init_graph R L G (root_graph G) = Some (YLOC_STATUS_SUCCESS, w)"
    and "ModuleHwloc_init_graph B H G A n hostname w = Some (YLOC_STATUS_SUCCESS, w')" and "wf_world G w'"
    and "rocm_placed R L A ts G w'"
proof -
  note build = hwloc_buildI [OF G A]
  have wf0: "wf_world G (root_graph G :: ('g, 'b) world)" by (rule boost_graph.wf_root_graph [OF G])
  have known: "\<forall>obj \<in> set (forest_objects ts). knows_type A obj" using ts by (simp add: detected_def)
  obtain w :: "('g, 'b) world" where rocm: "ModuleRocm_init_graph R L G (root_graph G) = Some (YLOC_STATUS_SUCCESS, w)"
    and wf: "wf_world G w"
    and at: "\<forall>i < rocm_num_devices R L. \<forall>b. dev_pci_id_get R i = Some b \<longrightarrow>
      (\<exists>v. gpu_at G w (bdfid_identifier b) v (rocm_adapter R i))"
    using boost_graph.rocm_init_own [OF G wf0 reads] by blast
  obtain v w2 w' where run: "ModuleHwloc_init_graph B H G A n hostname w = Some (YLOC_STATUS_SUCCESS, w')"
    and forest: "build_forest B H G A n v ts w2 = Some w'" and v: "v < nv G w2" and wf2: "wf_world G w2"
    and ext: "extends G w w2" and root: "m_root_vertex (topology w2) = v"
    by (rule hwloc_build.init_graph_builds [OF build wf ts, of B H n hostname]) (rule that)
  have spec: "wf_world G w'" "\<forall>t \<in> set ts. hangs B H G A n w' v t" "extends G w2 w'"
    "m_root_vertex (topology w') = v"
    using hwloc_build.build_forest_spec [OF build wf2 v known, of B H n] forest root by auto
  have "rocm_placed R L A ts G w'"
  proof (rule rocm_placedI)
    show "\<forall>i < rocm_num_devices R L. \<forall>b. dev_pci_id_get R i = Some b \<longrightarrow>
        (\<exists>v. gpu_at G w' (bdfid_identifier b) v (rocm_adapter R i))"
      using at gpu_at_extends [OF extends_trans [OF ext spec(3)]] by blast
    show "\<exists>v. ids w' (bdfid_identifier b) = Some v \<and>
        (m_root_vertex (topology w'), v) \<in> (child_rel G (topology w'))\<^sup>+"
      if "obj \<in> set (forest_objects ts)" "hwloc_bdfid A obj = Some b" for obj b
      using forest_reaches [OF spec(2) that] spec(4) by simp
  qed
  then show thesis by (rule that [OF rocm run spec(1)])
qed

text \<open>Two enabled modules of one order run in one of the two orders.\<close>

lemma init_two_modules:
  assumes "std_sort srt" and "mset modules = {#a, b#}"
  shows "init srt modules w = (case run_modules [a, b] w of None \<Rightarrow> None | Some w' \<Rightarrow> Some (YLOC_STATUS_SUCCESS, w')) \<and>
      srt (\<lambda>a b. m_init_order a < m_init_order b) modules = [a, b] \<or>
    init srt modules w = (case run_modules [b, a] w of None \<Rightarrow> None | Some w' \<Rightarrow> Some (YLOC_STATUS_SUCCESS, w')) \<and>
      srt (\<lambda>a b. m_init_order a < m_init_order b) modules = [b, a]"
proof -
  let ?ms = "srt (\<lambda>a b. m_init_order a < m_init_order b) modules"
  have "mset ?ms = {#a, b#}" using std_sort.sort_perm [OF assms(1)] assms(2) by simp
  then have "?ms = [a, b] \<or> ?ms = [b, a]"
    by (cases ?ms; cases "tl ?ms") (auto simp: add_eq_conv_ex)
  then show ?thesis by (auto simp: init_def)
qed

section \<open>Properties\<close>

text \<open>
  C8. A build with the hwloc and the NVML module, both of order FIRST, on a machine with NVML devices that hwloc
  detects, without two PCI devices at one address. Run in this order they succeed exactly when every device that NVML counts has the address of an object of hwloc (as
  NVML's module computes it, without the function number): then every device is a GPU below the root vertex
  in hwloc's hierarchy, with its NVML adapter, and otherwise the NVML module stops. In the other
  order it always stops, as no PCI device has a vertex yet. Which of the two \<^verbatim>\<open>init()\<close> does is left to
  \<^verbatim>\<open>std::sort\<close>, for which both orders are sorted.
\<close>

theorem gpu_build_order:
  fixes G :: "'g bgl" and B :: "'b bitset_ops"
  assumes "std_sort srt" and "boost_graph G" and "hwloc_types (sys_hwloc S)"
    and "detected (sys_hwloc S) ts" and "distinct (forest_identifiers (sys_hwloc S) ts)"
    and "0 < DeviceGetCount N" and "mset modules = {#hwloc_module B H G S, nvml_module G N#}"
  shows "(if \<forall>i < DeviceGetCount N. hwloc_has (sys_hwloc S) ts (nvml_bdfid N (DeviceGetHandleByIndex N i))
    then \<exists>w'. run_modules [hwloc_module B H G S, nvml_module G N] (root_graph G) = Some w' \<and> wf_world G w' \<and>
      (\<forall>i < DeviceGetCount N. \<exists>v. nvml_at N G w' i v \<and>
        (m_root_vertex (topology w'), v) \<in> (child_rel G (topology w'))\<^sup>+)
    else run_modules [hwloc_module B H G S, nvml_module G N] (root_graph G) = None) \<and>
    run_modules [nvml_module G N, hwloc_module B H G S] (root_graph G) = None \<and>
    init srt modules (root_graph G) =
      (if srt (\<lambda>a b. m_init_order a < m_init_order b) modules = [hwloc_module B H G S, nvml_module G N]
       then map_option (Pair YLOC_STATUS_SUCCESS) (run_modules [hwloc_module B H G S, nvml_module G N] (root_graph G))
       else None)"
    (is "?first \<and> ?second \<and> ?init")
proof -
  let ?h = "hwloc_module B H G S" and ?n = "nvml_module G N"
  have wf0: "wf_world G (root_graph G :: ('g, 'b) world)"
    by (rule boost_graph.wf_root_graph [OF assms(2)])
  have "ids (root_graph G :: ('g, 'b) world) = Map.empty"
    by (simp add: step_simps new_graph_def)
  then have no: "\<not> (\<forall>i < DeviceGetCount N. nvml_known N G (root_graph G :: ('g, 'b) world) i)"
    using assms(6) by (auto simp: nvml_known_def)
  have "ModuleNvml_init_graph N G (root_graph G :: ('g, 'b) world) = None"
    using boost_graph.nvml_init_spec [OF assms(2) wf0, of N] unfolding if_not_P [OF no] .
  then have bad: ?second by (simp add: nvml_module_def default_module_def)
  have ?first
  proof (cases "\<forall>i < DeviceGetCount N. hwloc_has (sys_hwloc S) ts (nvml_bdfid N (DeviceGetHandleByIndex N i))")
    case True
    show ?thesis
      unfolding if_P [OF True]
      by (rule nvml_after_hwloc [OF assms(2,3,4,5) True [unfolded hwloc_has_def], of B H "sys_nprocs S" "sys_hostname S"])
        (simp add: hwloc_module_def nvml_module_def default_module_def)
  next
    case False
    then obtain i where i: "i < DeviceGetCount N"
      "\<not> hwloc_has (sys_hwloc S) ts (nvml_bdfid N (DeviceGetHandleByIndex N i))" by blast
    show ?thesis
      unfolding if_not_P [OF False]
      by (rule nvml_stuck_after_hwloc [OF assms(2,3,4,5) i, of B H "sys_nprocs S" "sys_hostname S"])
        (simp add: hwloc_module_def nvml_module_def default_module_def)
  qed
  moreover have ?init
  proof (cases "srt (\<lambda>a b. m_init_order a < m_init_order b) modules = [?h, ?n]")
    case True
    then show ?thesis by (simp add: init_def map_option_case split_def del: run_modules.simps)
  next
    case False
    then have "init srt modules (root_graph G) =
        (case run_modules [?n, ?h] (root_graph G) of None \<Rightarrow> None | Some w \<Rightarrow> Some (YLOC_STATUS_SUCCESS, w))"
      using init_two_modules [OF assms(1,7), of "root_graph G"] by blast
    then show ?thesis unfolding bad if_not_P [OF False] by simp
  qed
  ultimately show ?thesis using bad by blast
qed

text \<open>The machine of \<open>sample_system\<close> with one GPU, at the address of its PCI device.\<close>

definition sample_one_gpu :: "nat nvml_api" where
  "sample_one_gpu = sample_nvml\<lparr>DeviceGetCount := 1, DeviceGetPciInfo := (\<lambda>_. Some (0, 3, 0))\<rparr>"

lemma sample_gpu_address: "hwloc_bdfid sample_api 3 \<noteq> None"
  "hwloc_bdfid sample_api 3 = nvml_bdfid sample_one_gpu (DeviceGetHandleByIndex sample_one_gpu 0)"
  by (simp_all add: hwloc_bdfid_def hwloc_types.compare_types_zero [OF hwloc_types_sample]
      nvml_bdfid_def sample_one_gpu_def sample_nvml_def bdfid_encode_def nvml_bdfid_get_def)

theorem gpu_build_order_witness:
  "(\<exists>w'. init insertion_sort [hwloc_module bool_list_ops index_list_ops adjlist_ops sample_system,
        nvml_module adjlist_ops sample_one_gpu] (root_graph adjlist_ops) = Some (YLOC_STATUS_SUCCESS, w') \<and>
      (\<exists>v. nvml_at sample_one_gpu adjlist_ops w' 0 v)) \<and>
   init insertion_sort [nvml_module adjlist_ops sample_one_gpu,
      hwloc_module bool_list_ops index_list_ops adjlist_ops sample_system]
      (root_graph adjlist_ops :: (adjlist, bool list) world) = None"
proof -
  let ?h = "hwloc_module bool_list_ops index_list_ops adjlist_ops sample_system"
  let ?n = "nvml_module adjlist_ops sample_one_gpu :: (adjlist, bool list) module"
  have sys: "sys_hwloc sample_system = sample_api" "DeviceGetCount sample_one_gpu = 1"
    by (simp_all add: sample_system_def sample_one_gpu_def)
  have keep: "insertion_sort (\<lambda>a b. m_init_order a < m_init_order b) [a, b] = [a, b]"
    if "m_init_order a = FIRST" "m_init_order b = FIRST" for a b :: "(adjlist, bool list) module"
    using that by simp
  have dev: "\<forall>i < DeviceGetCount sample_one_gpu. hwloc_has (sys_hwloc sample_system) sample_tree
      (nvml_bdfid sample_one_gpu (DeviceGetHandleByIndex sample_one_gpu i))"
    using sample_gpu_address unfolding sys hwloc_has_def by (auto simp: sample_tree_def intro!: bexI [of _ 3])
  have "hwloc_types (sys_hwloc sample_system)" "detected (sys_hwloc sample_system) sample_tree"
    "distinct (forest_identifiers (sys_hwloc sample_system) sample_tree)" "0 < DeviceGetCount sample_one_gpu"
    using hwloc_types_sample sample_detected sample_distinct by (simp_all add: sys)
  note order = gpu_build_order [OF std_sort_insertion_sort boost_graph_adjlist this, unfolded if_P [OF dev]]
  have "run_modules [?n, ?h] (root_graph adjlist_ops) = None"
    using order [of "[?h, ?n]" bool_list_ops index_list_ops] by (simp del: run_modules.simps)
  then have "init insertion_sort [?n, ?h] (root_graph adjlist_ops) = None"
    unfolding init_def by (simp add: keep del: insertion_sort.simps run_modules.simps)
  moreover have "\<exists>w'. init insertion_sort [?h, ?n] (root_graph adjlist_ops) = Some (YLOC_STATUS_SUCCESS, w') \<and>
      (\<exists>v. nvml_at sample_one_gpu adjlist_ops w' 0 v)"
    using order [of "[?h, ?n]" bool_list_ops index_list_ops] unfolding sys(2)
    by (simp add: keep del: insertion_sort.simps run_modules.simps) blast
  ultimately show ?thesis by blast
qed

text \<open>
  C9. The hwloc and the ROCm module do not depend on their order: whichever order \<^verbatim>\<open>std::sort\<close> leaves them
  in, \<^verbatim>\<open>init()\<close> succeeds, on a machine that hwloc detects, without two PCI devices at one address, when the
  bandwidths that the ROCm module prints are read inside their arrays. Every
  device whose address ROCm-SMI returns is then a GPU with its ROCm adapter at the vertex of that
  address; if the address is that of an object of hwloc, this vertex is below the root vertex in hwloc's
  hierarchy. (hwloc keeps a type that is already given, and ROCm makes the vertex that hwloc does not
  have yet.)
\<close>

theorem rocm_build_any_order:
  fixes G :: "'g bgl" and B :: "'b bitset_ops"
  assumes "std_sort srt" and "boost_graph G" and "hwloc_types (sys_hwloc S)"
    and "detected (sys_hwloc S) ts" and "distinct (forest_identifiers (sys_hwloc S) ts)"
    and "bandwidths_in_bounds R L"
    and "mset modules = {#hwloc_module B H G S, rocm_module G R L#}"
  shows "\<exists>w'. init srt modules (root_graph G) = Some (YLOC_STATUS_SUCCESS, w') \<and> wf_world G w' \<and>
    rocm_placed R L (sys_hwloc S) ts G w'"
proof -
  obtain w1 w2 where one: "run_modules [hwloc_module B H G S, rocm_module G R L] (root_graph G) = Some w2"
    "wf_world G w2" "rocm_placed R L (sys_hwloc S) ts G w2"
    by (rule rocm_after_hwloc [OF assms(2-6), of B H "sys_nprocs S" "sys_hostname S"])
      (auto simp: hwloc_module_def rocm_module_def default_module_def)
  obtain w3 w4 where two: "run_modules [rocm_module G R L, hwloc_module B H G S] (root_graph G) = Some w4"
    "wf_world G w4" "rocm_placed R L (sys_hwloc S) ts G w4"
    by (rule hwloc_after_rocm [OF assms(2-4,6), of B H "sys_nprocs S" "sys_hostname S"])
      (auto simp: hwloc_module_def rocm_module_def default_module_def)
  show ?thesis
    using init_two_modules [OF assms(1,7), of "root_graph G"] one two
    by (elim disjE conjE) (simp_all del: run_modules.simps)
qed

theorem rocm_build_any_order_witness:
  "\<exists>w'. init insertion_sort [rocm_module adjlist_ops (sample_rocm\<lparr>num_monitor_devices := Some 1\<rparr>) sample_locals,
        hwloc_module bool_list_ops index_list_ops adjlist_ops sample_system] (root_graph adjlist_ops) =
      Some (YLOC_STATUS_SUCCESS, w') \<and>
    (\<exists>v. gpu_at adjlist_ops w' (bdfid_identifier 0x300) v (rocm_adapter (sample_rocm\<lparr>num_monitor_devices := Some 1\<rparr>) 0) \<and>
      (m_root_vertex (topology w'), v) \<in> (child_rel adjlist_ops (topology w'))\<^sup>+)"
proof -
  let ?R = "sample_rocm\<lparr>num_monitor_devices := Some 1\<rparr>"
  have sys: "sys_hwloc sample_system = sample_api" by (simp add: sample_system_def)
  have pci: "dev_pci_id_get ?R 0 = Some 0x300" "hwloc_bdfid sample_api 3 = Some 0x300"
    by (simp_all add: sample_rocm_def hwloc_bdfid_def hwloc_types.compare_types_zero [OF hwloc_types_sample]
        bdfid_encode_def)
  have dev: "hwloc_has sample_api sample_tree (Some 0x300)" "0 < rocm_num_devices ?R sample_locals"
    using pci(2) by (auto simp: hwloc_has_def sample_tree_def rocm_num_devices_def intro!: bexI [of _ 3])
  have "mset [rocm_module adjlist_ops ?R sample_locals, hwloc_module bool_list_ops index_list_ops adjlist_ops sample_system] =
      {#hwloc_module bool_list_ops index_list_ops adjlist_ops sample_system, rocm_module adjlist_ops ?R sample_locals#}"
    by simp
  from rocm_build_any_order [OF std_sort_insertion_sort boost_graph_adjlist _ _ _ sample_rocm_bounds this, of sample_tree]
    hwloc_types_sample sample_detected sample_distinct
  obtain w' where "init insertion_sort [rocm_module adjlist_ops ?R sample_locals,
        hwloc_module bool_list_ops index_list_ops adjlist_ops sample_system] (root_graph adjlist_ops) =
      Some (YLOC_STATUS_SUCCESS, w')" and "rocm_placed ?R sample_locals sample_api sample_tree adjlist_ops w'"
    unfolding sys by blast
  then show ?thesis using pci(1) dev unfolding rocm_placed_def by blast
qed

end
