(* ===== verification/Example_Main.thy ===== *)
theory Example_Main
  imports Examples Gpu_Build
begin

text \<open>
  The program \<^verbatim>\<open>src/example/example.cc\<close> from \<^verbatim>\<open>init()\<close> to the lines that \<^verbatim>\<open>find_distances\<close> prints: on the
  topologies that builds with the hwloc, the MPI and the NVML module make, all processing units
  and accelerators can reach each other, so that the example prints what it means to.
\<close>

section \<open>The program\<close>

text \<open>
  \<^verbatim>\<open>main\<close>, with the two files and the lines that it writes; \<^verbatim>\<open>init()\<close> is called for its effect. \<open>None\<close> is a
  failed assertion, an exception or the undefined behaviour in \<^verbatim>\<open>find_distances\<close>.
\<close>

definition example_main :: "('g, 'b) module_sorter \<Rightarrow> ('g, 'b) module list \<Rightarrow> 'b bitset_ops \<Rightarrow> 'g bgl \<Rightarrow>
    ('g \<Rightarrow> vertex_t \<Rightarrow> edge_t list) \<Rightarrow> (dot_file \<times> dot_file \<times> example_line list) option" where
  "example_main srt modules B G bfs =
     Option.bind (init srt modules (root_graph G)) (\<lambda>(status, w).
       let graph_dot = graph_dot_file B G w;
           filtered_graph_dot = filter_graph_example B G w
       in map_option (\<lambda>lines. (graph_dot, filtered_graph_dot, lines)) (find_distances G bfs (topology w)))"

section \<open>Components that can reach each other\<close>

lemma rooted_path:
  assumes "rooted G w" and "paired G w" and "u < nv G w" and "v < nv G w"
    and "m_type (vat G w u) \<notin> {UnknownComponentType, MPIProcess}"
    and "m_type (vat G w v) \<notin> {UnknownComponentType, MPIProcess}"
  shows "\<exists>p. path (edges_of G (topology w)) u p v"
proof -
  let ?E = "edges_of G (topology w)" and ?r = "m_root_vertex (topology w)"
  have "(?r, u) \<in> (child_rel G (topology w))\<^sup>*" "(?r, v) \<in> (child_rel G (topology w))\<^sup>*"
    using assms(1,3-6) unfolding rooted_def by blast+
  then obtain p q where p: "path ?E ?r p u" and q: "path ?E ?r q v" using child_path by blast
  obtain p' where "path ?E u p' ?r" using path_back [OF p paired_opposite [OF assms(2)]] by blast
  from path_append [OF this q] show ?thesis by blast
qed

text \<open>The modules after hwloc keep the hierarchy.\<close>

lemma run_rest_rooted:
  assumes T: "topology_search G B srt"
  shows "set ms \<subseteq> {mpi_module B G srt S, nvml_module G N} \<Longrightarrow> wf_world G w \<Longrightarrow> paired G w \<Longrightarrow> rooted G w \<Longrightarrow>
    run_modules ms w = Some w' \<Longrightarrow> wf_world G w' \<and> paired G w' \<and> rooted G w'"
proof (induction ms arbitrary: w)
  case Nil
  then show ?case by simp
next
  case (Cons m ms)
  have G: "boost_graph G" using T by (simp add: topology_search_def)
  have enabled: "m_enabled m" using Cons.prems(1) by auto
  then obtain s w1 where step: "m_init_graph m w = Some (s, w1)" and rest: "run_modules ms w1 = Some w'"
    using Cons.prems(5) by (auto split: option.splits)
  note mpi = mpi_build.init_graph_contract [OF mpi_buildI [OF T]] and nvml = boost_graph.nvml_keeps [OF G, of N]
  have "wf_world G w1 \<and> paired G w1 \<and> rooted G w1"
  proof (cases "m = mpi_module B G srt S")
    case True
    then have run: "ModuleMPI_init_graph B G srt (sys_nprocs S) (sys_mpi_initialized S) (sys_processes S)
        (sys_processor_name S) w = Some (s, w1)"
      using step by (simp add: mpi_module_def ModuleMPI_def default_module_def)
    show ?thesis
      using module_contract.keeps_wf [OF mpi Cons.prems(2) run]
        module_contract.keeps_paired [OF mpi Cons.prems(2,3) run]
        mpi_build.mpi_init_rooted [OF mpi_buildI [OF T] Cons.prems(2,4) run] by blast
  next
    case False
    then have run: "ModuleNvml_init_graph N G w = Some (s, w1)"
      using step Cons.prems(1) by (simp add: nvml_module_def default_module_def)
    show ?thesis
      using module_contract.keeps_wf [OF nvml Cons.prems(2) run]
        module_contract.keeps_paired [OF nvml Cons.prems(2,3) run]
        boost_graph.nvml_init_rooted [OF G Cons.prems(2,4) run] by blast
  qed
  then show ?case using Cons.IH [OF _ _ _ _ rest] Cons.prems(1) by simp
qed

lemma init_hwloc_first:
  fixes w :: "('g, 'b) world"
  assumes "topology_search G B srt" and "hwloc_types (sys_hwloc S)" and "detected (sys_hwloc S) ts"
    and "distinct (forest_identifiers (sys_hwloc S) ts)"
    and "filter m_enabled (srt' (\<lambda>a b. m_init_order a < m_init_order b) modules) = hwloc_module B H G S # rest"
    and "set rest \<subseteq> {mpi_module B G srt S, nvml_module G N}"
    and "init srt' modules (root_graph G) = Some (s, w)"
  shows "wf_world G w \<and> paired G w \<and> rooted G w"
proof -
  have G: "boost_graph G" using assms(1) by (simp add: topology_search_def)
  obtain w1 :: "('g, 'b) world" where hwloc: "ModuleHwloc_init_graph B H G (sys_hwloc S) (sys_nprocs S) (sys_hostname S)
      (root_graph G) = Some (YLOC_STATUS_SUCCESS, w1)"
    and w1: "wf_world G w1" "paired G w1" "rooted G w1"
    by (rule hwloc_phase [OF G assms(2,3,4)]) (rule that)
  have "run_modules (hwloc_module B H G S # rest) (root_graph G) = Some w"
    using assms(7) run_modules_enabled [of "srt' (\<lambda>a b. m_init_order a < m_init_order b) modules"]
    unfolding assms(5) by (auto simp: init_def simp del: run_modules.simps split: option.splits)
  then have "run_modules rest w1 = Some w"
    using hwloc by (simp add: hwloc_module_def default_module_def)
  from run_rest_rooted [OF assms(1,6) w1 this] show ?thesis .
qed

text \<open>The lines of \<^verbatim>\<open>find_distances\<close> on such a topology.\<close>

lemma find_distances_reached:
  assumes bfs: "boost_bfs G bfs" and w: "wf_world G w" "paired G w" "rooted G w" "nv G w \<le> 2 ^ 31"
  defines "E \<equiv> edges_of G (topology w)" and "pus \<equiv> vertices_of_type G (topology w) LogicalCore"
  shows "find_distances G bfs (topology w) = (case vertices_of_type G (topology w) Accelerator of
      [] \<Rightarrow> Some [Found_accelerators 0]
    | a # others \<Rightarrow> if pus = [] then None else
        Some (distance_report G (topology w) (a # others) pus (of_nat (Min (hops E a ` set pus)))
          (filter (\<lambda>v. \<forall>u \<in> set pus. hops E a v \<le> hops E a u) pus)))"
proof (cases "vertices_of_type G (topology w) Accelerator")
  case Nil
  then show ?thesis by (simp add: find_distances_def num_vertices_view_length)
next
  case (Cons a others)
  have G: "boost_graph G" using bfs by (simp add: boost_bfs_def)
  have wf: "wf_graph G (topology w)" using w(1) by (simp add: wf_world_def)
  have a: "a < nv G w" "is_a (m_type (vat G w a)) Accelerator"
    using Cons vertices_of_type_iff [OF G, of a "topology w" Accelerator] by simp_all
  have reach: "\<exists>p. path E a p v" if "v \<in> set pus" for v
  proof -
    have v: "v < nv G w" "is_a (m_type (vat G w v)) LogicalCore"
      using that by (simp_all add: pus_def vertices_of_type_iff [OF G])
    have "m_type (vat G w a) \<notin> {UnknownComponentType, MPIProcess}"
      "m_type (vat G w v) \<notin> {UnknownComponentType, MPIProcess}"
      using a(2) v(2) by (auto simp: is_a_eval)
    then show "\<exists>p. path E a p v" unfolding E_def by (rule rooted_path [OF w(3,2) a(1) v(1)])
  qed
  show ?thesis
  proof (cases "pus = []")
    case True
    then show ?thesis
      using Cons by (simp add: find_distances_def num_vertices_view_length Let_def pus_def)
  next
    case False
    then show ?thesis
      using find_distances_cases [OF bfs wf w(4) Cons False [unfolded pus_def]] reach Cons
      by (simp add: E_def pus_def)
  qed
qed

section \<open>Properties\<close>

text \<open>
  C14. The example on builds with the hwloc module first, then the MPI and the NVML module as far as they are
  built and enabled, on a machine that hwloc detects, without two PCI devices at one address. Whatever MPI and NVML report, when \<^verbatim>\<open>init()\<close> returns, \<^verbatim>\<open>main\<close> prints exactly the
  processing units with the fewest hops from the first accelerator, with this number, and none
  without an accelerator; when there is no processing unit, it reads past the end of an empty view. The
  second file is the part of the first that is about caches and the edges between them.
\<close>

theorem example_main_nearest:
  fixes w :: "('g, 'b) world"
  assumes "boost_bfs G bfs" and "topology_search G B srt" and "hwloc_types (sys_hwloc S)"
    and "detected (sys_hwloc S) ts" and "distinct (forest_identifiers (sys_hwloc S) ts)"
    and "filter m_enabled (srt' (\<lambda>a b. m_init_order a < m_init_order b) modules) = hwloc_module B H G S # rest"
    and "set rest \<subseteq> {mpi_module B G srt S, nvml_module G N}"
    and "init srt' modules (root_graph G) = Some (s, w)" and "nv G w \<le> 2 ^ 31"
  defines "E \<equiv> edges_of G (topology w)" and "pus \<equiv> vertices_of_type G (topology w) LogicalCore"
    and "cache \<equiv> (\<lambda>v. is_a (m_type (vat G w v)) Cache)"
  shows "example_main srt' modules B G bfs =
      map_option (\<lambda>lines. (graph_dot_file B G w, filter_graph_example B G w, lines))
        (case vertices_of_type G (topology w) Accelerator of
           [] \<Rightarrow> Some [Found_accelerators 0]
         | a # others \<Rightarrow> if pus = [] then None else
             Some (distance_report G (topology w) (a # others) pus (of_nat (Min (hops E a ` set pus)))
               (filter (\<lambda>v. \<forall>u \<in> set pus. hops E a v \<le> hops E a u) pus))) \<and>
    dot_vertices (filter_graph_example B G w) = filter (\<lambda>(v, l). cache v) (dot_vertices (graph_dot_file B G w)) \<and>
    mset (dot_edges (filter_graph_example B G w)) =
      filter_mset (\<lambda>(u, l, v). cache u \<and> cache v) (mset (dot_edges (graph_dot_file B G w)))"
proof -
  have G: "boost_graph G" using assms(2) by (simp add: topology_search_def)
  have w: "wf_world G w" "paired G w" "rooted G w" using init_hwloc_first [OF assms(2-8)] by blast+
  show ?thesis
    unfolding E_def pus_def cache_def
    using filter_graph_example_part [OF G, of B w]
    by (simp add: example_main_def assms(8) Let_def find_distances_reached [OF assms(1) w assms(9)])
qed

text \<open>The machine with one GPU: there is a processing unit, and the GPU is the accelerator.\<close>

lemma sample_builds:
  obtains w :: "(adjlist, bool list) world" where
    "init insertion_sort [hwloc_module bool_list_ops index_list_ops adjlist_ops sample_system,
       nvml_module adjlist_ops sample_one_gpu] (root_graph adjlist_ops) = Some (YLOC_STATUS_SUCCESS, w)"
    and "nv adjlist_ops w = 5" and "vertices_of_type adjlist_ops (topology w) Accelerator \<noteq> []"
    and "vertices_of_type adjlist_ops (topology w) LogicalCore \<noteq> []"
proof -
  let ?G = adjlist_ops
  let ?h = "hwloc_module bool_list_ops index_list_ops ?G sample_system"
  let ?n = "nvml_module ?G sample_one_gpu"
  have sys: "sys_hwloc sample_system = sample_api" "DeviceGetCount sample_one_gpu = 1"
    by (simp_all add: sample_system_def sample_one_gpu_def)
  obtain w1 :: "(adjlist, bool list) world" where hwloc: "ModuleHwloc_init_graph bool_list_ops index_list_ops ?G sample_api
      (sys_nprocs sample_system) (sys_hostname sample_system) (root_graph ?G) = Some (YLOC_STATUS_SUCCESS, w1)"
    and wf: "wf_world ?G w1" and named: "pci_named ?G w1"
    and hang: "\<forall>t \<in> set sample_tree. hangs bool_list_ops index_list_ops ?G sample_api (sys_nprocs sample_system) w1
      (m_root_vertex (topology w1)) t"
    and num: "nv ?G w1 = Suc (length (forest_objects sample_tree))"
    by (rule hwloc_phase [OF boost_graph_adjlist hwloc_types_sample sample_detected sample_distinct]) (rule that)
  obtain b where b: "hwloc_bdfid sample_api 3 = Some b" using sample_gpu_address(1) by blast
  have "3 \<in> set (forest_objects sample_tree)" by (simp add: sample_tree_def)
  from forest_reaches [OF hang this b] obtain v where v: "ids w1 (bdfid_identifier b) = Some v" by blast
  have address: "nvml_bdfid sample_one_gpu (DeviceGetHandleByIndex sample_one_gpu 0) = Some b"
    using sample_gpu_address(2) b by simp
  have "nvml_known sample_one_gpu ?G w1 0"
    using named v address unfolding nvml_known_def pci_named_def by fastforce
  then have known: "\<forall>i < DeviceGetCount sample_one_gpu. nvml_known sample_one_gpu ?G w1 i" unfolding sys by simp
  obtain vertices w2 w where nvml: "ModuleNvml_init_graph sample_one_gpu ?G w1 = Some (YLOC_STATUS_SUCCESS, w)"
    and at: "list_all2 (nvml_at sample_one_gpu ?G w) [0..<1] vertices"
    and loop: "nvml_devices sample_one_gpu ?G [0..<1] [] w1 = Some (vertices, w2)"
    and same: "nv ?G w = nv ?G w1" "\<forall>v. vat ?G w v = vat ?G w2 v"
    using adjlist.nvml_init_spec [OF wf, of sample_one_gpu] known unfolding sys by auto
  have "\<exists>u < nv ?G w1. m_type (vat ?G w1 u) = LogicalCore"
    using hang by (auto simp: sample_tree_def obj_identifier_def hwloc_bdfid_def
        hwloc_types.compare_types_zero [OF hwloc_types_sample] hwloc_types.type_table [OF hwloc_types_sample])
  then obtain u where u: "u < nv ?G w1" "m_type (vat ?G w1 u) = LogicalCore" by blast
  then have "m_type (vat ?G w u) = LogicalCore"
    using adjlist.nvml_devices_types [OF wf loop u(1)] same(2) by (auto simp: is_a_eval)
  then have pu: "u \<in> set (vertices_of_type ?G (topology w) LogicalCore)"
    using u(1) same(1) by (simp add: vertices_of_type_iff [OF boost_graph_adjlist] is_a_eval)
  obtain g where "nvml_at sample_one_gpu ?G w 0 g"
    using at by (auto simp: list_all2_Cons1)
  then have acc: "g \<in> set (vertices_of_type ?G (topology w) Accelerator)"
    by (auto simp: nvml_at_def gpu_at_def vertices_of_type_iff [OF boost_graph_adjlist] is_a_eval)
  have "insertion_sort (\<lambda>a b. m_init_order a < m_init_order b) [?h, ?n] = [?h, ?n]" by simp
  then have "init insertion_sort [?h, ?n] (root_graph ?G) = Some (YLOC_STATUS_SUCCESS, w)"
    using hwloc nvml unfolding init_def
    by (simp add: hwloc_module_def nvml_module_def default_module_def sys del: insertion_sort.simps)
  moreover have "nv ?G w = 5" using num same(1) by (simp add: sample_tree_def)
  moreover have "vertices_of_type ?G (topology w) Accelerator \<noteq> []"
    "vertices_of_type ?G (topology w) LogicalCore \<noteq> []" using acc pu by force+
  ultimately show thesis by (rule that)
qed

theorem example_main_nearest_witness:
  "\<exists>graph_dot caches accelerator n m d u v lines. example_main insertion_sort
      [hwloc_module bool_list_ops index_list_ops adjlist_ops sample_system, nvml_module adjlist_ops sample_one_gpu]
      bool_list_ops adjlist_ops (\<lambda>g. search_edges (bg_edges adjlist_ops g)) =
    Some (graph_dot, caches, Found_accelerators (Suc n) # First_accelerator accelerator # Number_of_PUs (Suc m) #
      Minimum_distance d # Hops u v d # lines)"
proof -
  let ?G = adjlist_ops and ?bfs = "\<lambda>g. search_edges (bg_edges adjlist_ops g)"
  let ?h = "hwloc_module bool_list_ops index_list_ops ?G sample_system"
  let ?n = "nvml_module ?G sample_one_gpu :: (adjlist, bool list) module"
  obtain w :: "(adjlist, bool list) world" where w: "init insertion_sort [?h, ?n] (root_graph ?G) = Some (YLOC_STATUS_SUCCESS, w)"
    "nv ?G w = 5" "vertices_of_type ?G (topology w) Accelerator \<noteq> []"
    "vertices_of_type ?G (topology w) LogicalCore \<noteq> []"
    by (rule sample_builds)
  obtain a others where a: "vertices_of_type ?G (topology w) Accelerator = a # others" using w(3) by (meson list.exhaust)
  let ?pus = "vertices_of_type ?G (topology w) LogicalCore" and ?d = "hops (edges_of ?G (topology w)) a"
  have "filter m_enabled (insertion_sort (\<lambda>a b. m_init_order a < m_init_order b) [?h, ?n]) = ?h # [?n]" by simp
  moreover have "hwloc_types (sys_hwloc sample_system)" "detected (sys_hwloc sample_system) sample_tree"
    "distinct (forest_identifiers (sys_hwloc sample_system) sample_tree)"
    using hwloc_types_sample sample_detected sample_distinct by (simp_all add: sample_system_def)
  ultimately have "example_main insertion_sort [?h, ?n] bool_list_ops ?G ?bfs =
      Some (graph_dot_file bool_list_ops ?G w, filter_graph_example bool_list_ops ?G w,
        distance_report ?G (topology w) (a # others) ?pus (of_nat (Min (?d ` set ?pus)))
          (filter (\<lambda>v. \<forall>u \<in> set ?pus. ?d v \<le> ?d u) ?pus))"
    using example_main_nearest [OF boost_bfs_adjlist topology_search_lists, of sample_system sample_tree
        insertion_sort "[?h, ?n]" index_list_ops "[?n]" sample_one_gpu YLOC_STATUS_SUCCESS w] w(1,2,4) a
    by (simp del: insertion_sort.simps)
  moreover obtain v where v: "v \<in> set ?pus" "\<forall>u \<in> set ?pus. ?d v \<le> ?d u"
    using ex_min_if_finite [of "?d ` set ?pus"] w(4) by (auto simp: not_less)
  then obtain u us where "filter (\<lambda>v. \<forall>u \<in> set ?pus. ?d v \<le> ?d u) ?pus = u # us"
    by (cases "filter (\<lambda>v. \<forall>u \<in> set ?pus. ?d v \<le> ?d u) ?pus") (auto simp: filter_empty_conv)
  moreover obtain m where "length ?pus = Suc m" using w(4) by (cases ?pus) auto
  ultimately show ?thesis by (simp add: distance_report_def del: insertion_sort.simps)
qed

end
