(* ===== verification/Adapters_For.thy ===== *)
theory Adapters_For
  imports Pci_Names Nvml_Module Rocm_Module
begin

text \<open>
  Whose adapters a named vertex holds. The modules share vertices through identifiers, and a query asks
  all adapters of a vertex in turn; here, every adapter that a module attaches to a named vertex
  belongs to the component of that name, whichever modules ran before.
\<close>

section \<open>The invariant\<close>

text \<open>Every adapter at the vertex of identifier \<open>i\<close> satisfies \<open>P i\<close>.\<close>

definition adapters_for :: "(string \<Rightarrow> 'b adapter \<Rightarrow> bool) \<Rightarrow> 'g bgl \<Rightarrow> ('g, 'b) world \<Rightarrow> bool" where
  "adapters_for P G w \<longleftrightarrow>
     (\<forall>i v. ids w i = Some v \<longrightarrow> (\<forall>p \<in> set (m_adapters (vat G w v)). P i (objects w ! p)))"

lemma adapters_forD:
  "adapters_for P G w \<Longrightarrow> ids w i = Some v \<Longrightarrow> p \<in> set (m_adapters (vat G w v)) \<Longrightarrow> P i (objects w ! p)"
  by (simp add: adapters_for_def)

lemma adapters_for_cong:
  assumes "adapters_for P G w" and "ids w' = ids w" and "objects w' = objects w"
    and "\<And>i v. ids w i = Some v \<Longrightarrow> m_adapters (vat G w' v) = m_adapters (vat G w v)"
  shows "adapters_for P G w'"
  using assms by (simp add: adapters_for_def)

context boost_graph
begin

lemma adapters_for_root_graph: "adapters_for P G (root_graph G)"
  by (simp add: adapters_for_def graph_simps)

lemma named_less: "wf_world G w \<Longrightarrow> ids w i = Some v \<Longrightarrow> v < nv G w"
  by (rule wf_graphD(1) [OF wf_world_graph])

lemma adapters_for_make_shared:
  assumes "wf_world G w" and "adapters_for P G w"
  shows "adapters_for P G (snd (make_shared a w))"
proof -
  have "p < length (objects w)" if "ids w i = Some v" "p \<in> set (m_adapters (vat G w v))" for i v p
    using assms(1) named_less [OF assms(1) that(1)] that(2)
    by (auto simp: wf_world_def adapters_valid_def dest!: vertex_okD)
  with assms(2) show ?thesis by (simp add: adapters_for_def graph_simps nth_append)
qed

lemma adapters_for_vertex_named:
  assumes wf: "wf_world G w" and "adapters_for P G w"
  shows "adapters_for P G (snd (vertex_named G i w))"
proof (cases "ids w i")
  case (Some u)
  then show ?thesis using assms(2) by (simp add: adapters_for_def step_simps add_vertex_known)
next
  case None
  have "vat G (snd (vertex_named G i w)) v =
      (if v = nv G w then new_vertex else vat G w v)" if "v \<le> nv G w" for v
    using that by (auto simp: step_simps add_vertex_new [OF None])
  then show ?thesis
    using assms(2) named_less [OF wf] unfolding adapters_for_def
    by (auto simp: step_simps add_vertex_new [OF None] less_imp_le split: if_splits)
qed

lemma adapters_for_attach:
  assumes wf: "wf_world G w" and "adapters_for P G w" and "v < nv G w"
    and "\<And>i. ids w i = Some v \<Longrightarrow> P i (objects w ! p)"
  shows "adapters_for P G (attach G v p w)"
  using assms named_less [OF wf] unfolding adapters_for_def
  by (auto simp: graph_simps split: if_splits)

lemma adapters_for_steps:
  assumes "wf_world G w" and "adapters_for P G w" and "v < nv G w"
  shows "adapters_for P G (set_type G v t w)" and "adapters_for P G (set_description G v s w)"
    and "adapters_for P G (set_root v w)"
  by (rule adapters_for_cong [OF assms(2)];
      use assms(3) named_less [OF assms(1)] in \<open>auto simp: graph_simps\<close>)+

end

section \<open>The hwloc module\<close>

context hwloc_build
begin

lemma add_hwloc_child_facts:
  assumes wf: "wf_world G w" and vd: "vd < nv G w" and known: "knows_type A child"
    and add: "add_hwloc_child B H G A n vd child w = Some (v, w')"
  shows "wf_world G w'" and "v < nv G w'" and "objects w' = objects w @ [hwloc_adapter B H A n child]"
    and "ids w' = (case obj_identifier A child of None \<Rightarrow> ids w | Some i \<Rightarrow> (ids w)(i \<mapsto> v))"
    and "extends G w w'"
proof -
  obtain v' w'' where "add_hwloc_child B H G A n vd child w = Some (v', w'')" and ext: "extends G w w''"
    and wf': "wf_world G w''" and v: "v' < nv G w''"
    and o: "objects w'' = objects w @ [hwloc_adapter B H A n child]"
    and ids: "ids w'' = (case obj_identifier A child of None \<Rightarrow> ids w | Some i \<Rightarrow> (ids w)(i \<mapsto> v'))"
    by (rule add_hwloc_child_spec [OF wf vd known, of B H n]) (rule that)
  then have same: "v' = v" "w'' = w'" using add by simp_all
  from wf' v o ids ext
  show "wf_world G w'" and "v < nv G w'" and "objects w' = objects w @ [hwloc_adapter B H A n child]"
    and "ids w' = (case obj_identifier A child of None \<Rightarrow> ids w | Some i \<Rightarrow> (ids w)(i \<mapsto> v))"
    and "extends G w w'"
    unfolding same by simp_all
qed

text \<open>The vertex a child was given answers to the identifier of the child, and no other name came to an
  old vertex.\<close>

lemma add_hwloc_child_names:
  assumes wf: "wf_world G w" and vd: "vd < nv G w" and known: "knows_type A child"
    and add: "add_hwloc_child B H G A n vd child w = Some (v, w')"
  shows "ids w' i = Some v \<Longrightarrow> obj_identifier A child = Some i"
    and "ids w' i = Some u \<Longrightarrow> u < nv G w \<Longrightarrow> ids w i = Some u"
proof -
  note facts = add_hwloc_child_facts [OF wf vd known add]
  note ids = facts(4) and wf' = facts(1)
  obtain t where t: "hwloc_2_yloc_type A child = Some t" using type_known known by blast
  note at = add_hwloc_child_at [OF wf vd t add]
  show "obj_identifier A child = Some i" if i: "ids w' i = Some v"
  proof (cases "obj_identifier A child")
    case None
    then have "v = nv G w" using at(2) [OF facts(2)] by simp
    then show ?thesis using named_less [OF wf, of i v] i ids None by simp
  next
    case (Some j)
    then have "ids w' j = Some v" using ids by simp
    then show ?thesis using wf_graphD(2) [OF wf_world_graph [OF wf'] i] Some by simp
  qed
  show "ids w i = Some u" if i: "ids w' i = Some u" and old: "u < nv G w"
  proof (cases "ids w i")
    case None
    then have "u = v" "obj_identifier A child = Some i"
      using i ids by (auto split: option.splits if_splits)
    then show ?thesis using at(2) [OF facts(2)] None old by simp
  next
    case (Some x)
    then show ?thesis using extendsD(3) [OF facts(5) Some] i by simp
  qed
qed

lemma add_hwloc_child_adapters:
  assumes wf: "wf_world G w" and vd: "vd < nv G w" and known: "knows_type A child"
    and add: "add_hwloc_child B H G A n vd child w = Some (v, w')" and mine: "adapters_for P G w"
    and own: "\<And>i. obj_identifier A child = Some i \<Longrightarrow> P i (hwloc_adapter B H A n child)"
  shows "adapters_for P G w'"
proof -
  obtain t where t: "hwloc_2_yloc_type A child = Some t" using type_known known by blast
  note facts = add_hwloc_child_facts [OF wf vd known add]
  note at = add_hwloc_child_at [OF wf vd t add] and names = add_hwloc_child_names [OF wf vd known add]
  have valid: "p < length (objects w)" if "u < nv G w" "p \<in> set (m_adapters (vat G w u))" for u p
    using wf that by (auto simp: wf_world_def adapters_valid_def dest!: vertex_okD)
  show ?thesis
    unfolding adapters_for_def
  proof (intro allI impI ballI)
    fix i u p
    assume i: "ids w' i = Some u" and p: "p \<in> set (m_adapters (vat G w' u))"
    show "P i (objects w' ! p)"
    proof (cases "p = length (objects w) \<and> u = v")
      case True
      then show ?thesis using own [OF names(1)] i facts(3) by simp
    next
      case False
      then have old: "u < nv G w" "p \<in> set (m_adapters (vat G w u))"
        using p at(1) [OF named_less [OF facts(1) i]] by (auto simp: Let_def split: if_splits)
      show ?thesis
        using adapters_forD [OF mine names(2) [OF i old(1)] old(2)] valid [OF old] facts(3)
        by (simp add: nth_append)
    qed
  qed
qed

lemma build_forest_adapters:
  assumes "wf_world G w" and "vd < nv G w" and "\<forall>obj \<in> set (forest_objects ts). knows_type A obj"
    and "adapters_for P G w" and "build_forest B H G A n vd ts w = Some w'"
    and own: "\<And>obj i. obj_identifier A obj = Some i \<Longrightarrow> P i (hwloc_adapter B H A n obj)"
  shows "adapters_for P G w'"
  using assms(1-5)
proof (induction ts arbitrary: vd w w' rule: forest_objects.induct)
  case 1
  then show ?case by simp
next
  case (2 obj cs ts)
  have known: "knows_type A obj" using "2.prems"(3) by simp
  obtain v w1 where add: "add_hwloc_child B H G A n vd obj w = Some (v, w1)"
    and wf1: "wf_world G w1" and v: "v < nv G w1" "vd < nv G w1"
    by (rule add_hwloc_child_spec [OF "2.prems"(1,2) known, of B H n]) (rule that)
  have one: "adapters_for P G w1"
    by (rule add_hwloc_child_adapters [OF "2.prems"(1,2) known add "2.prems"(4) own])
  have cs: "\<forall>obj \<in> set (forest_objects cs). knows_type A obj"
    and ts: "\<forall>obj \<in> set (forest_objects ts). knows_type A obj" using "2.prems"(3) by auto
  from build_forest_spec [OF wf1 v(1) cs, of B H n] obtain w2 where
    w2: "build_forest B H G A n v cs w1 = Some w2" and wf2: "wf_world G w2" and ext2: "extends G w1 w2"
    by auto
  have "vd < nv G w2" using v(2) extendsD(1) [OF ext2] by simp
  moreover have "build_forest B H G A n vd ts w2 = Some w'" using "2.prems"(5) add w2 by simp
  ultimately show ?case
    using "2.IH"(2) [OF wf2 _ ts "2.IH"(1) [OF wf1 v(1) cs one w2]] by blast
qed

lemma hwloc_init_split:
  assumes ts: "detected A ts" and run: "ModuleHwloc_init_graph B H G A n hostname w = Some (s, w')"
  obtains v w1 w2 where "root_vertex_hwloc B H G A n hostname w = (v, w1)"
    and "w2 = (if m_type (vat G w1 v) = UnknownComponentType then set_type G v Node w1 else w1)"
    and "build_forest B H G A n v ts w2 = Some w'"
proof -
  obtain v w1 where pair: "root_vertex_hwloc B H G A n hostname w = (v, w1)" by fastforce
  define w2 where "w2 = (if m_type (vat G w1 v) = UnknownComponentType then set_type G v Node w1 else w1)"
  have t: "hwloc_2_yloc_type A (get_root_obj A) = Some Node"
    using ts by (simp add: type_table detected_def)
  have "make_hwloc_graph B H G A n v (get_root_obj A) w2 = Some w'"
    using run ts unfolding ModuleHwloc_init_graph_def pair w2_def
    by (auto simp: detected_def t Let_def split: if_splits)
  moreover have "make_hwloc_graph B H G A n v (get_root_obj A) w2 = build_forest B H G A n v ts w2"
    unfolding make_hwloc_graph_def
    by (rule hwloc_children_forest) (use ts in \<open>auto simp: detected_def\<close>)
  ultimately show thesis using that [OF pair w2_def] by simp
qed

text \<open>The vertex of the machine carries the identifier of the host and gets the adapter of the root object.\<close>

lemma root_vertex_adapters:
  assumes wf: "wf_world G w" and mine: "adapters_for P G w"
    and run: "root_vertex_hwloc B H G A n hostname w = (v, w1)"
    and machine: "P (''machine:'' @ hostname) (hwloc_adapter B H A n (get_root_obj A))"
  shows "adapters_for P G w1"
proof -
  have res: "v = fst (root_vertex_hwloc B H G A n hostname w)" "w1 = snd (root_vertex_hwloc B H G A n hostname w)"
    using run by simp_all
  let ?m = "snd (vertex_named G (''machine:'' @ hostname) w)" and ?a = "hwloc_adapter B H A n (get_root_obj A)"
  let ?r = "set_root v (set_description G v hostname ?m)"
  have w1_def: "w1 = attach G v (length (objects w)) (snd (make_shared ?a ?r))"
    and v_def: "v = fst (vertex_named G (''machine:'' @ hostname) w)"
    by (simp_all add: res root_vertex_hwloc_def make_shared_def split_def Let_def
        set_root_def set_description_def on_vertex_def vertex_named_def)
  have wfm: "wf_world G ?m" by (rule wf_vertex_named [OF wf])
  have id: "ids ?m (''machine:'' @ hostname) = Some v"
    by (simp only: v_def step_simps map_add_vertex) simp
  have vm: "v < nv G ?m" by (rule named_less [OF wfm id])
  have wfd: "wf_world G (set_description G v hostname ?m)" by (rule wf_set_description [OF wfm vm])
  have vd: "v < nv G (set_description G v hostname ?m)" using vm by (simp add: graph_simps)
  have wfr: "wf_world G ?r" by (rule wf_set_root [OF wfd vd])
  have "adapters_for P G ?r"
    by (rule adapters_for_steps(3) [OF wfd adapters_for_steps(2)
          [OF wfm adapters_for_vertex_named [OF wf mine] vm] vd])
  then have a: "adapters_for P G (snd (make_shared ?a ?r))" by (rule adapters_for_make_shared [OF wfr])
  have "i = ''machine:'' @ hostname" if "ids ?m i = Some v" for i
    by (rule wf_graphD(2) [OF wf_world_graph [OF wfm] that id])
  then have named: "ids ?r i = Some v \<Longrightarrow> i = ''machine:'' @ hostname" for i
    by (simp add: set_root_def set_description_def on_vertex_def graph_record_simps)
  have vr: "v < nv G ?r" using vd by (simp add: graph_simps)
  show ?thesis
    unfolding w1_def
  proof (rule adapters_for_attach [OF wf_make_shared [OF wfr] a])
    show "v < nv G (snd (make_shared ?a ?r))" using vr by (simp add: make_shared_def)
    have "objects ?r = objects w"
      by (simp add: set_root_def set_description_def on_vertex_def vertex_named_def)
    then have "objects (snd (make_shared ?a ?r)) ! length (objects w) = ?a" by (simp add: make_shared_def)
    then show "P i (objects (snd (make_shared ?a ?r)) ! length (objects w))"
      if "ids (snd (make_shared ?a ?r)) i = Some v" for i
      using named [of i] that machine by (simp add: make_shared_def)
  qed simp
qed

lemma hwloc_init_adapters:
  assumes wf: "wf_world G w" and ts: "detected A ts" and mine: "adapters_for P G w"
    and run: "ModuleHwloc_init_graph B H G A n hostname w = Some (s, w')"
    and machine: "P (''machine:'' @ hostname) (hwloc_adapter B H A n (get_root_obj A))"
    and own: "\<And>obj i. obj_identifier A obj = Some i \<Longrightarrow> P i (hwloc_adapter B H A n obj)"
  shows "adapters_for P G w'"
proof -
  note root = root_vertex_simps [OF wf, where B = B and H = H and n = n and hostname = hostname]
  obtain v w1 w2 where pair: "root_vertex_hwloc B H G A n hostname w = (v, w1)"
    and w2_def: "w2 = (if m_type (vat G w1 v) = UnknownComponentType then set_type G v Node w1 else w1)"
    and forest: "build_forest B H G A n v ts w2 = Some w'"
    by (rule hwloc_init_split [OF ts run])
  then have v_def: "v = fst (root_vertex_hwloc B H G A n hostname w)"
    and w1_def: "w1 = snd (root_vertex_hwloc B H G A n hostname w)" by simp_all
  have v: "v < nv G w1" and wf1: "wf_world G w1" using root(1-3) by (simp_all add: v_def w1_def)
  have one: "adapters_for P G w1"
    by (rule root_vertex_adapters [where P = P, OF wf mine pair machine])
  have two: "adapters_for P G w2" "wf_world G w2" "v < nv G w2"
    using adapters_for_steps(1) [OF wf1 one v] wf1 one v
    by (auto simp: w2_def graph_simps intro!: wf_set_type)
  have known: "\<forall>obj \<in> set (forest_objects ts). knows_type A obj" using ts by (simp add: detected_def)
  show ?thesis by (rule build_forest_adapters [OF two(2,3) known two(1) forest own])
qed

end

section \<open>The modules of the GPUs\<close>

context boost_graph
begin

lemma mark_gpu_adapters:
  assumes wf: "wf_world G w" and v: "v < nv G w" and a: "adapter_typed a" and mine: "adapters_for P G w"
    and own: "\<And>i. ids w i = Some v \<Longrightarrow> P i a"
  shows "adapters_for P G (mark_gpu G a v w)"
proof -
  let ?s = "snd (make_shared a w)"
  have s: "wf_world G ?s" "v < nv G ?s" "length (objects w) < length (objects ?s)"
    using wf_make_shared [OF wf a] v by (simp_all add: make_shared_def)
  have "adapters_for P G (attach G v (length (objects w)) ?s)"
    by (rule adapters_for_attach [OF s(1) adapters_for_make_shared [OF wf mine] s(2)])
      (simp add: make_shared_def own)
  moreover have "wf_world G (attach G v (length (objects w)) ?s)" by (rule wf_attach [OF s])
  ultimately show ?thesis
    unfolding mark_gpu_def by (intro adapters_for_steps(1)) (use s(2) in \<open>simp_all add: graph_simps\<close>)
qed

lemma nvml_devices_adapters:
  assumes "wf_world G w" and "adapters_for P G w"
    and "nvml_devices N G is vertices w = Some (vertices', w')"
    and "\<And>i b. i \<in> set is \<Longrightarrow> nvml_bdfid N (DeviceGetHandleByIndex N i) = Some b \<Longrightarrow>
      P (bdfid_identifier b) (nvml_adapter N (DeviceGetHandleByIndex N i))"
  shows "adapters_for P G w'"
  using assms
proof (induction "is" arbitrary: vertices w)
  case Nil
  then show ?case by simp
next
  case (Cons i "is")
  let ?a = "nvml_adapter N (DeviceGetHandleByIndex N i)"
  obtain v w1 where step: "nvml_device N G i w = Some (v, w1)"
    and rest: "nvml_devices N G is (vertices @ [v]) w1 = Some (vertices', w')"
    using Cons.prems(3) by (auto simp: bind_eq_Some_conv)
  have "nvml_known N G w i" using step by (simp add: nvml_device_eq [OF Cons.prems(1)] split: if_splits)
  then obtain b where b: "nvml_bdfid N (DeviceGetHandleByIndex N i) = Some b"
    and id: "ids w (bdfid_identifier b) = Some v" and w1: "w1 = mark_gpu G ?a v w"
    using step by (auto simp: nvml_known_def nvml_device_eq [OF Cons.prems(1)] Let_def)
  have v: "v < nv G w" by (rule named_less [OF Cons.prems(1) id])
  have "P j ?a" if "ids w j = Some v" for j
    using wf_graphD(2) [OF wf_world_graph [OF Cons.prems(1)] that id] Cons.prems(4) [OF _ b] by simp
  then have "adapters_for P G w1"
    unfolding w1 by (rule mark_gpu_adapters [OF Cons.prems(1) v nvml_adapter_typed Cons.prems(2)])
  moreover have "wf_world G w1"
    unfolding w1 by (rule mark_gpu_spec(1) [OF Cons.prems(1) v nvml_adapter_typed])
  ultimately show ?case using Cons.IH [OF _ _ rest] Cons.prems(4) by simp
qed

lemma nvml_init_adapters:
  assumes wf: "wf_world G w" and mine: "adapters_for P G w"
    and run: "ModuleNvml_init_graph N G w = Some (s, w')"
    and own: "\<And>i b. i < DeviceGetCount N \<Longrightarrow> nvml_bdfid N (DeviceGetHandleByIndex N i) = Some b \<Longrightarrow>
      P (bdfid_identifier b) (nvml_adapter N (DeviceGetHandleByIndex N i))"
  shows "adapters_for P G w'"
proof -
  have known: "\<forall>i < DeviceGetCount N. nvml_known N G w i"
    using nvml_init_spec [OF wf, of N] run by (auto split: if_splits)
  then obtain vertices w1 where loop: "nvml_devices N G [0..<DeviceGetCount N] [] w = Some (vertices, w1)"
    and same: "ids w' = ids w" "\<forall>v. vat G w' v = vat G w1 v" "objects w' = objects w1"
    using nvml_init_spec [OF wf, of N] run by auto
  have "adapters_for P G w1" by (rule nvml_devices_adapters [OF wf mine loop]) (simp add: own)
  moreover have "ids w1 = ids w"
    using nvml_devices_spec [OF wf, of "[0..<DeviceGetCount N]" N "[]"] known loop by (auto split: if_splits)
  ultimately show ?thesis using adapters_for_cong [of P G w1 w'] same by simp
qed

lemma rocm_device_adapters:
  assumes wf: "wf_world G w" and mine: "adapters_for P G w"
    and run: "rocm_device R L G i (b, w) = Some (v, b', w')"
    and a: "dev_pci_id_get R i = Some a" and own: "P (bdfid_identifier a) (rocm_adapter R i)"
  shows "adapters_for P G w'"
proof -
  let ?s = "snd (make_shared (rocm_adapter R i) w)" and ?p = "length (objects w)"
  let ?n = "snd (vertex_named G (bdfid_identifier a) ?s)"
  have mark: "mark_rocm_vertex R G i a w = (v, w')"
    using run a by (auto simp: rocm_device_def Let_def split: option.splits prod.splits if_splits)
  then have v: "v = fst (vertex_named G (bdfid_identifier a) ?s)"
    and w': "w' = set_type G v GPU (set_description G v (rocm_to_string R i) (attach G v ?p ?n))"
    by (auto simp: mark_rocm_vertex_def make_shared_def Let_def split: prod.splits)
  have wfs: "wf_world G ?s" by (rule wf_make_shared [OF wf]) simp
  have wfn: "wf_world G ?n" by (rule wf_vertex_named [OF wfs])
  have id: "ids ?n (bdfid_identifier a) = Some v" by (simp only: v step_simps map_add_vertex) simp
  have vn: "v < nv G ?n" by (rule named_less [OF wfn id])
  have p: "?p < length (objects ?n)" "objects ?n ! ?p = rocm_adapter R i"
    by (simp_all add: vertex_named_def make_shared_def)
  have "adapters_for P G (attach G v ?p ?n)"
  proof (rule adapters_for_attach [OF wfn adapters_for_vertex_named
        [OF wfs adapters_for_make_shared [OF wf mine]] vn])
    show "P j (objects ?n ! ?p)" if "ids ?n j = Some v" for j
      using wf_graphD(2) [OF wf_world_graph [OF wfn] that id] own unfolding p(2) by simp
  qed
  moreover have wfa: "wf_world G (attach G v ?p ?n)" by (rule wf_attach [OF wfn vn p(1)])
  moreover have va: "v < nv G (attach G v ?p ?n)" using vn by (simp add: attach_def on_vertex_def modify_simps)
  ultimately show ?thesis
    unfolding w'
    by (intro adapters_for_steps wf_set_description) (simp_all add: set_description_def on_vertex_def modify_simps)
qed

lemma rocm_devices_adapters:
  assumes "wf_world G w" and "adapters_for P G w"
    and "rocm_devices R L G is vertices (b, w) = Some (vertices', b', w')"
    and "\<And>i. i \<in> set is \<Longrightarrow> \<exists>a. dev_pci_id_get R i = Some a \<and> P (bdfid_identifier a) (rocm_adapter R i)"
  shows "adapters_for P G w'"
  using assms
proof (induction "is" arbitrary: vertices b w)
  case Nil
  then show ?case by simp
next
  case (Cons i "is")
  obtain v b1 w1 where step: "rocm_device R L G i (b, w) = Some (v, b1, w1)"
    and rest: "rocm_devices R L G is (vertices @ [v]) (b1, w1) = Some (vertices', b', w')"
    using Cons.prems(3) by (auto simp: bind_eq_Some_conv)
  obtain a where a: "dev_pci_id_get R i = Some a" "P (bdfid_identifier a) (rocm_adapter R i)"
    using Cons.prems(4) [of i] by auto
  have "rocm_bandwidths R L i \<noteq> None" using rocm_device_stuck [of R L i "(b, w)"] step by (metis option.distinct(1))
  from rocm_device_spec [OF Cons.prems(1) refl this, of b] have "wf_world G w1" using step by auto
  then show ?case
    using Cons.IH [OF _ rocm_device_adapters [OF Cons.prems(1,2) step a] rest] Cons.prems(4) by simp
qed

lemma rocm_init_adapters:
  assumes wf: "wf_world G w" and mine: "adapters_for P G w"
    and run: "ModuleRocm_init_graph R L G w = Some (s, w')"
    and own: "\<And>i. i < rocm_num_devices R L \<Longrightarrow>
      \<exists>a. dev_pci_id_get R i = Some a \<and> P (bdfid_identifier a) (rocm_adapter R i)"
  shows "adapters_for P G w'"
proof -
  let ?n = "rocm_num_devices R L"
  have reads: "bandwidths_in_bounds R L" using rocm_init_stuck [of R L w] run by (cases "bandwidths_in_bounds R L") simp_all
  obtain vertices b' w1 where loop: "rocm_devices R L G [0..<?n] [] (l_bdfid L, w) = Some (vertices, b', w1)"
    and wf1: "wf_world G w1"
    and at1: "list_all2 (rocm_marked R G w1) (zip [0..<?n] (rocm_addresses R (l_bdfid L) [0..<?n])) vertices"
    using rocm_devices_spec [OF wf, of "[0..<?n]" R L "[]" "l_bdfid L"] reads by (auto simp: bandwidths_in_bounds_def)
  have len: "length vertices = ?n" using list_all2_lengthD [OF at1] by simp
  have lt: "\<forall>v \<in> set vertices. v < nv G w1"
    using at1 by (auto simp: list_all2_conv_all_nth in_set_conv_nth rocm_marked_def gpu_at_def)
  have "w' = snd (gpu_interconnect G (rocm_direct R) ?n vertices w1)"
    using run loop by (simp add: ModuleRocm_init_graph_def yloc_rocm_gpu_interconnect_def Let_def)
  then have "\<forall>v. vat G w' v = vat G w1 v" "ids w' = ids w1" "objects w' = objects w1"
    using gpu_interconnect_spec [OF wf1 lt len, of "rocm_direct R"] by auto
  moreover have "adapters_for P G w1"
    by (rule rocm_devices_adapters [OF wf mine loop]) (use own in auto)
  ultimately show ?thesis using adapters_for_cong [of P G w1 w'] by simp
qed

end

section \<open>One adapter that answers\<close>

text \<open>
  An element all of whose adapters answer like one of them or not at all answers like that one,
  whatever their order.
\<close>

lemma first_value_only:
  assumes "x \<in> set xs" and "\<And>y. y \<in> set xs \<Longrightarrow> f y = None \<or> f y = f x"
  shows "first_value f xs = f x"
proof (cases "first_value f xs")
  case None
  then show ?thesis using assms(1) by (simp add: first_value_None_iff)
next
  case (Some r)
  then show ?thesis using first_value_SomeD [OF Some] assms(2) by force
qed

text \<open>What one adapter answers to \<^verbatim>\<open>get<std::string>(name)\<close>.\<close>

definition adapter_get_string :: "'b bitset_ops \<Rightarrow> string \<Rightarrow> 'b adapter \<Rightarrow> string option" where
  "adapter_get_string B s a =
     (case (case adapter_map s of Some p \<Rightarrow> Some p | None \<Rightarrow> module_map a s) of
        Some p \<Rightarrow> value_to_string B p a | None \<Rightarrow> None)"

lemma get_string_first:
  "get_string B h el s = first_value (\<lambda>a. adapter_get_string B s (h ! a)) (m_adapters el)"
  by (cases "adapter_map s") (auto simp: get_string_def adapter_get_string_def cong: option.case_cong)

text \<open>The adapters of the library add no properties of their own to the global map.\<close>

definition plain :: "'b adapter \<Rightarrow> bool" where
  "plain a \<longleftrightarrow> module_map a = adapter_map"

lemma plain_adapters [simp]:
  "plain (hwloc_adapter B H A n obj)" "plain (nvml_adapter N d)" "plain (rocm_adapter R i)"
  by (simp_all add: plain_def hwloc_adapter_def nvml_adapter_def rocm_adapter_def)

text \<open>An adapter gives way to another one when each of its values is empty or the same.\<close>

definition gives_way :: "'b adapter \<Rightarrow> 'b adapter \<Rightarrow> string \<Rightarrow> bool" where
  "gives_way a b s \<longleftrightarrow> (\<forall>p. adapter_map s = Some p \<longrightarrow>
     vcall a (m_property_fn p) = None \<or> vcall a (m_property_fn p) = vcall b (m_property_fn p))"

lemma gives_way_get:
  assumes "plain a" and "plain b" and "gives_way a b s"
  shows "adapter_get RT s a = None \<or> adapter_get RT s a = adapter_get RT s b"
    and "adapter_get_string B s a = None \<or> adapter_get_string B s a = adapter_get_string B s b"
  using assms
  by (cases "adapter_map s";
      auto simp: adapter_get_def adapter_get_string_def plain_def gives_way_def property_value_def
        value_to_string_def)+

lemma one_answers:
  assumes "q \<in> set (m_adapters el)" and "plain (h ! q)"
    and "\<And>p. p \<in> set (m_adapters el) \<Longrightarrow> plain (h ! p) \<and> gives_way (h ! p) (h ! q) s"
  shows "get h RT el s = adapter_get RT s (h ! q) \<and> get_string B h el s = adapter_get_string B s (h ! q)"
  unfolding get_first get_string_first
  using assms gives_way_get by (intro conjI first_value_only) blast+

end
