(* ===== verification/Gpu_Answers.thy ===== *)
theory Gpu_Answers
  imports Gpu_Build Adapters_For
begin

text \<open>
  What a program reads at the vertex of a GPU. The vertex is shared by the hwloc module and the module
  of the GPU, and hwloc's adapter may stand before that of the device; yet every query but that for
  the cpu affinity is answered as the adapter of the device alone would answer it.
\<close>

section \<open>The adapters at an address\<close>

text \<open>\<open>el\<close> answers every query as \<open>a\<close> does, but for the affinity, which no GPU module offers.\<close>

definition answers_as :: "'b bitset_ops \<Rightarrow> 'b heap \<Rightarrow> graph_element \<Rightarrow> 'b adapter \<Rightarrow> bool" where
  "answers_as B h el a \<longleftrightarrow> (\<forall>RT s. s \<noteq> ''cpu_affinity_mask'' \<longrightarrow>
     get h RT el s = adapter_get RT s a \<and> get_string B h el s = adapter_get_string B s a)"

lemma affinity_name: "adapter_map s = Some p \<Longrightarrow> m_property_fn p = Adapter_cpu_affinity_mask \<Longrightarrow>
    s = ''cpu_affinity_mask''"
  by (auto simp: adapter_map_def adapter_map_entries_def make_property_pair_def split: if_splits)

context hwloc_types
begin

lemma pci_gives_way:
  assumes "hwloc_bdfid A obj = Some b" and "vcall a Adapter_bdfid = Some (U64 b)" and "s \<noteq> ''cpu_affinity_mask''"
  shows "gives_way (hwloc_adapter B H A n obj) a s"
  using assms affinity_name [of s] bdfid_pci [of obj]
  by (auto simp: gives_way_def hwloc_adapter_def hwloc_memory_def)

end

section \<open>The devices of a GPU library\<close>

text \<open>
  The adapters \<open>dev\<close> of \<open>num\<close> devices, each of which reports the address that its vertex is named after.
\<close>

locale gpu_devices =
  fixes num :: nat and addr :: "nat \<Rightarrow> u64 option" and dev :: "nat \<Rightarrow> 'b adapter"
  assumes dev_plain: "plain (dev i)"
    and dev_bdfid: "vcall (dev i) Adapter_bdfid = map_option U64 (addr i)"

text \<open>The adapters that hwloc and the library attach to the vertex of an address.\<close>

definition shared_adapter :: "'b bitset_ops \<Rightarrow> 'h hwloc_bitmap_ops \<Rightarrow> ('o, 'h) hwloc_api \<Rightarrow> nat \<Rightarrow> nat \<Rightarrow>
    (nat \<Rightarrow> u64 option) \<Rightarrow> (nat \<Rightarrow> 'b adapter) \<Rightarrow> string \<Rightarrow> 'b adapter \<Rightarrow> bool" where
  "shared_adapter B H A n num addr dev i a \<longleftrightarrow> (\<forall>b. i = bdfid_identifier b \<longrightarrow>
     (\<exists>obj. hwloc_bdfid A obj = Some b \<and> a = hwloc_adapter B H A n obj) \<or>
     (\<exists>j < num. addr j = Some b \<and> a = dev j))"

definition distinct_addresses :: "nat \<Rightarrow> (nat \<Rightarrow> u64 option) \<Rightarrow> bool" where
  "distinct_addresses num addr \<longleftrightarrow> (\<forall>i < num. \<forall>j < num. addr i = addr j \<longrightarrow> i = j)"

context gpu_devices
begin

lemma device_answers:
  assumes A: "hwloc_types A" and shared: "adapters_for (shared_adapter B H A n num addr dev) G w"
    and distinct: "distinct_addresses num addr" and i: "i < num" "addr i = Some b"
    and at: "gpu_at G w (bdfid_identifier b) v (dev i)"
  shows "answers_as B (objects w) (vat G w v) (dev i)"
proof -
  obtain q where id: "ids w (bdfid_identifier b) = Some v" and q: "q \<in> set (m_adapters (vat G w v))"
    "objects w ! q = dev i"
    using at by (auto simp: gpu_at_def)
  have gives: "plain (objects w ! p) \<and> gives_way (objects w ! p) (objects w ! q) s"
    if p: "p \<in> set (m_adapters (vat G w v))" and s: "s \<noteq> ''cpu_affinity_mask''" for p s
  proof -
    have "(\<exists>obj. hwloc_bdfid A obj = Some b \<and> objects w ! p = hwloc_adapter B H A n obj) \<or>
        (\<exists>j < num. addr j = Some b \<and> objects w ! p = dev j)"
      using adapters_forD [OF shared id p] by (simp add: shared_adapter_def)
    then show ?thesis
    proof
      assume "\<exists>obj. hwloc_bdfid A obj = Some b \<and> objects w ! p = hwloc_adapter B H A n obj"
      then show ?thesis
        using hwloc_types.pci_gives_way [OF A _ _ s] dev_bdfid [of i] i(2) q(2) by force
    next
      assume "\<exists>j < num. addr j = Some b \<and> objects w ! p = dev j"
      then have "objects w ! p = dev i" using distinct i unfolding distinct_addresses_def by metis
      then show ?thesis using dev_plain q(2) by (simp add: gives_way_def)
    qed
  qed
  show ?thesis
    unfolding answers_as_def q(2) [symmetric]
  proof (intro allI impI)
    fix RT s
    assume s: "s \<noteq> ''cpu_affinity_mask''"
    have "plain (objects w ! q)" using dev_plain [of i] q(2) by simp
    then show "get (objects w) RT (vat G w v) s = adapter_get RT s (objects w ! q) \<and>
        get_string B (objects w) (vat G w v) s = adapter_get_string B s (objects w ! q)"
      by (rule one_answers [OF q(1)]) (rule gives [OF _ s])
  qed
qed

end

interpretation nvml_gpus: gpu_devices "DeviceGetCount N" "\<lambda>i. nvml_bdfid N (DeviceGetHandleByIndex N i)"
    "\<lambda>i. nvml_adapter N (DeviceGetHandleByIndex N i) :: 'b adapter"
  for N :: "'d nvml_api"
  by unfold_locales (rule plain_adapters, simp add: nvml_adapter_def)

interpretation rocm_gpus: gpu_devices "rocm_num_devices R L" "dev_pci_id_get R" "rocm_adapter R :: nat \<Rightarrow> 'b adapter"
  for R :: rocm_api and L :: rocm_locals
  by unfold_locales (rule plain_adapters, simp add: rocm_adapter_def rocm_bdfid_def)

section \<open>Builds\<close>

lemma hwloc_shared:
  assumes G: "boost_graph G" and A: "hwloc_types A" and ts: "detected A ts"
    and w: "wf_world G w" "adapters_for (shared_adapter B H A n num addr dev) G w"
    and run: "ModuleHwloc_init_graph B H G A n hostname w = Some (s, w')"
  shows "wf_world G w' \<and> adapters_for (shared_adapter B H A n num addr dev) G w'"
proof
  show "wf_world G w'"
    by (rule module_contract.keeps_wf [OF hwloc_build.init_graph_contract [OF hwloc_buildI [OF G A]] w(1) run])
  show "adapters_for (shared_adapter B H A n num addr dev) G w'"
  proof (rule hwloc_build.hwloc_init_adapters [OF hwloc_buildI [OF G A] w(1) ts w(2) run])
    show "shared_adapter B H A n num addr dev (''machine:'' @ hostname) (hwloc_adapter B H A n (get_root_obj A))"
      by (simp add: shared_adapter_def bdfid_identifier_def)
    show "shared_adapter B H A n num addr dev i (hwloc_adapter B H A n obj)" if "obj_identifier A obj = Some i" for obj i
      using that by (auto simp: shared_adapter_def obj_identifier_def)
  qed
qed

abbreviation nvml_shares :: "'b bitset_ops \<Rightarrow> 'h hwloc_bitmap_ops \<Rightarrow> ('o, 'h) surroundings \<Rightarrow> 'd nvml_api \<Rightarrow>
    string \<Rightarrow> 'b adapter \<Rightarrow> bool" where
  "nvml_shares B H S N \<equiv> shared_adapter B H (sys_hwloc S) (sys_nprocs S) (DeviceGetCount N)
     (\<lambda>i. nvml_bdfid N (DeviceGetHandleByIndex N i)) (\<lambda>i. nvml_adapter N (DeviceGetHandleByIndex N i))"

lemma nvml_shared_build:
  fixes G :: "'g bgl" and B :: "'b bitset_ops"
  assumes "boost_graph G" and "hwloc_types (sys_hwloc S)"
    and "detected (sys_hwloc S) ts" and "distinct (forest_identifiers (sys_hwloc S) ts)"
    and "\<forall>i < DeviceGetCount N. \<exists>obj \<in> set (forest_objects ts).
      hwloc_bdfid (sys_hwloc S) obj \<noteq> None \<and>
      hwloc_bdfid (sys_hwloc S) obj = nvml_bdfid N (DeviceGetHandleByIndex N i)"
  obtains w w' :: "('g, 'b) world" where
    "ModuleHwloc_init_graph B H G (sys_hwloc S) (sys_nprocs S) (sys_hostname S) (root_graph G) =
      Some (YLOC_STATUS_SUCCESS, w)"
    and "ModuleNvml_init_graph N G w = Some (YLOC_STATUS_SUCCESS, w')" and "wf_world G w" and "wf_world G w'"
    and "\<forall>i < DeviceGetCount N. \<exists>v. nvml_at N G w' i v"
    and "adapters_for (nvml_shares B H S N) G w'"
proof -
  obtain w w' where hwloc: "ModuleHwloc_init_graph B H G (sys_hwloc S) (sys_nprocs S) (sys_hostname S)
      (root_graph G) = Some (YLOC_STATUS_SUCCESS, w)"
    and nvml: "ModuleNvml_init_graph N G w = Some (YLOC_STATUS_SUCCESS, w')" and wf': "wf_world G w'"
    and at: "\<forall>i < DeviceGetCount N. \<exists>v. nvml_at N G w' i v \<and>
      (m_root_vertex (topology w'), v) \<in> (child_rel G (topology w'))\<^sup>+"
    by (rule nvml_after_hwloc [OF assms])
  have w: "wf_world G w \<and> adapters_for (nvml_shares B H S N) G w"
    by (rule hwloc_shared [OF assms(1-3) boost_graph.wf_root_graph [OF assms(1)]
          boost_graph.adapters_for_root_graph [OF assms(1)] hwloc])
  have "adapters_for (nvml_shares B H S N) G w'"
    by (rule boost_graph.nvml_init_adapters [OF assms(1) conjunct1 [OF w] conjunct2 [OF w] nvml])
      (auto simp: shared_adapter_def)
  then show thesis using that [OF hwloc nvml conjunct1 [OF w] wf'] at by blast
qed

lemma rocm_shared:
  assumes G: "boost_graph G"
    and w: "wf_world G w" "adapters_for (shared_adapter B H A n (rocm_num_devices R L) (dev_pci_id_get R) (rocm_adapter R)) G w"
    and run: "ModuleRocm_init_graph R L G w = Some (s, w')"
    and known: "\<forall>i < rocm_num_devices R L. dev_pci_id_get R i \<noteq> None"
  shows "wf_world G w' \<and> adapters_for (shared_adapter B H A n (rocm_num_devices R L) (dev_pci_id_get R) (rocm_adapter R)) G w'"
proof
  show "wf_world G w'" by (rule module_contract.keeps_wf [OF boost_graph.rocm_keeps [OF G] w(1) run])
  show "adapters_for (shared_adapter B H A n (rocm_num_devices R L) (dev_pci_id_get R) (rocm_adapter R)) G w'"
  proof (rule boost_graph.rocm_init_adapters [OF G w run])
    fix i
    assume i: "i < rocm_num_devices R L"
    then obtain a where "dev_pci_id_get R i = Some a" using known by blast
    then show "\<exists>a. dev_pci_id_get R i = Some a \<and> shared_adapter B H A n (rocm_num_devices R L)
        (dev_pci_id_get R) (rocm_adapter R) (bdfid_identifier a) (rocm_adapter R i)"
      using i by (auto simp: shared_adapter_def)
  qed
qed

section \<open>Properties\<close>

text \<open>
  C10. After hwloc and NVML, on a machine that hwloc detects, without two PCI devices at one address, when every device of NVML has the address of an object of hwloc and no two have the
  same, what a program reads at the vertex of a device is what NVML reports of it: every typed query and every printed property, but for the cpu affinity, is answered as the device's NVML
  adapter alone would, although hwloc's adapter of the same PCI device stands before it and is asked
  first. (Two devices of one address would share a vertex and the first would answer for both.)
\<close>

theorem nvml_answers:
  fixes G :: "'g bgl" and B :: "'b bitset_ops"
  assumes "boost_graph G" and "hwloc_types (sys_hwloc S)"
    and "detected (sys_hwloc S) ts" and "distinct (forest_identifiers (sys_hwloc S) ts)"
    and "\<forall>i < DeviceGetCount N. \<exists>obj \<in> set (forest_objects ts).
      hwloc_bdfid (sys_hwloc S) obj \<noteq> None \<and>
      hwloc_bdfid (sys_hwloc S) obj = nvml_bdfid N (DeviceGetHandleByIndex N i)"
    and "distinct_addresses (DeviceGetCount N) (\<lambda>i. nvml_bdfid N (DeviceGetHandleByIndex N i))"
  shows "\<exists>w. run_modules [hwloc_module B H G S, nvml_module G N] (root_graph G) = Some w \<and>
    (\<forall>i < DeviceGetCount N. \<exists>v. nvml_at N G w i v \<and>
      answers_as B (objects w) (vat G w v) (nvml_adapter N (DeviceGetHandleByIndex N i)))"
proof -
  obtain w1 w' where runs: "ModuleHwloc_init_graph B H G (sys_hwloc S) (sys_nprocs S) (sys_hostname S)
      (root_graph G) = Some (YLOC_STATUS_SUCCESS, w1)"
      "ModuleNvml_init_graph N G w1 = Some (YLOC_STATUS_SUCCESS, w')"
    and at: "\<forall>i < DeviceGetCount N. \<exists>v. nvml_at N G w' i v"
    and shared: "adapters_for (nvml_shares B H S N) G w'"
    by (rule nvml_shared_build [OF assms(1-5)])
  have "run_modules [hwloc_module B H G S, nvml_module G N] (root_graph G) = Some w'"
    using runs by (simp add: hwloc_module_def nvml_module_def default_module_def)
  moreover have "\<exists>v. nvml_at N G w' i v \<and>
      answers_as B (objects w') (vat G w' v) (nvml_adapter N (DeviceGetHandleByIndex N i))"
    if i: "i < DeviceGetCount N" for i
  proof -
    obtain v b where "nvml_at N G w' i v" "nvml_bdfid N (DeviceGetHandleByIndex N i) = Some b"
      "gpu_at G w' (bdfid_identifier b) v (nvml_adapter N (DeviceGetHandleByIndex N i))"
      using at i by (auto simp: nvml_at_def)
    then show ?thesis using nvml_gpus.device_answers [OF assms(2) shared assms(6) i] by blast
  qed
  ultimately show ?thesis by blast
qed

theorem nvml_answers_witness:
  "\<exists>w v. run_modules [hwloc_module bool_list_ops index_list_ops adjlist_ops sample_system,
      nvml_module adjlist_ops sample_one_gpu] (root_graph adjlist_ops) = Some w \<and>
    get_string bool_list_ops (objects w) (vat adjlist_ops w v) ''memory'' = Some (decimal 1000)"
proof -
  have sys: "sys_hwloc sample_system = sample_api" "DeviceGetCount sample_one_gpu = 1"
    by (simp_all add: sample_system_def sample_one_gpu_def)
  have dev: "\<forall>i < DeviceGetCount sample_one_gpu. \<exists>obj \<in> set (forest_objects sample_tree).
      hwloc_bdfid (sys_hwloc sample_system) obj \<noteq> None \<and>
      hwloc_bdfid (sys_hwloc sample_system) obj =
        nvml_bdfid sample_one_gpu (DeviceGetHandleByIndex sample_one_gpu i)"
    using sample_gpu_address unfolding sys by (auto simp: sample_tree_def intro!: bexI [of _ 3])
  have "distinct_addresses (DeviceGetCount sample_one_gpu)
      (\<lambda>i. nvml_bdfid sample_one_gpu (DeviceGetHandleByIndex sample_one_gpu i))"
    by (simp add: distinct_addresses_def sys)
  then obtain w v where run: "run_modules [hwloc_module bool_list_ops index_list_ops adjlist_ops sample_system,
      nvml_module adjlist_ops sample_one_gpu] (root_graph adjlist_ops) = Some w"
    and "answers_as bool_list_ops (objects w) (vat adjlist_ops w v)
      (nvml_adapter sample_one_gpu (DeviceGetHandleByIndex sample_one_gpu 0))"
    using nvml_answers [OF boost_graph_adjlist _ _ _ dev, of bool_list_ops index_list_ops]
      hwloc_types_sample sample_detected sample_distinct unfolding sys by auto
  then have "get_string bool_list_ops (objects w) (vat adjlist_ops w v) ''memory'' = adapter_get_string bool_list_ops
      ''memory'' (nvml_adapter sample_one_gpu (DeviceGetHandleByIndex sample_one_gpu 0))"
    by (simp add: answers_as_def)
  also have "\<dots> = Some (decimal 1000)"
    by (simp add: adapter_get_string_def make_property_pair_def value_to_string_eq property_value_def
        nvml_adapter_def nvml_memory_def sample_one_gpu_def sample_nvml_def)
  finally show ?thesis using run by blast
qed

text \<open>
  C11. After hwloc and ROCm, in whichever order \<^verbatim>\<open>init()\<close> ran them, on a machine that hwloc detects, without two
  PCI devices at one address: when ROCm-SMI returns a bus address for every
  device and no two devices have the same, every query but that for the cpu affinity is answered at a
  device's vertex as its ROCm adapter alone would answer it, whether or not hwloc knows the device. (ROCm-SMI is
  taken to give indices within its arrays, of bandwidths and of frequencies: then no query reads
  outside of them.) Devices that share an address share a vertex, where only the first answers.
\<close>

theorem rocm_answers:
  fixes G :: "'g bgl" and B :: "'b bitset_ops"
  assumes "std_sort srt" and "boost_graph G" and "hwloc_types (sys_hwloc S)"
    and "detected (sys_hwloc S) ts" and "distinct (forest_identifiers (sys_hwloc S) ts)"
    and "bandwidths_in_bounds R L" and "clocks_in_bounds R"
    and "mset modules = {#hwloc_module B H G S, rocm_module G R L#}"
    and "\<forall>i < rocm_num_devices R L. dev_pci_id_get R i \<noteq> None"
    and "distinct_addresses (rocm_num_devices R L) (dev_pci_id_get R)"
  shows "\<exists>w. init srt modules (root_graph G) = Some (YLOC_STATUS_SUCCESS, w) \<and>
    (\<forall>i < rocm_num_devices R L. rocm_memory_frequency R i \<noteq> None \<and> rocm_frequency R i \<noteq> None \<and>
      (\<exists>b v. dev_pci_id_get R i = Some b \<and> gpu_at G w (bdfid_identifier b) v (rocm_adapter R i) \<and>
        answers_as B (objects w) (vat G w v) (rocm_adapter R i)))"
proof -
  let ?shared = "shared_adapter B H (sys_hwloc S) (sys_nprocs S) (rocm_num_devices R L) (dev_pci_id_get R)
    (rocm_adapter R :: nat \<Rightarrow> 'b adapter)"
  note empty = boost_graph.wf_root_graph [OF assms(2)] boost_graph.adapters_for_root_graph [OF assms(2), of ?shared]
  note hwloc = hwloc_shared [OF assms(2-4)] and rocm = rocm_shared [OF assms(2) _ _ _ assms(9)]
  obtain w1 w2 where one: "ModuleHwloc_init_graph B H G (sys_hwloc S) (sys_nprocs S) (sys_hostname S) (root_graph G) =
      Some (YLOC_STATUS_SUCCESS, w1)" "ModuleRocm_init_graph R L G w1 = Some (YLOC_STATUS_SUCCESS, w2)"
    "wf_world G w2" "rocm_placed R L (sys_hwloc S) ts G w2"
    by (rule rocm_after_hwloc [OF assms(2-6)])
  have s2: "adapters_for ?shared G w2" using hwloc [OF empty one(1)] rocm [OF _ _ one(2)] by blast
  obtain w3 w4 where two: "ModuleRocm_init_graph R L G (root_graph G) = Some (YLOC_STATUS_SUCCESS, w3)"
    "ModuleHwloc_init_graph B H G (sys_hwloc S) (sys_nprocs S) (sys_hostname S) w3 = Some (YLOC_STATUS_SUCCESS, w4)"
    "wf_world G w4" "rocm_placed R L (sys_hwloc S) ts G w4"
    by (rule hwloc_after_rocm [OF assms(2-4,6)])
  have s4: "adapters_for ?shared G w4" using rocm [OF empty two(1)] hwloc [OF _ _ two(2)] by blast
  have runs: "run_modules [hwloc_module B H G S, rocm_module G R L] (root_graph G) = Some w2"
    "run_modules [rocm_module G R L, hwloc_module B H G S] (root_graph G) = Some w4"
    using one two by (simp_all add: hwloc_module_def rocm_module_def default_module_def)
  have answers: "\<exists>b v. dev_pci_id_get R i = Some b \<and> gpu_at G w (bdfid_identifier b) v (rocm_adapter R i) \<and>
      answers_as B (objects w) (vat G w v) (rocm_adapter R i)"
    if placed: "rocm_placed R L (sys_hwloc S) ts G w" and shared: "adapters_for ?shared G w"
      and i: "i < rocm_num_devices R L" for i and w :: "('g, 'b) world"
  proof -
    obtain b where b: "dev_pci_id_get R i = Some b" using assms(9) i by blast
    then obtain v where "gpu_at G w (bdfid_identifier b) v (rocm_adapter R i)"
      using placed i unfolding rocm_placed_def by blast
    with b show ?thesis using rocm_gpus.device_answers [OF assms(3) shared assms(10) i] by blast
  qed
  obtain w where "init srt modules (root_graph G) = Some (YLOC_STATUS_SUCCESS, w)"
    "rocm_placed R L (sys_hwloc S) ts G w" "adapters_for ?shared G w"
    using init_two_modules [OF assms(1,8), of "root_graph G"] runs one(4) s2 two(4) s4
    by (elim disjE conjE) (simp_all del: run_modules.simps)
  with answers clocks_read [OF assms(7)] show ?thesis by blast
qed

theorem rocm_answers_witness:
  "\<exists>w v. init insertion_sort [rocm_module adjlist_ops (sample_rocm\<lparr>num_monitor_devices := Some 1\<rparr>) sample_locals,
      hwloc_module bool_list_ops index_list_ops adjlist_ops sample_system] (root_graph adjlist_ops) =
    Some (YLOC_STATUS_SUCCESS, w) \<and>
    get_string bool_list_ops (objects w) (vat adjlist_ops w v) ''memory'' = Some (decimal 1000)"
proof -
  let ?R = "sample_rocm\<lparr>num_monitor_devices := Some 1\<rparr>"
  let ?modules = "[rocm_module adjlist_ops ?R sample_locals, hwloc_module bool_list_ops index_list_ops adjlist_ops sample_system]"
  have sys: "sys_hwloc sample_system = sample_api" by (simp add: sample_system_def)
  have n: "rocm_num_devices ?R sample_locals = 1" by (simp add: rocm_num_devices_def)
  have clocks: "clocks_in_bounds ?R" by (simp add: clocks_in_bounds_def sample_rocm_def)
  have known: "\<forall>i < rocm_num_devices ?R sample_locals. dev_pci_id_get ?R i \<noteq> None"
    unfolding n by (simp add: sample_rocm_def)
  have modules: "mset ?modules = {#hwloc_module bool_list_ops index_list_ops adjlist_ops sample_system,
      rocm_module adjlist_ops ?R sample_locals#}" by simp
  have "distinct_addresses (rocm_num_devices ?R sample_locals) (dev_pci_id_get ?R)" by (simp add: distinct_addresses_def n)
  from rocm_answers [OF std_sort_insertion_sort boost_graph_adjlist _ _ _ sample_rocm_bounds clocks modules known this,
      of sample_tree] hwloc_types_sample sample_detected sample_distinct
  obtain w v where w: "init insertion_sort ?modules (root_graph adjlist_ops) = Some (YLOC_STATUS_SUCCESS, w)"
    and "answers_as bool_list_ops (objects w) (vat adjlist_ops w v) (rocm_adapter ?R 0)"
    unfolding sys n by (auto simp del: insertion_sort.simps)
  then have "get_string bool_list_ops (objects w) (vat adjlist_ops w v) ''memory'' = adapter_get_string bool_list_ops
      ''memory'' (rocm_adapter ?R 0)"
    by (simp add: answers_as_def)
  also have "\<dots> = Some (decimal 1000)"
    by (simp add: adapter_get_string_def make_property_pair_def value_to_string_eq property_value_def
        rocm_adapter_def rocm_memory_def sample_rocm_def)
  finally show ?thesis using w by blast
qed

end
