(* ===== verification/Gpu_Monitor.thy ===== *)
theory Gpu_Monitor
  imports Examples Gpu_Answers "HOL-Library.Stream"
begin

text \<open>
  The program \<^verbatim>\<open>src/example/example-gpu.cc\<close>: after \<^verbatim>\<open>init()\<close> it prints, once a second and for ever, what the
  library reports of every GPU. Its output is a stream of rounds.
\<close>

section \<open>The program\<close>

definition gpu_properties :: "string list" where
  "gpu_properties = [''memory'', ''memory_usage'', ''memory_load'', ''memory_frequency'', ''bdfid'',
     ''numa_affinity'', ''temperature'', ''frequency'', ''load'', ''power'']"

definition gpu_banner :: "nat \<Rightarrow> vertex_t \<Rightarrow> string" where
  "gpu_banner gpu vd = ''=========================='' @ newline @ ''GPU'' @ decimal gpu @ '' [vd='' @ decimal vd @
     '']'' @ newline @ ''=========================='' @ newline"

text \<open>The loop over the vertices of the view, with the counter \<open>gpu\<close>.\<close>

fun gpu_blocks :: "'b bitset_ops \<Rightarrow> 'b heap \<Rightarrow> 'g bgl \<Rightarrow> 'g yloc_graph \<Rightarrow> nat \<Rightarrow> vertex_t list \<Rightarrow> string" where
  "gpu_blocks B h G g gpu [] = []"
| "gpu_blocks B h G g gpu (vd # vds) =
     gpu_banner gpu vd @ concat (map (print_property B h (vertex_at G g vd)) gpu_properties) @
     gpu_blocks B h G g (Suc gpu) vds"

definition gpu_round :: "'b bitset_ops \<Rightarrow> 'g bgl \<Rightarrow> 'g yloc_graph \<Rightarrow> 'b heap \<Rightarrow> string" where
  "gpu_round B G g h = gpu_blocks B h G g 0 (vertices_of_type G g GPU)"

text \<open>The endless loop; \<open>heap t\<close> holds what the adapters answer in round \<open>t\<close>.\<close>

primcorec gpu_rounds :: "'b bitset_ops \<Rightarrow> 'g bgl \<Rightarrow> 'g yloc_graph \<Rightarrow> (nat \<Rightarrow> 'b heap) \<Rightarrow> nat \<Rightarrow> string stream" where
  "gpu_rounds B G g heap t = gpu_round B G g (heap t) ## gpu_rounds B G g heap (Suc t)"

text \<open>
  \<^verbatim>\<open>main\<close>: \<open>reading t\<close> gives, for an adapter as it was made, what it answers in round \<open>t\<close>, as the values
  that the libraries report change over time.
\<close>

definition example_gpu :: "('g, 'b) module_sorter \<Rightarrow> ('g, 'b) module list \<Rightarrow> 'b bitset_ops \<Rightarrow> 'g bgl \<Rightarrow>
    (nat \<Rightarrow> 'b adapter \<Rightarrow> 'b adapter) \<Rightarrow> string stream option" where
  "example_gpu srt modules B G reading =
     map_option (\<lambda>(status, w). gpu_rounds B G (topology w) (\<lambda>t. map (reading t) (objects w)) 0)
       (init srt modules (root_graph G))"

section \<open>What a round prints\<close>

text \<open>The block of a device that answers like adapter \<open>a\<close>.\<close>

definition device_block :: "'b bitset_ops \<Rightarrow> nat \<Rightarrow> vertex_t \<Rightarrow> 'b adapter \<Rightarrow> string" where
  "device_block B gpu vd a = gpu_banner gpu vd @ concat (map (\<lambda>s. s @ ''='' @
     (case adapter_get_string B s a of Some p \<Rightarrow> p @ newline | None \<Rightarrow> ''has no value'' @ newline)) gpu_properties)"

lemma gpu_rounds_nth: "gpu_rounds B G g heap t !! k = gpu_round B G g (heap (t + k))"
  by (induction k arbitrary: t) simp_all

lemma answers_block:
  assumes "answers_as B h (vertex_at G g vd) a"
  shows "gpu_banner gpu vd @ concat (map (print_property B h (vertex_at G g vd)) gpu_properties) =
    device_block B gpu vd a"
proof -
  have "''cpu_affinity_mask'' \<notin> set gpu_properties" by (simp add: gpu_properties_def)
  then have "print_property B h (vertex_at G g vd) s = s @ ''='' @
      (case adapter_get_string B s a of Some p \<Rightarrow> p @ newline | None \<Rightarrow> ''has no value'' @ newline)"
    if "s \<in> set gpu_properties" for s
    using assms that unfolding answers_as_def print_property_def by metis
  then show ?thesis by (simp add: device_block_def cong: map_cong)
qed

lemma gpu_blocks_devices:
  assumes "\<And>v. v \<in> set vs \<Longrightarrow> answers_as B h (vertex_at G g v) (a v)"
  shows "gpu_blocks B h G g gpu vs = concat (map (\<lambda>k. device_block B (gpu + k) (vs ! k) (a (vs ! k))) [0..<length vs])"
  using assms
proof (induction vs arbitrary: gpu)
  case Nil
  then show ?case by simp
next
  case (Cons v vs)
  have "gpu_blocks B h G g gpu (v # vs) = device_block B gpu v (a v) @ gpu_blocks B h G g (Suc gpu) vs"
    using answers_block [OF Cons.prems [of v], of gpu] by simp
  also have "gpu_blocks B h G g (Suc gpu) vs =
      concat (map (\<lambda>k. device_block B (Suc gpu + k) (vs ! k) (a (vs ! k))) [0..<length vs])"
    by (rule Cons.IH) (simp add: Cons.prems)
  finally show ?case by (simp add: map_upt_Suc del: upt_Suc)
qed

section \<open>The GPUs of a build\<close>

definition no_gpu :: "'g bgl \<Rightarrow> ('g, 'b) world \<Rightarrow> bool" where
  "no_gpu G w \<longleftrightarrow> (\<forall>v < nv G w. \<not> is_a (m_type (vat G w v)) GPU)"

context hwloc_build
begin

lemma type_no_gpu: "hwloc_2_yloc_type A obj = Some t \<Longrightarrow> \<not> is_a t GPU"
  unfolding type_table
  by (cases "obj_type A obj"; cases "obj_osdev_type A obj"; cases "the (obj_osdev_type A obj)")
    (auto simp: is_a_eval)

lemma build_forest_no_gpu:
  assumes "wf_world G w" and "vd < nv G w" and "\<forall>obj \<in> set (forest_objects ts). knows_type A obj"
    and "no_gpu G w" and "build_forest B H G A n vd ts w = Some w'"
  shows "no_gpu G w'"
  using assms
proof (induction ts arbitrary: vd w w' rule: forest_objects.induct)
  case 1
  then show ?case by simp
next
  case (2 obj cs ts)
  have known: "knows_type A obj" using "2.prems"(3) by simp
  obtain t where t: "hwloc_2_yloc_type A obj = Some t" using type_known known by blast
  obtain v w1 where add: "add_hwloc_child B H G A n vd obj w = Some (v, w1)"
    and wf1: "wf_world G w1" and v: "v < nv G w1" "vd < nv G w1"
    by (rule add_hwloc_child_spec [OF "2.prems"(1,2) known, of B H n]) (rule that)
  have "\<not> is_a UnknownComponentType GPU" by (simp add: is_a_eval)
  then have one: "no_gpu G w1"
    using add_hwloc_child_at(1) [OF "2.prems"(1,2) t add] "2.prems"(4) type_no_gpu [OF t]
    by (auto simp: no_gpu_def Let_def)
  have cs: "\<forall>obj \<in> set (forest_objects cs). knows_type A obj"
    and ts: "\<forall>obj \<in> set (forest_objects ts). knows_type A obj" using "2.prems"(3) by auto
  from build_forest_spec [OF wf1 v(1) cs, of B H n] obtain w2 where
    w2: "build_forest B H G A n v cs w1 = Some w2" and wf2: "wf_world G w2" and ext2: "extends G w1 w2"
    by auto
  have "vd < nv G w2" using v(2) extendsD(1) [OF ext2] by simp
  moreover have "build_forest B H G A n vd ts w2 = Some w'" using "2.prems"(5) add w2 by simp
  ultimately show ?case
    using "2.IH"(2) [OF wf2 _ ts "2.IH"(1) [OF wf1 v(1) cs one w2]] by blast
qed

lemma hwloc_no_gpu:
  assumes ts: "detected A ts"
    and run: "ModuleHwloc_init_graph B H G A n hostname (root_graph G) = Some (s, w')"
  shows "no_gpu G w'"
proof -
  obtain v w1 w2 where pair: "root_vertex_hwloc B H G A n hostname (root_graph G) = (v, w1)"
    and w2: "w2 = (if m_type (vat G w1 v) = UnknownComponentType then set_type G v Node w1 else w1)"
    and forest: "build_forest B H G A n v ts w2 = Some w'"
    by (rule hwloc_init_split [OF ts run])
  note root = root_vertex_simps [OF wf_root_graph, where B = B and H = H and n = n and hostname = hostname,
      unfolded pair snd_conv]
  have n: "nv G w1 = 1" using root(12) by (simp add: step_simps new_graph_simps)
  have "w1 = attach G v 0 (snd (make_shared (hwloc_adapter B H A n (get_root_obj A))
      (set_root v (set_description G v hostname (snd (vertex_named G (''machine:'' @ hostname) (root_graph G)))))))"
    using pair by (auto simp: root_vertex_hwloc_def make_shared_def split_def Let_def step_simps
        set_root_def set_description_def on_vertex_def)
  moreover have v: "v < nv G w1" using root(1,2) by simp
  ultimately have "w1 = attach G 0 0 (snd (make_shared (hwloc_adapter B H A n (get_root_obj A))
      (set_root 0 (set_description G 0 hostname (snd (vertex_named G (''machine:'' @ hostname) (root_graph G)))))))"
    and "v = 0" using n by simp_all
  then have "m_type (vat G w1 v) = UnknownComponentType"
    by (simp add: graph_simps add_vertex_new)
  then have "no_gpu G w2" using n v by (simp add: no_gpu_def w2 graph_simps is_a_eval)
  moreover have "wf_world G w2" "v < nv G w2" using root(3) v by (auto simp: w2 graph_simps intro!: wf_set_type)
  ultimately show ?thesis
    using build_forest_no_gpu [OF _ _ _ _ forest] ts by (simp add: detected_def)
qed

end

context boost_graph
begin

lemma nvml_devices_gpus:
  assumes "wf_world G w" and "nvml_devices N G is vertices w = Some (vertices', w')" and "u < nv G w"
    and "is_a (m_type (vat G w' u)) GPU"
  shows "is_a (m_type (vat G w u)) GPU \<or> u \<in> set vertices'"
  using assms
proof (induction "is" arbitrary: vertices w)
  case Nil
  then show ?case by simp
next
  case (Cons i "is")
  obtain v w1 where step: "nvml_device N G i w = Some (v, w1)"
    and rest: "nvml_devices N G is (vertices @ [v]) w1 = Some (vertices', w')"
    using Cons.prems(2) by (auto simp: bind_eq_Some_conv)
  have "nvml_known N G w i" using step by (simp add: nvml_device_eq [OF Cons.prems(1)] split: if_splits)
  then obtain b where id: "ids w (bdfid_identifier b) = Some v"
    and w1: "w1 = mark_gpu G (nvml_adapter N (DeviceGetHandleByIndex N i)) v w"
    using step by (auto simp: nvml_known_def nvml_device_eq [OF Cons.prems(1)] Let_def)
  note one = mark_gpu_spec [OF Cons.prems(1) named_less [OF Cons.prems(1) id] nvml_adapter_typed
      [of N "DeviceGetHandleByIndex N i"], folded w1]
  have "\<exists>new. vertices' = (vertices @ [v]) @ new"
    using nvml_devices_spec [OF one(1), of "is" N "vertices @ [v]"] rest by (auto split: if_splits)
  then show ?case
    using Cons.IH [OF one(1) rest _ Cons.prems(4)] Cons.prems(3) one(4) one(6) [OF Cons.prems(3)]
    by (auto split: if_splits)
qed

lemma nvml_init_gpus:
  assumes wf: "wf_world G w" and no: "no_gpu G w" and run: "ModuleNvml_init_graph N G w = Some (s, w')"
    and u: "u < nv G w'" "is_a (m_type (vat G w' u)) GPU"
  shows "\<exists>i < DeviceGetCount N. nvml_at N G w' i u"
proof -
  have "\<forall>i < DeviceGetCount N. nvml_known N G w i"
    using nvml_init_spec [OF wf, of N] run by (auto split: if_splits)
  then obtain vertices w1 where loop: "nvml_devices N G [0..<DeviceGetCount N] [] w = Some (vertices, w1)"
    and at: "list_all2 (nvml_at N G w') [0..<DeviceGetCount N] vertices"
    and same: "nv G w' = nv G w" "\<forall>v. vat G w' v = vat G w1 v"
    using nvml_init_spec [OF wf, of N] run by auto
  have "is_a (m_type (vat G w1 u)) GPU" "u < nv G w" using u same by simp_all
  then have "u \<in> set vertices"
    using nvml_devices_gpus [OF wf loop, of u] no unfolding no_gpu_def by blast
  then show ?thesis using at by (auto simp: list_all2_conv_all_nth in_set_conv_nth)
qed

end

section \<open>The devices over time\<close>

text \<open>\<open>M\<close> reports the same devices at the same addresses as \<open>N\<close>, with values of its own.\<close>

definition same_devices :: "'d nvml_api \<Rightarrow> 'd nvml_api \<Rightarrow> bool" where
  "same_devices N M \<longleftrightarrow> DeviceGetCount M = DeviceGetCount N \<and> (\<forall>i < DeviceGetCount N.
     nvml_bdfid M (DeviceGetHandleByIndex M i) = nvml_bdfid N (DeviceGetHandleByIndex N i))"

text \<open>
  What an adapter answers at another time: hwloc's tables do not change, an NVML adapter answers as the
  device does then.
\<close>

definition reads :: "'b bitset_ops \<Rightarrow> 'h hwloc_bitmap_ops \<Rightarrow> ('o, 'h) surroundings \<Rightarrow> 'd nvml_api \<Rightarrow>
    'd nvml_api \<Rightarrow> ('b adapter \<Rightarrow> 'b adapter) \<Rightarrow> bool" where
  "reads B H S N M f \<longleftrightarrow> same_devices N M \<and>
     (\<forall>obj. f (hwloc_adapter B H (sys_hwloc S) (sys_nprocs S) obj) =
        hwloc_adapter B H (sys_hwloc S) (sys_nprocs S) obj) \<and>
     (\<forall>i < DeviceGetCount N. f (nvml_adapter N (DeviceGetHandleByIndex N i)) =
        nvml_adapter M (DeviceGetHandleByIndex M i))"

lemma answers_then:
  fixes w :: "('g, 'b) world"
  assumes A: "hwloc_types (sys_hwloc S)" and wf: "wf_world G w" and shared: "adapters_for (nvml_shares B H S N) G w"
    and distinct: "distinct_addresses (DeviceGetCount N) (\<lambda>i. nvml_bdfid N (DeviceGetHandleByIndex N i))"
    and reads: "reads B H S N M f" and i: "i < DeviceGetCount N" and at: "nvml_at N G w i v"
  shows "answers_as B (map f (objects w)) (vat G w v) (nvml_adapter M (DeviceGetHandleByIndex M i))"
proof -
  have wfg: "wf_graph G (topology w)" using wf by (simp add: wf_world_def)
  define w' where "w' = w\<lparr>objects := map f (objects w)\<rparr>"
  have topology: "topology w' = topology w" and objects: "objects w' = map f (objects w)"
    by (simp_all add: w'_def)
  have same: "DeviceGetCount M = DeviceGetCount N"
    "nvml_bdfid M (DeviceGetHandleByIndex M j) = nvml_bdfid N (DeviceGetHandleByIndex N j)" if "j < DeviceGetCount N" for j
    using reads that by (simp_all add: reads_def same_devices_def)
  note count = same(1) [OF i]
  obtain b where b: "nvml_bdfid N (DeviceGetHandleByIndex N i) = Some b"
    and gpu: "gpu_at G w (bdfid_identifier b) v (nvml_adapter N (DeviceGetHandleByIndex N i))"
    using at by (auto simp: nvml_at_def)
  have valid: "p < length (objects w)" if "ids w j = Some u" "p \<in> set (m_adapters (vat G w u))" for j u p
    using wf wf_graphD(1) [OF wfg that(1)] that(2)
    by (auto simp: wf_world_def adapters_valid_def dest!: vertex_okD)
  have "adapters_for (nvml_shares B H S M) G w'"
    unfolding adapters_for_def topology objects
  proof (intro allI impI ballI)
    fix j u p
    assume id: "ids w j = Some u" and p: "p \<in> set (m_adapters (vat G w u))"
    from adapters_forD [OF shared id p] reads same
    show "nvml_shares B H S M j (map f (objects w) ! p)"
      unfolding shared_adapter_def nth_map [OF valid [OF id p]] reads_def count by metis
  qed
  moreover have "distinct_addresses (DeviceGetCount M) (\<lambda>i. nvml_bdfid M (DeviceGetHandleByIndex M i))"
    using distinct same(2) by (simp add: distinct_addresses_def count)
  moreover have "gpu_at G w' (bdfid_identifier b) v (nvml_adapter M (DeviceGetHandleByIndex M i))"
    using gpu reads i by (auto simp: gpu_at_def topology objects reads_def)
  ultimately have "answers_as B (objects w') (vat G w' v) (nvml_adapter M (DeviceGetHandleByIndex M i))"
    using nvml_gpus.device_answers [OF A, of B H "sys_nprocs S" M G w' i b v] i b same(2) [OF i] count by simp
  then show ?thesis by (simp add: topology objects)
qed

text \<open>The view holds one vertex per device.\<close>

lemma gpus_are_devices:
  fixes w :: "('g, 'b) world"
  assumes G: "boost_graph G" and wf: "wf_world G w"
    and distinct: "distinct_addresses (DeviceGetCount N) (\<lambda>i. nvml_bdfid N (DeviceGetHandleByIndex N i))"
    and at: "\<forall>i < DeviceGetCount N. \<exists>v. nvml_at N G w i v"
    and gpus: "\<And>u. u < nv G w \<Longrightarrow> is_a (m_type (vat G w u)) GPU \<Longrightarrow> \<exists>i < DeviceGetCount N. nvml_at N G w i u"
  obtains dev where "\<forall>v \<in> set (vertices_of_type G (topology w) GPU). nvml_at N G w (dev v) v"
    and "mset (map dev (vertices_of_type G (topology w) GPU)) = mset [0..<DeviceGetCount N]"
proof -
  let ?V = "vertices_of_type G (topology w) GPU"
  have wfg: "wf_graph G (topology w)" using wf by (simp add: wf_world_def)
  have V: "v \<in> set ?V \<longleftrightarrow> v < nv G w \<and> is_a (m_type (vat G w v)) GPU" for v
    by (rule vertices_of_type_iff [OF G])
  obtain dev where dev: "\<forall>v \<in> set ?V. dev v < DeviceGetCount N \<and> nvml_at N G w (dev v) v"
    using gpus V by (metis (no_types))
  have one: "u = v" if "nvml_at N G w i u" "nvml_at N G w i v" for i u v
    using that by (auto simp: nvml_at_def gpu_at_def)
  have other: "i = j" if ij: "i < DeviceGetCount N" "j < DeviceGetCount N"
    and ats: "nvml_at N G w i v" "nvml_at N G w j v" for i j v
  proof -
    obtain b c where bc: "nvml_bdfid N (DeviceGetHandleByIndex N i) = Some b"
      "nvml_bdfid N (DeviceGetHandleByIndex N j) = Some c"
      "ids w (bdfid_identifier b) = Some v" "ids w (bdfid_identifier c) = Some v"
      using ats by (auto simp: nvml_at_def gpu_at_def)
    then have "b = c" using wf_graphD(2) [OF wfg bc(3,4)] by simp
    then show ?thesis using distinct ij bc(1,2) by (simp add: distinct_addresses_def)
  qed
  have "inj_on dev (set ?V)" using dev one by (metis inj_onI)
  moreover have "distinct ?V" by (simp add: vertices_of_type_def boost_graph.filtered_vertices [OF G])
  ultimately have "distinct (map dev ?V)" by (simp add: distinct_map)
  moreover have "set (map dev ?V) = set [0..<DeviceGetCount N]"
  proof (intro equalityI subsetI)
    fix i
    assume "i \<in> set [0..<DeviceGetCount N]"
    then obtain v where i: "i < DeviceGetCount N" and v: "nvml_at N G w i v" using at by auto
    then have "v \<in> set ?V" unfolding V by (auto simp: nvml_at_def gpu_at_def is_a_eval)
    moreover from this have "dev v = i" using other dev i v by blast
    ultimately show "i \<in> set (map dev ?V)" by auto
  qed (use dev in auto)
  ultimately have "mset (map dev ?V) = mset [0..<DeviceGetCount N]"
    by (metis distinct_upt set_eq_iff_mset_eq_distinct)
  then show thesis using that dev by blast
qed

section \<open>Properties\<close>

text \<open>
  C12. The GPU monitor on a build in which hwloc runs before NVML, on a machine that hwloc detects, without two PCI
  devices at one address, when every device of NVML has the address of an
  object of hwloc, as the NVML module computes it without the function number, and no two devices have the
  same: it never stops, and every round prints, in the order of the vertices, exactly one block for each device
  that NVML counts, numbered from 0, with the ten values that NVML reports of that device in that round (or that
  there is none). (Without the first condition \<^verbatim>\<open>init()\<close> stops at the assertion of the NVML module; devices
  of one address share a vertex and a block.)
\<close>

theorem example_gpu_monitors:
  fixes G :: "'g bgl" and B :: "'b bitset_ops" and M :: "nat \<Rightarrow> 'd nvml_api"
  assumes "boost_graph G" and "hwloc_types (sys_hwloc S)"
    and "detected (sys_hwloc S) ts" and "distinct (forest_identifiers (sys_hwloc S) ts)"
    and "\<forall>i < DeviceGetCount N. \<exists>obj \<in> set (forest_objects ts).
      hwloc_bdfid (sys_hwloc S) obj \<noteq> None \<and>
      hwloc_bdfid (sys_hwloc S) obj = nvml_bdfid N (DeviceGetHandleByIndex N i)"
    and "distinct_addresses (DeviceGetCount N) (\<lambda>i. nvml_bdfid N (DeviceGetHandleByIndex N i))"
    and "srt (\<lambda>a b. m_init_order a < m_init_order b) modules = [hwloc_module B H G S, nvml_module G N]"
    and "\<forall>t. reads B H S N (M t) (reading t)"
  shows "\<exists>w dev vs rounds. init srt modules (root_graph G) = Some (YLOC_STATUS_SUCCESS, w) \<and>
    example_gpu srt modules B G reading = Some rounds \<and>
    sorted_wrt (<) vs \<and> (\<forall>v \<in> set vs. nvml_at N G w (dev v) v) \<and>
    mset (map dev vs) = mset [0..<DeviceGetCount N] \<and>
    (\<forall>t. rounds !! t = concat (map (\<lambda>k. device_block B k (vs ! k)
       (nvml_adapter (M t) (DeviceGetHandleByIndex (M t) (dev (vs ! k))))) [0..<length vs]))"
proof -
  obtain w1 w where runs: "ModuleHwloc_init_graph B H G (sys_hwloc S) (sys_nprocs S) (sys_hostname S) (root_graph G) =
      Some (YLOC_STATUS_SUCCESS, w1)" "ModuleNvml_init_graph N G w1 = Some (YLOC_STATUS_SUCCESS, w)"
    and wf: "wf_world G w1" "wf_world G w" and at: "\<forall>i < DeviceGetCount N. \<exists>v. nvml_at N G w i v"
    and shared: "adapters_for (nvml_shares B H S N) G w"
    by (rule nvml_shared_build [OF assms(1-5)])
  let ?V = "vertices_of_type G (topology w) GPU"
  let ?rounds = "gpu_rounds B G (topology w) (\<lambda>t. map (reading t) (objects w)) 0"
  have "no_gpu G w1" by (rule hwloc_build.hwloc_no_gpu [OF hwloc_buildI [OF assms(1,2)] assms(3) runs(1)])
  then have gpus: "\<And>u. u < nv G w \<Longrightarrow> is_a (m_type (vat G w u)) GPU \<Longrightarrow> \<exists>i < DeviceGetCount N. nvml_at N G w i u"
    by (rule boost_graph.nvml_init_gpus [OF assms(1) wf(1) _ runs(2)])
  obtain dev where dev: "\<forall>v \<in> set ?V. nvml_at N G w (dev v) v" "mset (map dev ?V) = mset [0..<DeviceGetCount N]"
    by (rule gpus_are_devices [OF assms(1) wf(2) assms(6) at gpus])
  have init: "init srt modules (root_graph G) = Some (YLOC_STATUS_SUCCESS, w)"
    using runs by (simp add: init_def assms(7) hwloc_module_def nvml_module_def default_module_def)
  have "?rounds !! t = concat (map (\<lambda>k. device_block B k (?V ! k)
      (nvml_adapter (M t) (DeviceGetHandleByIndex (M t) (dev (?V ! k))))) [0..<length ?V])" for t
  proof -
    have "answers_as B (map (reading t) (objects w)) (vat G w v)
        (nvml_adapter (M t) (DeviceGetHandleByIndex (M t) (dev v)))" if v: "v \<in> set ?V" for v
    proof (rule answers_then [OF assms(2) wf(2) shared assms(6)])
      show "reads B H S N (M t) (reading t)" "nvml_at N G w (dev v) v" using assms(8) dev(1) v by simp_all
      have "set (map dev ?V) = {..<DeviceGetCount N}"
        unfolding mset_eq_setD [OF dev(2)] by (simp add: atLeast0LessThan)
      then show "dev v < DeviceGetCount N" using v by auto
    qed
    then show ?thesis unfolding gpu_rounds_nth gpu_round_def by (subst gpu_blocks_devices) simp_all
  qed
  moreover have "sorted_wrt (<) ?V"
    by (simp add: vertices_of_type_def boost_graph.filtered_vertices [OF assms(1)] sorted_wrt_filter)
  moreover have "example_gpu srt modules B G reading = Some ?rounds" by (simp add: example_gpu_def init)
  ultimately show ?thesis using init dev by blast
qed

text \<open>The machine with one GPU, whose used memory grows by a byte in every round.\<close>

definition sample_over_time :: "nat \<Rightarrow> nat nvml_api" where
  "sample_over_time t = sample_one_gpu\<lparr>DeviceGetMemoryInfo := (\<lambda>_. Some (1000, of_nat t))\<rparr>"

definition sample_reading :: "nat \<Rightarrow> bool list adapter \<Rightarrow> bool list adapter" where
  "sample_reading t a = (if vcall a Adapter_temperature = None then a else nvml_adapter (sample_over_time t) 0)"

lemma sample_reads: "reads bool_list_ops index_list_ops sample_system sample_one_gpu (sample_over_time t) (sample_reading t)"
proof -
  have handles: "DeviceGetHandleByIndex sample_one_gpu i = i" "DeviceGetHandleByIndex (sample_over_time t) i = i"
    "DeviceGetCount sample_one_gpu = 1" for i
    by (simp_all add: sample_over_time_def sample_one_gpu_def sample_nvml_def)
  have "vcall (hwloc_adapter bool_list_ops index_list_ops (sys_hwloc sample_system) n obj) Adapter_temperature = None"
    for n obj
    by (simp add: hwloc_adapter_def)
  moreover have "vcall (nvml_adapter sample_one_gpu 0 :: bool list adapter) Adapter_temperature \<noteq> None"
    by (simp add: nvml_adapter_def nvml_temperature_def sample_one_gpu_def sample_nvml_def)
  moreover have "same_devices sample_one_gpu (sample_over_time t)"
    by (simp add: same_devices_def sample_over_time_def sample_one_gpu_def sample_nvml_def nvml_bdfid_def)
  ultimately show ?thesis
    by (auto simp: reads_def sample_reading_def handles)
qed

theorem example_gpu_monitors_witness:
  "\<exists>rounds v. example_gpu insertion_sort [hwloc_module bool_list_ops index_list_ops adjlist_ops sample_system,
      nvml_module adjlist_ops sample_one_gpu] bool_list_ops adjlist_ops sample_reading = Some rounds \<and>
    (\<forall>t. rounds !! t = device_block bool_list_ops 0 v (nvml_adapter (sample_over_time t) 0))"
proof -
  let ?h = "hwloc_module bool_list_ops index_list_ops adjlist_ops sample_system"
    and ?n = "nvml_module adjlist_ops sample_one_gpu :: (adjlist, bool list) module"
  have sys: "sys_hwloc sample_system = sample_api" "DeviceGetCount sample_one_gpu = 1"
    "DeviceGetHandleByIndex (sample_over_time t) i = i" for t i
    by (simp_all add: sample_system_def sample_one_gpu_def sample_over_time_def sample_nvml_def)
  have dev: "\<forall>i < DeviceGetCount sample_one_gpu. \<exists>obj \<in> set (forest_objects sample_tree).
      hwloc_bdfid (sys_hwloc sample_system) obj \<noteq> None \<and>
      hwloc_bdfid (sys_hwloc sample_system) obj =
        nvml_bdfid sample_one_gpu (DeviceGetHandleByIndex sample_one_gpu i)"
    using sample_gpu_address unfolding sys by (auto simp: sample_tree_def intro!: bexI [of _ 3])
  have distinct: "distinct_addresses (DeviceGetCount sample_one_gpu)
      (\<lambda>i. nvml_bdfid sample_one_gpu (DeviceGetHandleByIndex sample_one_gpu i))"
    by (simp add: distinct_addresses_def sys)
  have order: "insertion_sort (\<lambda>a b. m_init_order a < m_init_order b) [?h, ?n] = [?h, ?n]" by simp
  have "hwloc_types (sys_hwloc sample_system)" "detected (sys_hwloc sample_system) sample_tree"
    "distinct (forest_identifiers (sys_hwloc sample_system) sample_tree)"
    using hwloc_types_sample sample_detected sample_distinct unfolding sys by simp_all
  from example_gpu_monitors [where srt = insertion_sort, OF boost_graph_adjlist this dev distinct order,
      of sample_over_time sample_reading]
  obtain dev vs rounds where run: "example_gpu insertion_sort [?h, ?n] bool_list_ops adjlist_ops sample_reading = Some rounds"
    and vs: "mset (map dev vs) = mset [0..<1]"
    and rounds: "\<forall>t. rounds !! t = concat (map (\<lambda>k. device_block bool_list_ops k (vs ! k)
       (nvml_adapter (sample_over_time t) (dev (vs ! k)))) [0..<length vs])"
    using sample_reads unfolding sys by blast
  obtain v where "vs = [v]" "dev v = 0" using vs by (cases vs) auto
  then show ?thesis using run rounds by (intro exI [of _ rounds] exI [of _ v]) simp
qed

end
