(* ===== verification/Rocm_Functions.thy ===== *)
theory Rocm_Functions
  imports Prelude
begin

text \<open>
  \<^verbatim>\<open>yloc_rocm_get_supported_functions\<close> of \<^verbatim>\<open>modules/rocm/rocm_util.h\<close>: three nested loops over iterators of ROCm-SMI,
  which only end when the library says that there are no more data. What it prints is its result.
\<close>

section \<open>The library\<close>

datatype rsmi_status = RSMI_STATUS_SUCCESS | RSMI_STATUS_NO_DATA | RSMI_STATUS_other

text \<open>
  An iterator \<open>'i\<close> is a position. The functions that open one or move one on return a status and write the
  iterator; what it holds after a failure is up to the library, too.
\<close>

record 'i rsmi_functions =
  dev_supported_func_iterator_open :: "nat \<Rightarrow> rsmi_status \<times> 'i"
  dev_supported_variant_iterator_open :: "'i \<Rightarrow> rsmi_status \<times> 'i"
  func_iter_next :: "'i \<Rightarrow> rsmi_status \<times> 'i"
  func_value_name :: "'i \<Rightarrow> string"                   \<comment> \<open>\<^verbatim>\<open>value.name\<close> after \<^verbatim>\<open>rsmi_func_iter_value_get\<close>\<close>
  func_value_id :: "'i \<Rightarrow> u64"                        \<comment> \<open>\<^verbatim>\<open>value.id\<close>\<close>
  RSMI_DEFAULT_VARIANT :: u64

section \<open>The loops\<close>

definition endl :: string where
  "endl = [CHR 0x0A]"

definition tab :: string where
  "tab = [CHR 0x09]"

text \<open>Each loop appends to what was printed; \<open>None\<close> is a loop that does not end.\<close>

partial_function (option) sub_variants_loop :: "'i rsmi_functions \<Rightarrow> 'i \<Rightarrow> string \<Rightarrow> string option" where
  "sub_variants_loop F sub_var_iter out =
     (let out = out @ decimal (unat (func_value_id F sub_var_iter)) @ '', '';
          (err, sub_var_iter) = func_iter_next F sub_var_iter
      in if err = RSMI_STATUS_NO_DATA then Some out else sub_variants_loop F sub_var_iter out)"

partial_function (option) variants_loop :: "'i rsmi_functions \<Rightarrow> 'i \<Rightarrow> string \<Rightarrow> string option" where
  "variants_loop F var_iter out =
     (let out = out @ (if func_value_id F var_iter = RSMI_DEFAULT_VARIANT F then ''Default Variant ''
            else decimal (unat (func_value_id F var_iter))) @ '' ('';
          (err, sub_var_iter) = dev_supported_variant_iterator_open F var_iter
      in Option.bind (if err \<noteq> RSMI_STATUS_NO_DATA then sub_variants_loop F sub_var_iter out else Some out) (\<lambda>out.
        let out = out @ ''), '';
            (err, var_iter) = func_iter_next F var_iter
        in if err = RSMI_STATUS_NO_DATA then Some out else variants_loop F var_iter out))"

partial_function (option) functions_loop :: "'i rsmi_functions \<Rightarrow> 'i \<Rightarrow> string \<Rightarrow> string option" where
  "functions_loop F iter_handle out =
     (let out = out @ ''Function Name: '' @ func_value_name F iter_handle @ endl;
          (err, var_iter) = dev_supported_variant_iterator_open F iter_handle
      in Option.bind
          (if err \<noteq> RSMI_STATUS_NO_DATA
           then map_option (\<lambda>out. out @ endl) (variants_loop F var_iter (out @ tab @ ''Variants/Monitors: ''))
           else Some out) (\<lambda>out.
        let (err, iter_handle) = func_iter_next F iter_handle
        in if err = RSMI_STATUS_NO_DATA then Some out else functions_loop F iter_handle out))"

text \<open>The loop over the devices; the status of opening the iterator is not looked at.\<close>

fun device_functions :: "'i rsmi_functions \<Rightarrow> nat list \<Rightarrow> string \<Rightarrow> string option" where
  "device_functions F [] out = Some out"
| "device_functions F (i # is) out =
     (let out = out @ ''Supported RSMI Functions:'' @ endl @ tab @ ''Variants (Monitors)'' @ endl;
          (err, iter_handle) = dev_supported_func_iterator_open F i
      in Option.bind (functions_loop F iter_handle out) (device_functions F is))"

definition yloc_rocm_get_supported_functions :: "'i rsmi_functions \<Rightarrow> nat \<Rightarrow> string option" where
  "yloc_rocm_get_supported_functions F num_devices = device_functions F [0..<num_devices] []"

section \<open>What the loops print\<close>

text \<open>The positions that an iterator takes until the library reports the end.\<close>

fun iterates :: "'i rsmi_functions \<Rightarrow> 'i \<Rightarrow> 'i list \<Rightarrow> bool" where
  "iterates F i [] \<longleftrightarrow> False"
| "iterates F i (x # xs) \<longleftrightarrow> x = i \<and>
     (if xs = [] then fst (func_iter_next F i) = RSMI_STATUS_NO_DATA
      else fst (func_iter_next F i) \<noteq> RSMI_STATUS_NO_DATA \<and> iterates F (snd (func_iter_next F i)) xs)"

text \<open>The variants of a position: those of the iterator opened on it, none when there are no data.\<close>

definition variants_of :: "'i rsmi_functions \<Rightarrow> ('i \<Rightarrow> 'i list) \<Rightarrow> 'i \<Rightarrow> 'i list" where
  "variants_of F ps i = (case dev_supported_variant_iterator_open F i of (err, j) \<Rightarrow>
     if err = RSMI_STATUS_NO_DATA then [] else ps j)"

definition has_variants :: "'i rsmi_functions \<Rightarrow> 'i \<Rightarrow> bool" where
  "has_variants F i \<longleftrightarrow> fst (dev_supported_variant_iterator_open F i) \<noteq> RSMI_STATUS_NO_DATA"

definition variant_text :: "'i rsmi_functions \<Rightarrow> ('i \<Rightarrow> 'i list) \<Rightarrow> 'i \<Rightarrow> string" where
  "variant_text F ps i =
     (if func_value_id F i = RSMI_DEFAULT_VARIANT F then ''Default Variant '' else decimal (unat (func_value_id F i))) @
     '' ('' @ concat (map (\<lambda>j. decimal (unat (func_value_id F j)) @ '', '') (variants_of F ps i)) @ ''), ''"

definition function_text :: "'i rsmi_functions \<Rightarrow> ('i \<Rightarrow> 'i list) \<Rightarrow> 'i \<Rightarrow> string" where
  "function_text F ps i = ''Function Name: '' @ func_value_name F i @ endl @
     (if has_variants F i then tab @ ''Variants/Monitors: '' @
        concat (map (variant_text F ps) (variants_of F ps i)) @ endl else [])"

definition device_text :: "'i rsmi_functions \<Rightarrow> ('i \<Rightarrow> 'i list) \<Rightarrow> nat \<Rightarrow> string" where
  "device_text F ps d = ''Supported RSMI Functions:'' @ endl @ tab @ ''Variants (Monitors)'' @ endl @
     concat (map (function_text F ps) (ps (snd (dev_supported_func_iterator_open F d))))"

text \<open>Every iterator that is opened on a position comes to an end, after the positions \<open>ps\<close>.\<close>

definition ends :: "'i rsmi_functions \<Rightarrow> ('i \<Rightarrow> 'i list) \<Rightarrow> bool" where
  "ends F ps \<longleftrightarrow> (\<forall>i. has_variants F i \<longrightarrow>
     (let j = snd (dev_supported_variant_iterator_open F i) in iterates F j (ps j)))"

lemma sub_variants_prints:
  "iterates F i xs \<Longrightarrow>
     sub_variants_loop F i out = Some (out @ concat (map (\<lambda>j. decimal (unat (func_value_id F j)) @ '', '') xs))"
proof (induction xs arbitrary: i out)
  case (Cons x xs)
  then show ?case
    by (subst sub_variants_loop.simps) (auto simp: Let_def split_def split: if_splits)
qed simp

lemma opened_sub_variants:
  assumes "ends F ps"
  shows "(if has_variants F i then sub_variants_loop F (snd (dev_supported_variant_iterator_open F i)) out else Some out) =
    Some (out @ concat (map (\<lambda>j. decimal (unat (func_value_id F j)) @ '', '') (variants_of F ps i)))"
  using assms by (auto simp: ends_def variants_of_def has_variants_def Let_def split_def sub_variants_prints)

text \<open>One round of a loop prints the text of its position and stops or goes on.\<close>

lemma variants_round:
  assumes "ends F ps"
  shows "variants_loop F i out =
    (if fst (func_iter_next F i) = RSMI_STATUS_NO_DATA then Some (out @ variant_text F ps i)
     else variants_loop F (snd (func_iter_next F i)) (out @ variant_text F ps i))"
  using opened_sub_variants [OF assms, of i]
  by (subst variants_loop.simps) (simp add: Let_def split_def has_variants_def [symmetric] variant_text_def)

lemma variants_prints:
  assumes "ends F ps"
  shows "iterates F i xs \<Longrightarrow> variants_loop F i out = Some (out @ concat (map (variant_text F ps) xs))"
proof (induction xs arbitrary: i out)
  case (Cons x xs)
  then show ?case by (subst variants_round [OF assms]) (auto split: if_splits)
qed simp

lemma opened_variants:
  assumes "ends F ps" and "has_variants F i"
  shows "variants_loop F (snd (dev_supported_variant_iterator_open F i)) out =
    Some (out @ concat (map (variant_text F ps) (variants_of F ps i)))"
  using assms variants_prints [OF assms(1)]
  by (auto simp: ends_def variants_of_def has_variants_def Let_def split_def)

lemma functions_round:
  assumes "ends F ps"
  shows "functions_loop F i out =
    (if fst (func_iter_next F i) = RSMI_STATUS_NO_DATA then Some (out @ function_text F ps i)
     else functions_loop F (snd (func_iter_next F i)) (out @ function_text F ps i))"
  using opened_variants [OF assms, of i]
  by (subst functions_loop.simps) (simp add: Let_def split_def has_variants_def [symmetric] function_text_def)

lemma functions_prints:
  assumes "ends F ps"
  shows "iterates F i xs \<Longrightarrow> functions_loop F i out = Some (out @ concat (map (function_text F ps) xs))"
proof (induction xs arbitrary: i out)
  case (Cons x xs)
  then show ?case by (subst functions_round [OF assms]) (auto split: if_splits)
qed simp

lemma device_functions_prints:
  assumes "ends F ps" and "\<forall>d \<in> set is. let i = snd (dev_supported_func_iterator_open F d) in iterates F i (ps i)"
  shows "device_functions F is out = Some (out @ concat (map (device_text F ps) is))"
  using assms(2)
proof (induction "is" arbitrary: out)
  case (Cons d "is")
  let ?i = "snd (dev_supported_func_iterator_open F d)"
  have "iterates F ?i (ps ?i)" using Cons.prems by (simp add: Let_def)
  then show ?case
    using Cons.IH Cons.prems by (simp add: Let_def split_def functions_prints [OF assms(1)] device_text_def)
qed simp

section \<open>When a loop does not end\<close>

text \<open>The position after \<open>k\<close> steps.\<close>

definition steps_on :: "'i rsmi_functions \<Rightarrow> nat \<Rightarrow> 'i \<Rightarrow> 'i" where
  "steps_on F k = (\<lambda>i. snd (func_iter_next F i)) ^^ k"

definition never_ends :: "'i rsmi_functions \<Rightarrow> 'i \<Rightarrow> bool" where
  "never_ends F i \<longleftrightarrow> (\<forall>k. fst (func_iter_next F (steps_on F k i)) \<noteq> RSMI_STATUS_NO_DATA)"

lemma never_ends_next:
  "never_ends F i \<Longrightarrow> fst (func_iter_next F i) \<noteq> RSMI_STATUS_NO_DATA \<and> never_ends F (snd (func_iter_next F i))"
proof -
  assume all: "never_ends F i"
  have "steps_on F k (snd (func_iter_next F i)) = steps_on F (Suc k) i" for k
    by (simp add: steps_on_def funpow_Suc_right del: funpow.simps(2))
  moreover have "steps_on F 0 i = i" by (simp add: steps_on_def)
  ultimately show ?thesis using all unfolding never_ends_def by metis
qed

lemma functions_never:
  assumes "functions_loop F i out = Some r"
  shows "\<not> never_ends F i"
proof (rule functions_loop.raw_induct [where P = "\<lambda>F i out r. \<not> never_ends F i", OF _ assms])
  fix f :: "'i rsmi_functions \<Rightarrow> 'i \<Rightarrow> string \<Rightarrow> string option" and F i out r
  assume IH: "\<And>F i out r. f F i out = Some r \<Longrightarrow> \<not> never_ends F i"
    and step: "(let out = out @ ''Function Name: '' @ func_value_name F i @ endl;
          (err, var_iter) = dev_supported_variant_iterator_open F i
      in Option.bind
          (if err \<noteq> RSMI_STATUS_NO_DATA
           then map_option (\<lambda>out. out @ endl) (variants_loop F var_iter (out @ tab @ ''Variants/Monitors: ''))
           else Some out) (\<lambda>out.
        let (err, iter_handle) = func_iter_next F i
        in if err = RSMI_STATUS_NO_DATA then Some out else f F iter_handle out)) = Some r"
  show "\<not> never_ends F i"
  proof
    assume "never_ends F i"
    from never_ends_next [OF this] show False
      using step IH by (auto simp: Let_def split_def bind_eq_Some_conv split: if_splits)
  qed
qed

lemma device_functions_never:
  assumes "d \<in> set is" and "never_ends F (snd (dev_supported_func_iterator_open F d))"
  shows "device_functions F is out = None"
  using assms(1)
proof (induction "is" arbitrary: out)
  case (Cons i "is")
  have none: "functions_loop F j out' = None" if "never_ends F j" for j out'
    using functions_never [of F j out'] that by (cases "functions_loop F j out'") auto
  show ?case
  proof (cases "d = i")
    case True
    then show ?thesis using none [OF assms(2)] by (simp add: Let_def split_def)
  next
    case False
    then show ?thesis using Cons by (auto simp: Let_def split_def bind_eq_None_conv)
  qed
qed simp

section \<open>Properties\<close>

text \<open>
  C25. The list of supported functions: when the iterators come to an end, the three loops return and print
  every function of every device with its variants and their variants, in the order of the
  iterators. When the library never reports the end of a device's iterator (as the loop asks for
  nothing else, also when the iterator could not be opened and every step fails), the function
  does not return.
\<close>

theorem supported_functions_listed:
  shows "(ends F ps \<and> (\<forall>d < n. let i = snd (dev_supported_func_iterator_open F d) in iterates F i (ps i)) \<longrightarrow>
      yloc_rocm_get_supported_functions F n = Some (concat (map (device_text F ps) [0..<n]))) \<and>
    ((\<exists>d < n. never_ends F (snd (dev_supported_func_iterator_open F d))) \<longrightarrow>
      yloc_rocm_get_supported_functions F n = None)"
proof (intro conjI impI)
  assume "ends F ps \<and> (\<forall>d < n. let i = snd (dev_supported_func_iterator_open F d) in iterates F i (ps i))"
  then show "yloc_rocm_get_supported_functions F n = Some (concat (map (device_text F ps) [0..<n]))"
    unfolding yloc_rocm_get_supported_functions_def by (subst device_functions_prints [of F ps]) auto
next
  assume "\<exists>d < n. never_ends F (snd (dev_supported_func_iterator_open F d))"
  then show "yloc_rocm_get_supported_functions F n = None"
    unfolding yloc_rocm_get_supported_functions_def by (auto intro: device_functions_never)
qed

text \<open>
  Two devices: positions 0 and 1 are the functions of the first, the second of which has the variant at
  position 2; the iterator of the second device, at position 3, could not be opened.
\<close>

definition sample_functions :: "nat rsmi_functions" where
  "sample_functions =
    \<lparr>dev_supported_func_iterator_open = (\<lambda>d. if d = 0 then (RSMI_STATUS_SUCCESS, 0) else (RSMI_STATUS_other, 3)),
     dev_supported_variant_iterator_open = (\<lambda>i. if i = 1 then (RSMI_STATUS_SUCCESS, 2) else (RSMI_STATUS_NO_DATA, 2)),
     func_iter_next = (\<lambda>i. if i = 0 then (RSMI_STATUS_SUCCESS, 1)
        else if i = 3 then (RSMI_STATUS_other, 3) else (RSMI_STATUS_NO_DATA, i)),
     func_value_name = (\<lambda>i. ''f'' @ decimal i), func_value_id = (\<lambda>i. 7), RSMI_DEFAULT_VARIANT = - 1\<rparr>"

theorem supported_functions_listed_witness:
  "yloc_rocm_get_supported_functions sample_functions 1 = Some (''Supported RSMI Functions:'' @ endl @ tab @
     ''Variants (Monitors)'' @ endl @ ''Function Name: f0'' @ endl @ ''Function Name: f1'' @ endl @ tab @
     ''Variants/Monitors: 7 (), '' @ endl) \<and>
   yloc_rocm_get_supported_functions sample_functions 2 = None"
proof
  let ?ps = "\<lambda>i. if i = 0 then [0, 1] else [i]" and ?F = sample_functions
  have "ends ?F ?ps"
    by (simp add: ends_def has_variants_def Let_def sample_functions_def)
  moreover have "\<forall>d < 1. let i = snd (dev_supported_func_iterator_open ?F d) in iterates ?F i (?ps i)"
    by (simp add: Let_def sample_functions_def)
  ultimately have "yloc_rocm_get_supported_functions ?F 1 = Some (concat (map (device_text ?F ?ps) [0..<1]))"
    using supported_functions_listed [of ?F ?ps 1] by blast
  moreover have "decimal 0 = ''0''" "decimal 1 = ''1''" "decimal 7 = ''7''" by code_simp+
  ultimately show "yloc_rocm_get_supported_functions ?F 1 = Some (''Supported RSMI Functions:'' @ endl @ tab @
     ''Variants (Monitors)'' @ endl @ ''Function Name: f0'' @ endl @ ''Function Name: f1'' @ endl @ tab @
     ''Variants/Monitors: 7 (), '' @ endl)"
    by (simp add: device_text_def function_text_def has_variants_def variants_of_def variant_text_def
        sample_functions_def)
  have "steps_on ?F k 3 = 3" for k by (induction k) (simp_all add: steps_on_def sample_functions_def)
  then have "never_ends ?F (snd (dev_supported_func_iterator_open ?F 1))"
    by (simp add: never_ends_def) (simp add: sample_functions_def)
  then show "yloc_rocm_get_supported_functions ?F 2 = None"
    using supported_functions_listed [of ?F ?ps 2] by fastforce
qed

end
