(* ===== verification/Hwloc_Census.thy ===== *)
theory Hwloc_Census
  imports Build Adapters_For
begin

text \<open>
  The options that the hwloc module sets before the detection (\<^verbatim>\<open>set_hwloc_options\<close> of
  \<^verbatim>\<open>modules/hwloc/init_graph.cc\<close>), and the census of the topology it then builds: one vertex for every object
  that hwloc keeps, of the type that the object is given, and so none of a type that was filtered out.
\<close>

section \<open>The options\<close>

text \<open>\<^verbatim>\<open>hwloc_type_filter_e\<close>\<close>

datatype type_filter =
    HWLOC_TYPE_FILTER_KEEP_ALL | HWLOC_TYPE_FILTER_KEEP_NONE | HWLOC_TYPE_FILTER_KEEP_STRUCTURE
  | HWLOC_TYPE_FILTER_KEEP_IMPORTANT

text \<open>
  The functions of hwloc on a topology that is being configured (\<open>'s\<close>); \<^verbatim>\<open>hwloc_topology_load\<close> turns it
  into one that can be walked.
\<close>

record ('s, 'o, 'h) hwloc_config =
  topology_set_all_types_filter :: "'s \<Rightarrow> type_filter \<Rightarrow> 's"
  topology_set_icache_types_filter :: "'s \<Rightarrow> type_filter \<Rightarrow> 's"
  topology_set_type_filter :: "'s \<Rightarrow> hwloc_obj_type \<Rightarrow> type_filter \<Rightarrow> 's"
  topology_load :: "'s \<Rightarrow> ('o, 'h) hwloc_api"

definition set_hwloc_options :: "('s, 'o, 'h) hwloc_config \<Rightarrow> 's \<Rightarrow> 's" where
  "set_hwloc_options C t =
     (let t = topology_set_all_types_filter C t HWLOC_TYPE_FILTER_KEEP_IMPORTANT;
          t = topology_set_icache_types_filter C t HWLOC_TYPE_FILTER_KEEP_NONE
      in topology_set_type_filter C t HWLOC_OBJ_BRIDGE HWLOC_TYPE_FILTER_KEEP_NONE)"

text \<open>
  \<^verbatim>\<open>ModuleHwloc::init_graph\<close> from \<^verbatim>\<open>hwloc_topology_init\<close> on, which returns the topology \<open>t\<close> with the options
  that hwloc has by default. (The test of the version does not depend on it.)
\<close>

definition configure_and_init :: "('s, 'o, 'h) hwloc_config \<Rightarrow> 's \<Rightarrow> 'b bitset_ops \<Rightarrow> 'h hwloc_bitmap_ops \<Rightarrow>
    'g bgl \<Rightarrow> nat \<Rightarrow> string \<Rightarrow> ('g, 'b) world \<Rightarrow> (yloc_status_t \<times> ('g, 'b) world) option" where
  "configure_and_init C t B H G n hostname w =
     ModuleHwloc_init_graph B H G (topology_load C (set_hwloc_options C t)) n hostname w"

text \<open>
  What hwloc documents of its filters: the last setting of a type counts, the setting of the instruction
  caches is that of each of their types, and no object of a type that is not kept is found.
\<close>

definition icache_types :: "hwloc_obj_type set" where
  "icache_types = {HWLOC_OBJ_L1ICACHE, HWLOC_OBJ_L2ICACHE, HWLOC_OBJ_L3ICACHE}"

locale hwloc_filters =
  fixes C :: "('s, 'o, 'h) hwloc_config" and filter_of :: "'s \<Rightarrow> hwloc_obj_type \<Rightarrow> type_filter"
  assumes icache_filter: "ty \<in> icache_types \<Longrightarrow> filter_of (topology_set_icache_types_filter C t f) ty = f"
    and type_filter: "filter_of (topology_set_type_filter C t HWLOC_OBJ_BRIDGE f) ty =
      (if ty = HWLOC_OBJ_BRIDGE then f else filter_of t ty)"
    and load_filtered: "represents (topology_load C t) (HNode obj ts) \<Longrightarrow> child \<in> set (forest_objects ts) \<Longrightarrow>
      filter_of t (obj_type (topology_load C t) child) \<noteq> HWLOC_TYPE_FILTER_KEEP_NONE"
begin

lemma options_filter:
  assumes "represents (topology_load C (set_hwloc_options C t)) (HNode obj ts)" and "child \<in> set (forest_objects ts)"
  shows "obj_type (topology_load C (set_hwloc_options C t)) child \<notin> insert HWLOC_OBJ_BRIDGE icache_types"
  using load_filtered [OF assms] icache_filter
  by (auto simp: set_hwloc_options_def type_filter icache_types_def)

end

section \<open>An executable instance\<close>

text \<open>
  On any machine, the options as a function from types and a walk that passes over the children that
  are not kept, with what is below them. (hwloc itself would hand their children to the parent.)
\<close>

partial_function (option) next_kept ::
  "('o, 'h) hwloc_api \<Rightarrow> (hwloc_obj_type \<Rightarrow> type_filter) \<Rightarrow> 'o \<Rightarrow> 'o option \<Rightarrow> 'o option option" where
  "next_kept A filters obj prev =
     (case get_next_child A obj prev of
        None \<Rightarrow> Some None
      | Some child \<Rightarrow>
          if filters (obj_type A child) = HWLOC_TYPE_FILTER_KEEP_NONE then next_kept A filters obj (Some child)
          else Some (Some child))"

declare next_kept.simps [code]

definition walk_config :: "('o, 'h) hwloc_api \<Rightarrow> (hwloc_obj_type \<Rightarrow> type_filter, 'o, 'h) hwloc_config" where
  "walk_config A =
    \<lparr>topology_set_all_types_filter = (\<lambda>filters f ty. f),
     topology_set_icache_types_filter = (\<lambda>filters f ty. if ty \<in> icache_types then f else filters ty),
     topology_set_type_filter = (\<lambda>filters ty f. filters(ty := f)),
     topology_load = (\<lambda>filters. A\<lparr>get_next_child := (\<lambda>obj prev. Option.bind (next_kept A filters obj prev) id)\<rparr>)\<rparr>"

lemma next_kept_filter:
  assumes "next_kept A filters obj prev = Some r"
  shows "r = Some child \<longrightarrow> filters (obj_type A child) \<noteq> HWLOC_TYPE_FILTER_KEEP_NONE"
proof (rule next_kept.raw_induct [where P = "\<lambda>A filters obj prev r.
    r = Some child \<longrightarrow> filters (obj_type A child) \<noteq> HWLOC_TYPE_FILTER_KEEP_NONE", OF _ assms])
qed (auto split: option.splits if_splits)

lemma enumerates_next: "enumerates A obj prev cs \<Longrightarrow> c \<in> set cs \<Longrightarrow> \<exists>p. get_next_child A obj p = Some c"
  by (induction cs arbitrary: prev) auto

lemma represents_next:
  assumes "\<forall>t \<in> set ts. represents A t" and "\<forall>t \<in> set ts. \<exists>o' p. get_next_child A o' p = Some (hobj t)"
    and "child \<in> set (forest_objects ts)"
  shows "\<exists>o' p. get_next_child A o' p = Some child"
  using assms
proof (induction ts rule: forest_objects.induct)
  case (2 obj cs ts)
  have "\<forall>t \<in> set cs. \<exists>o' p. get_next_child A o' p = Some (hobj t)"
    using "2.prems"(1) enumerates_next [of A obj None "map hobj cs"] by fastforce
  then show ?case using 2 by auto
qed simp

interpretation walk: hwloc_filters "walk_config A" "\<lambda>filters. filters" for A :: "('o, 'h) hwloc_api"
proof
  fix t obj ts child
  let ?A = "topology_load (walk_config A) t"
  assume r: "represents ?A (HNode obj ts)" and child: "child \<in> set (forest_objects ts)"
  then have "\<forall>t \<in> set ts. \<exists>o' p. get_next_child ?A o' p = Some (hobj t)"
    using enumerates_next [of ?A obj None "map hobj ts"] by fastforce
  from represents_next [OF _ this child] r obtain o' p where "get_next_child ?A o' p = Some child" by auto
  then have "next_kept A t o' p = Some (Some child)"
    by (auto simp: walk_config_def bind_eq_Some_conv)
  from next_kept_filter [OF this, of child] show "t (obj_type ?A child) \<noteq> HWLOC_TYPE_FILTER_KEEP_NONE"
    by (simp add: walk_config_def)
qed (simp_all add: walk_config_def)

section \<open>The census\<close>

definition vertex_types :: "'g bgl \<Rightarrow> ('g, 'b) world \<Rightarrow> ctype multiset" where
  "vertex_types G w = image_mset (\<lambda>v. m_type (vat G w v)) (mset_set {..<nv G w})"

lemma vertex_types_Suc:
  assumes "nv G w' = Suc (nv G w)" and "\<And>u. u < nv G w \<Longrightarrow> m_type (vat G w' u) = m_type (vat G w u)"
  shows "vertex_types G w' = add_mset (m_type (vat G w' (nv G w))) (vertex_types G w)"
proof -
  have "image_mset (\<lambda>v. m_type (vat G w' v)) (mset_set {..<nv G w}) = vertex_types G w"
    unfolding vertex_types_def by (rule image_mset_cong) (simp add: assms(2))
  then show ?thesis by (simp add: vertex_types_def assms(1) lessThan_Suc)
qed

lemma vertex_types_member: "v < nv G w \<Longrightarrow> m_type (vat G w v) \<in># vertex_types G w"
  by (simp add: vertex_types_def)

text \<open>The types of the objects of a forest.\<close>

definition object_types :: "('o, 'h) hwloc_api \<Rightarrow> 'o htree list \<Rightarrow> ctype multiset" where
  "object_types A ts =
     image_mset (\<lambda>obj. the (yloc_type_table (obj_type A obj) (obj_osdev_type A obj))) (mset (forest_objects ts))"

lemma object_types_simps [simp]:
  "object_types A [] = {#}"
  "object_types A (HNode obj cs # ts) =
     add_mset (the (yloc_type_table (obj_type A obj) (obj_osdev_type A obj))) (object_types A cs + object_types A ts)"
  by (simp_all add: object_types_def)

context hwloc_build
begin

lemma add_hwloc_child_types:
  assumes wf: "wf_world G w" and vd: "vd < nv G w" and known: "knows_type A child"
    and fresh: "\<forall>i. obj_identifier A child = Some i \<longrightarrow> ids w i = None"
    and add: "add_hwloc_child B H G A n vd child w = Some (v, w')" and num: "nv G w' = Suc (nv G w)"
  shows "vertex_types G w' =
    add_mset (the (yloc_type_table (obj_type A child) (obj_osdev_type A child))) (vertex_types G w)"
proof -
  obtain t where t: "hwloc_2_yloc_type A child = Some t" using type_known known by blast
  note at = add_hwloc_child_at [OF wf vd t add]
  have v: "v = nv G w" by (rule at(2) [of "nv G w", OF _ fresh]) (simp add: num)
  have "m_type (vat G w' (nv G w)) = t" using at(1) [of "nv G w"] num v by (simp add: Let_def)
  moreover have "m_type (vat G w' u) = m_type (vat G w u)" if "u < nv G w" for u
    using at(1) [of u] num that v by (simp add: Let_def)
  ultimately show ?thesis using vertex_types_Suc [OF num] t by (simp add: type_table)
qed

lemma build_forest_types:
  assumes "wf_world G w" and "vd < nv G w" and "\<forall>obj \<in> set (forest_objects ts). knows_type A obj"
    and "distinct (forest_identifiers A ts)" and "set (forest_identifiers A ts) \<inter> dom (ids w) = {}"
    and "build_forest B H G A n vd ts w = Some w'"
  shows "vertex_types G w' = vertex_types G w + object_types A ts"
  using assms
proof (induction ts arbitrary: vd w w' rule: forest_objects.induct)
  case 1
  then show ?case by simp
next
  case (2 obj cs ts)
  have known: "knows_type A obj" using "2.prems"(3) by simp
  obtain v w1 where add: "add_hwloc_child B H G A n vd obj w = Some (v, w1)"
    and wf1: "wf_world G w1" and v: "v < nv G w1" "vd < nv G w1"
    and ids1: "ids w1 = (case obj_identifier A obj of None \<Rightarrow> ids w | Some i \<Rightarrow> (ids w)(i \<mapsto> v))"
    and new: "(\<forall>i. obj_identifier A obj = Some i \<longrightarrow> ids w i = None) \<longrightarrow>
      v = nv G w \<and> nv G w1 = Suc (nv G w)"
    by (rule add_hwloc_child_spec [OF "2.prems"(1,2) known, of B H n]) (rule that)
  have fresh: "\<forall>i. obj_identifier A obj = Some i \<longrightarrow> ids w i = None"
    using "2.prems"(5) by (auto simp: forest_identifiers_eq domIff)
  have one: "vertex_types G w1 =
      add_mset (the (yloc_type_table (obj_type A obj) (obj_osdev_type A obj))) (vertex_types G w)"
    using add_hwloc_child_types [OF "2.prems"(1,2) known fresh add] new fresh by blast
  have dom1: "dom (ids w1) = dom (ids w) \<union> set (case obj_identifier A obj of None \<Rightarrow> [] | Some i \<Rightarrow> [i])"
    using ids1 by (auto split: option.splits)
  have cs: "\<forall>obj \<in> set (forest_objects cs). knows_type A obj" using "2.prems"(3) by auto
  from build_forest_spec [OF wf1 v(1) cs, of B H n] obtain w2 where
    w2: "build_forest B H G A n v cs w1 = Some w2" and wf2: "wf_world G w2" and ext2: "extends G w1 w2"
    and dom2: "dom (ids w2) = dom (ids w1) \<union> set (forest_identifiers A cs)"
    by auto
  have "set (forest_identifiers A cs) \<inter> dom (ids w1) = {}" "distinct (forest_identifiers A cs)"
    using "2.prems"(4,5) unfolding forest_identifiers_eq dom1 by auto
  from "2.IH"(1) [OF wf1 v(1) cs this(2,1) w2] have two: "vertex_types G w2 = vertex_types G w1 + object_types A cs" .
  have "build_forest B H G A n vd ts w2 = Some w'" using "2.prems"(6) add w2 by simp
  moreover have "set (forest_identifiers A ts) \<inter> dom (ids w2) = {}" "distinct (forest_identifiers A ts)"
    using "2.prems"(4,5) unfolding forest_identifiers_eq dom1 dom2 by auto
  moreover have "vd < nv G w2" using v(2) extendsD(1) [OF ext2] by simp
  moreover have "\<forall>obj \<in> set (forest_objects ts). knows_type A obj" using "2.prems"(3) by auto
  ultimately have "vertex_types G w' = vertex_types G w2 + object_types A ts"
    using "2.IH"(2) [OF wf2] by blast
  then show ?case by (simp add: two one)
qed

text \<open>The whole module on the empty graph.\<close>

lemma init_graph_census:
  fixes B :: "'b bitset_ops"
  assumes ts: "detected A ts" and distinct: "distinct (forest_identifiers A ts)"
  obtains w where
    "ModuleHwloc_init_graph B H G A n hostname (root_graph G) = Some (YLOC_STATUS_SUCCESS, w)"
    and "vertex_types G w = add_mset Node (object_types A ts)"
proof -
  let ?w0 = "root_graph G :: ('g, 'b) world"
  note wf0 = wf_root_graph
  have known: "\<forall>obj \<in> set (forest_objects ts). knows_type A obj" using ts by (simp add: detected_def)
  obtain w where run: "ModuleHwloc_init_graph B H G A n hostname ?w0 = Some (YLOC_STATUS_SUCCESS, w)"
    by (rule init_graph_builds [OF wf0 ts, of B H n hostname])
  obtain v w1 w2 where pair: "root_vertex_hwloc B H G A n hostname ?w0 = (v, w1)"
    and w2: "w2 = (if m_type (vat G w1 v) = UnknownComponentType then set_type G v Node w1 else w1)"
    and forest: "build_forest B H G A n v ts w2 = Some w"
    by (rule hwloc_init_split [OF ts run])
  note root = root_vertex_simps [OF wf0, where B = B and H = H and n = n and hostname = hostname, unfolded pair snd_conv fst_conv]
  have empty: "nv G ?w0 = 0" "ids ?w0 = Map.empty" by (simp_all add: step_simps new_graph_simps)
  have one: "nv G w1 = 1" using root(12) empty by simp
  then have v: "v = 0" using root(1,2) by simp
  have "w1 = snd (root_vertex_hwloc B H G A n hostname ?w0)" using pair by simp
  then have "m_type (vat G w1 0) = UnknownComponentType"
    using empty by (simp add: root_vertex_hwloc_def Let_def split_def graph_simps add_vertex_new)
  then have w2': "nv G w2 = 1" "m_type (vat G w2 0) = Node" "wf_world G w2" "ids w2 = ids w1"
    using one root(3) by (simp_all add: w2 v graph_simps wf_set_type)
  then have "vertex_types G w2 = {#Node#}" by (simp add: vertex_types_def lessThan_Suc)
  moreover have "set (forest_identifiers A ts) \<inter> dom (ids w2) = {}"
    unfolding w2'(4) by (auto simp: root empty forest_identifiers_def obj_identifier_def bdfid_identifier_def
        split: option.splits)
  ultimately have "vertex_types G w = add_mset Node (object_types A ts)"
    using build_forest_types [OF w2'(3) _ known distinct _ forest] w2'(1) v by simp
  with run show thesis by (rule that)
qed

end

section \<open>Properties\<close>

text \<open>
  C27. With the options that it sets, \<^verbatim>\<open>ModuleHwloc::init_graph\<close> makes on the empty graph, for a machine that
  hwloc detects without two PCI devices at one address, exactly one vertex for the machine and one for every object that hwloc keeps, each of the type that the table gives the
  object (so that a program that counts the vertices of a type counts the objects), and none of them is an
  instruction cache or a bridge.
\<close>

theorem hwloc_census:
  fixes G :: "'g bgl" and B :: "'b bitset_ops"
  defines "A \<equiv> \<lambda>C t. topology_load C (set_hwloc_options C t)"
  assumes "boost_graph G" and "hwloc_filters C filter_of" and "hwloc_types (A C t)"
    and "detected (A C t) ts" and "distinct (forest_identifiers (A C t) ts)"
  shows "\<exists>w. configure_and_init C t B H G n hostname (root_graph G) = Some (YLOC_STATUS_SUCCESS, w) \<and>
    vertex_types G w = add_mset Node (object_types (A C t) ts) \<and>
    (\<forall>v < nv G w. \<not> is_a (m_type (vat G w v)) InstructionCache \<and> m_type (vat G w v) \<noteq> Bridge)"
proof -
  obtain w where run: "ModuleHwloc_init_graph B H G (A C t) n hostname (root_graph G) = Some (YLOC_STATUS_SUCCESS, w)"
    and types: "vertex_types G w = add_mset Node (object_types (A C t) ts)"
    by (rule hwloc_build.init_graph_census [OF hwloc_buildI [OF assms(2,4)] assms(5,6)])
  have kept: "obj_type (A C t) obj \<notin> insert HWLOC_OBJ_BRIDGE icache_types"
    and known: "knows_type (A C t) obj" if "obj \<in> set (forest_objects ts)" for obj
    using hwloc_filters.options_filter [OF assms(3) _ that] assms(5) that by (auto simp: detected_def A_def)
  have table: "\<not> is_a (the (yloc_type_table ty dev)) InstructionCache \<and> the (yloc_type_table ty dev) \<noteq> Bridge"
    if "ty \<notin> insert HWLOC_OBJ_BRIDGE icache_types"
      and "ty = HWLOC_OBJ_OS_DEVICE \<longrightarrow> (\<exists>d. dev = Some d \<and> d \<noteq> HWLOC_OBJ_OSDEV_unknown)" for ty dev
    using that by (cases ty; cases dev; cases "the dev") (auto simp: icache_types_def is_a_eval)
  have "\<not> is_a (m_type (vat G w v)) InstructionCache \<and> m_type (vat G w v) \<noteq> Bridge" if v: "v < nv G w" for v
  proof -
    from vertex_types_member [OF v] consider "m_type (vat G w v) = Node"
      | obj where "obj \<in> set (forest_objects ts)"
        "m_type (vat G w v) = the (yloc_type_table (obj_type (A C t) obj) (obj_osdev_type (A C t) obj))"
      unfolding types object_types_def by auto
    then show ?thesis
    proof cases
      case 1
      then show ?thesis by (simp add: is_a_eval)
    next
      case 2
      then show ?thesis using table [OF kept] known [OF 2(1)] unfolding knows_type_def by metis
    qed
  qed
  with run types show ?thesis unfolding configure_and_init_def A_def by blast
qed

text \<open>The machine of the samples, where object 2 is a bridge.\<close>

definition bridge_api :: "(nat, nat list) hwloc_api" where
  "bridge_api = sample_api\<lparr>obj_type := (\<lambda>i. [HWLOC_OBJ_MACHINE, HWLOC_OBJ_CORE, HWLOC_OBJ_BRIDGE,
     HWLOC_OBJ_PCI_DEVICE, HWLOC_OBJ_PU] ! i)\<rparr>"

theorem hwloc_census_witness:
  "\<exists>w. configure_and_init (walk_config bridge_api) (\<lambda>_. HWLOC_TYPE_FILTER_KEEP_ALL) bool_list_ops index_list_ops
      adjlist_ops 2 ''h'' (root_graph adjlist_ops) = Some (YLOC_STATUS_SUCCESS, w) \<and>
    vertex_types adjlist_ops w = {#Node, PhysicalCore, LogicalCore, PCIDevice#}"
proof -
  let ?C = "walk_config bridge_api" and ?t = "\<lambda>_ :: hwloc_obj_type. HWLOC_TYPE_FILTER_KEEP_ALL"
  let ?ts = "[HNode 1 [HNode 4 []], HNode 3 []]"
  define A where "A = topology_load ?C (set_hwloc_options ?C ?t)"
  have A: "A = bridge_api\<lparr>get_next_child := (\<lambda>obj prev. Option.bind
      (next_kept bridge_api (set_hwloc_options ?C ?t) obj prev) id)\<rparr>"
    by (simp add: A_def walk_config_def)
  have filters: "set_hwloc_options ?C ?t ty = (if ty \<in> insert HWLOC_OBJ_BRIDGE icache_types
      then HWLOC_TYPE_FILTER_KEEP_NONE else HWLOC_TYPE_FILTER_KEEP_IMPORTANT)" for ty
    by (simp add: set_hwloc_options_def walk_config_def)
  have types: "hwloc_types A"
    using hwloc_types_sample by (simp add: A bridge_api_def hwloc_types_def)
  define flt where "flt = set_hwloc_options ?C ?t"
  have flt: "flt ty = (if ty \<in> insert HWLOC_OBJ_BRIDGE icache_types
      then HWLOC_TYPE_FILTER_KEEP_NONE else HWLOC_TYPE_FILTER_KEEP_IMPORTANT)" for ty
    by (simp only: flt_def filters)
  have api: "get_next_child bridge_api i = next_of ([[1, 2, 3], [4], [], [], []] ! i)"
    "obj_type bridge_api i = [HWLOC_OBJ_MACHINE, HWLOC_OBJ_CORE, HWLOC_OBJ_BRIDGE, HWLOC_OBJ_PCI_DEVICE, HWLOC_OBJ_PU] ! i"
    for i by (simp_all add: bridge_api_def)
  have next_eq: "get_next_child A obj prev = Option.bind (next_kept bridge_api flt obj prev) id" for obj prev
    by (simp add: A flt_def)
  have next_simps: "get_next_child A 0 None = Some 1" "get_next_child A 0 (Some 1) = Some 3"
    "get_next_child A 0 (Some 3) = None" "get_next_child A 1 None = Some 4" "get_next_child A 1 (Some 4) = None"
    "get_next_child A 4 None = None" "get_next_child A 3 None = None"
    by (simp_all add: next_eq next_kept.simps flt api icache_types_def)
  have same: "obj_type A = obj_type bridge_api" "get_root_obj A = 0" "obj_osdev_type A = (\<lambda>_. None)"
    "get_api_version A = 0x20900" "HWLOC_API_VERSION A = 0x20100"
    by (simp_all add: A) (simp_all add: bridge_api_def fun_eq_iff)
  have detected: "detected A ?ts"
    by (simp add: detected_def check_hwloc_api_version_def same api next_simps [unfolded One_nat_def] knows_type_def drop_bit_eq_div)
  have "distinct (forest_identifiers A ?ts)"
    by (simp add: forest_identifiers_def obj_identifier_def hwloc_bdfid_def hwloc_types.compare_types_zero [OF types]
        same api)
  from hwloc_census
    [OF boost_graph_adjlist walk.hwloc_filters_axioms, of bridge_api ?t, folded A_def, OF types detected this,
      where B = bool_list_ops and H = index_list_ops and n = 2 and hostname = "''h''"]
  show ?thesis by (auto simp: same api add_mset_commute)
qed

end
