(* ===== verification/Spec2Isabelle.thy ===== *)
theory Spec2Isabelle
  imports Mpi_Distances Example_Main Gpu_Monitor Rocm_Functions Hwloc_Census
begin

text \<open>
  \<^bold>\<open>yloc: a verification development.\<close>

  yloc builds a graph of the hardware components of a machine (or of the machines of an MPI job)
  from what several libraries report, and answers queries on it. This development models
  the library's own code, file by file, and proves what makes it correct.

  \<^bold>\<open>The program and its model.\<close>
  \<^item> \<open>Component_Types\<close>: \<^verbatim>\<open>src/src/include/yloc/component_types.h\<close>. The declared types, the base
    classes the macro gives them (the first virtual and public, a second one private and
    non-virtual), the subobjects of an object and \<^verbatim>\<open>dynamic_cast\<close> on them, the registry.
  \<^item> \<open>Affinity\<close>: \<^verbatim>\<open>affinity.h\<close>. Masks over \<^verbatim>\<open>boost::dynamic_bitset\<close>; conversions from and to Linux cpu
    sets (words of 1024 bits) and hwloc bitmaps; containment.
  \<^item> \<open>Adapter\<close>: \<^verbatim>\<open>modules/property.h\<close> and \<^verbatim>\<open>modules/adapter.h\<close>. An adapter is the record of what its
    virtual functions return; a property is a name, a result type and a member function.
  \<^item> \<open>Graph_Element\<close>: \<^verbatim>\<open>graph_element.h\<close>. Vertices and edges, with pointers to adapters in a heap (a
    list); the typed and the printing queries.
  \<^item> \<open>Yloc_Graph\<close>: \<^verbatim>\<open>graph.h\<close>. Identifiers, vertices and the root over \<^verbatim>\<open>boost::adjacency_list\<close>.
  \<^item> \<open>Topology\<close>: the state \<open>world\<close> that the modules build (the root graph of \<^verbatim>\<open>init.cc\<close> and the
    heap), the steps of which every \<^verbatim>\<open>init_graph\<close> is made, and the invariants each keeps.
  \<^item> \<open>Topology_Util\<close>: \<^verbatim>\<open>util.cc\<close> and \<^verbatim>\<open>util.h\<close>. The descent to the lowest vertex that contains a mask,
    against the step relation \<open>descends\<close>; labels of dot files.
  \<^item> \<open>Yloc_Module\<close>: \<^verbatim>\<open>status.h\<close>, \<^verbatim>\<open>modules/module.h\<close> and \<^verbatim>\<open>init.cc\<close>. Modules, \<^verbatim>\<open>init\<close> and its two phases.
  \<^item> \<open>Bdfid\<close>, \<open>Hwloc_Adapter\<close>, \<open>Hwloc_Module\<close>: \<^verbatim>\<open>modules/hwloc\<close>. The bus address shared with the GPU
    modules, the adapter and the classification of hwloc objects, the recursion over hwloc's
    tree against the recursion \<open>build_forest\<close> on a finite tree. \<open>Hwloc_Census\<close>: the options that the module
    sets before the detection, and the number of vertices of each type that it then makes.
  \<^item> \<open>Mpi_Module\<close>: \<^verbatim>\<open>modules/mpi\<close>. The adapter, changed after it is attached, and the placement of
    processes, which calls back into \<^verbatim>\<open>util.cc\<close>.
  \<^item> \<open>Supermuc_Module\<close>: \<^verbatim>\<open>modules/supermuc\<close>. The host name pattern and the hierarchy cut from C strings.
  \<^item> \<open>Gpu_Link\<close>, \<open>Nvml_Module\<close>, \<open>Rocm_Module\<close>: \<^verbatim>\<open>modules/nvml\<close> and \<^verbatim>\<open>modules/rocm\<close>. The adapters, the loops
    over the devices, and the loops over pairs of devices, which the two modules share. The local variables
    that only ROCm-SMI writes are a parameter (\<open>rocm_locals\<close>), since no status is acted on. \<open>Rocm_Functions\<close>:
    the nested loops of \<^verbatim>\<open>yloc_rocm_get_supported_functions\<close>.
  \<^item> \<open>Boost_Search\<close>, \<open>Boost_Dijkstra\<close>, \<open>Query\<close>: \<^verbatim>\<open>query.h\<close>. The visitor and the distance vectors over
    \<^verbatim>\<open>breadth_first_search\<close>, edge weights and \<^verbatim>\<open>dijkstra_shortest_paths\<close>.
  \<^item> \<open>Examples\<close>, \<open>Example_Main\<close>: \<^verbatim>\<open>src/example/example.cc\<close>, a client of the queries: its functions, and \<^verbatim>\<open>main\<close> on
    the topologies that builds make, with the lines and files they write. \<open>Mpi_Distances\<close>, \<open>Gpu_Monitor\<close>:
    \<^verbatim>\<open>main\<close> of \<^verbatim>\<open>example-mpi.cc\<close> and of \<^verbatim>\<open>example-gpu.cc\<close>, whose endless output is a stream of rounds.
  \<^item> \<open>Pci_Names\<close>, \<open>Build\<close>, \<open>Gpu_Build\<close>: the modules of a build as objects, the topology after the hwloc
    module, what it holds for the GPU modules, and the orders in which hwloc and a GPU module may run.
  \<^item> \<open>Rooted\<close>, \<open>Adapters_For\<close>, \<open>Gpu_Answers\<close>: what the modules together leave behind: every component of a
    machine is reached from the root vertex, and the adapters at the vertex of an address are those of hwloc
    and of the device there, so that queries are answered as the device's adapter alone would.
  \<^item> this theory: the properties that span the modules.
  \<^item> \<open>Prelude\<close>: the collections, decimal printing, and \<^verbatim>\<open>std::sort\<close> as a locale.

  \<^bold>\<open>Interfaces.\<close> Code outside the repository is a parameter, with its documented laws as a locale:
  \<open>dynamic_bitset\<close>, \<open>hwloc_bitmap\<close>, \<open>boost_graph\<close>, \<open>boost_bfs\<close>, \<open>boost_dijkstra\<close>, \<open>hwloc_types\<close>, \<open>hwloc_filters\<close>,
  \<open>std_sort\<close>. Each is
  interpreted on a concrete instance, so the laws can hold together. \<open>affinity_conversion\<close>,
  \<open>topology_search\<close>, \<open>hwloc_build\<close> and \<open>mpi_build\<close> combine them for their clients.
  \<open>gpu_devices\<close> is what the NVML and the ROCm adapters have in common.
  \<open>module_contract\<close> is what every module promises about the topology, and \<open>module_suite\<close> what
  \<^verbatim>\<open>init\<close> makes of it; the five modules are its interpretations. hwloc, NVML and ROCm-SMI are records
  of what their functions return.

  \<^bold>\<open>Failure and termination.\<close> A failed assertion, a \<^verbatim>\<open>bad_optional_access\<close>, a read outside of an array and a
  recursion without end are \<open>None\<close>. An adapter, however, is what its functions return: an hwloc object with a processor
  that is not online, whose mask cannot be asked for, and a ROCm device with a clock index outside of its
  array are outside of the model, and the theorems by which such queries are answered exclude them
  (\<open>machine_online\<close>, \<open>clocks_in_bounds\<close>). The two recursions that follow pointers (\<open>lowest_from\<close>,
  \<open>hwloc_children\<close>) are partial functions without fuel; that they return is proved: the first on graphs without
  CHILD cycles, the second on finite trees. So are the loops over iterators in \<open>Rocm_Functions\<close>, which return when the
  iterators end. The endless loop of the GPU monitor is a stream. The loops over devices and edges are recursions on
  lists. \<open>search_edges\<close>, which shows that \<open>boost_bfs\<close> can be met, runs one round more than there
  are edges, which empties its queue; \<open>dijkstra_edges\<close>, which does so for \<open>boost_dijkstra\<close>, as many as
  there are edges, each of which settles a vertex. The only other bound is the depth 5 of the class hierarchy
  in \<open>Component_Types\<close>, which is its real depth.

  \<^bold>\<open>The lemma groups.\<close> \<open>graph_simps\<close> says what each operation does to vertices, edges, identifiers
  and heap; \<open>wf_intros\<close> that it keeps well-formedness \<open>wf_world\<close>
  (\<open>paired\<close> is the invariant of the edges); \<open>extends\<close> and \<open>preserves\<close> are the orders
  in which topologies grow, \<open>marks\<close> that in which the GPU modules change them; \<open>hangs\<close>,
  \<open>process_at\<close>, \<open>supermuc_placed\<close>, \<open>gpu_at\<close> and \<open>interconnected\<close> are the specifications of the modules;
  \<open>rooted\<close> and \<open>adapters_for\<close> are invariants that hold across modules, \<open>answers_as\<close> what they give to a reader;
  \<open>shortest_path\<close> and \<open>hops\<close> those of the queries.

  \<^bold>\<open>Not modelled.\<close> Output that is only diagnostic: the values that \<^verbatim>\<open>ModuleRocm::init_graph\<close> prints (the reads of
  arrays that fetch them are modelled, as they can fail), the names of link types, and error messages. How
  \<^verbatim>\<open>boost::write_graphviz\<close> spells the labelled vertices and edges it is given. \<^verbatim>\<open>~ModuleHwloc\<close>, which only calls
  hwloc. \<^verbatim>\<open>src/example/topology_graph.cc\<close> (it does not compile, and its only call is commented out), code under
  \<^verbatim>\<open>#if 0\<close>, type aliases and macros by themselves, the build files, and what Boost, hwloc, NVML, ROCm-SMI, MPI
  and the operating system do inside. Of the implementation's lines that no definition models, nearly all
  are of these kinds, or comments and includes.
\<close>

section \<open>Properties\<close>

text \<open>
  C1. Initialisation of a build with the three modules, in whatever order the build lists them and
  \<^verbatim>\<open>std::sort\<close> leaves them: on a machine that hwloc detects, of which no two PCI devices have the same address
  and no object has a processor that is not online, and under MPI, \<^verbatim>\<open>init()\<close> returns SUCCESS; every hwloc
  object hangs below the root vertex as in hwloc's tree and answers for its mask (the assertion in the
  conversion of its cpu set holds); every process has its place; CHILD edges form no cycle and all are paired with
  PARENT edges, so a later search for any mask returns.
\<close>

theorem init_builds_topology:
  assumes "std_sort srt'" and "topology_search G B srt" and "hwloc_types (sys_hwloc S)"
    and "detected (sys_hwloc S) ts" and "distinct (forest_identifiers (sys_hwloc S) ts)"
    and "hwloc_bitmap H" and "machine_online H (sys_hwloc S) (sys_nprocs S) ts"
    and "sys_mpi_initialized S" and "mset modules = mset (list_modules B H G srt S)"
  shows "\<exists>w. init srt' modules (root_graph G) = Some (YLOC_STATUS_SUCCESS, w) \<and>
    wf_world G w \<and> paired G w \<and> acyclic (child_rel G (topology w)) \<and>
    (\<forall>obj \<in> set (get_root_obj (sys_hwloc S) # forest_objects ts).
       hwloc_cpu_affinity_mask B H (sys_hwloc S) (sys_nprocs S) obj \<noteq> None) \<and>
    (\<forall>t \<in> set ts. hangs B H G (sys_hwloc S) (sys_nprocs S) w (m_root_vertex (topology w)) t) \<and>
    (\<forall>i < length (sys_processes S). process_at B G (sys_nprocs S) (sys_processor_name S) w i
       (fst (sys_processes S ! i)) (snd (sys_processes S ! i))) \<and>
    (\<forall>msk. \<exists>r. lowest_containing_vertex B G srt w msk = Some r)"
proof -
  have G: "boost_graph G" using assms(2) by (simp add: topology_search_def)
  obtain w1 where hwloc: "ModuleHwloc_init_graph B H G (sys_hwloc S) (sys_nprocs S) (sys_hostname S)
      (root_graph G) = Some (YLOC_STATUS_SUCCESS, w1)"
    and w1: "wf_world G w1" "paired G w1" "increasing G (topology w1)"
    and hang: "\<forall>t \<in> set ts. hangs B H G (sys_hwloc S) (sys_nprocs S) w1 (m_root_vertex (topology w1)) t"
    and dom: "dom (ids w1) = insert (''machine:'' @ sys_hostname S)
      (set (forest_identifiers (sys_hwloc S) ts))"
    by (rule hwloc_phase [OF G assms(3,4,5)]) (rule that)
  obtain w where mpi: "make_mpi_graph B G srt (sys_nprocs S) (sys_processes S) (sys_processor_name S) w1
      = Some w" and w: "wf_world G w" "acyclic (child_rel G (topology w))" "preserves G w1 w" "paired G w"
    and at: "\<forall>i < length (sys_processes S). process_at B G (sys_nprocs S) (sys_processor_name S) w i
       (fst (sys_processes S ! i)) (snd (sys_processes S ! i))"
    by (rule mpi_phase [OF assms(2) w1(1,2) increasing_acyclic [OF w1(3)] dom]) (rule that)
  have init: "init srt' modules (root_graph G) = Some (YLOC_STATUS_SUCCESS, w)"
    by (rule init_hwloc_mpi [OF assms(1,9,8) hwloc mpi])
  have "hangs B H G (sys_hwloc S) (sys_nprocs S) w (m_root_vertex (topology w)) t" if t: "t \<in> set ts" for t
  proof -
    have root: "m_root_vertex (topology w) = m_root_vertex (topology w1)" using w(3) by (simp add: preserves_def)
    show ?thesis
      unfolding root by (rule hangs_extends [OF preserves_extends [OF w(3)]]) (use hang t in blast)
  qed
  moreover have "\<exists>r. lowest_containing_vertex B G srt w msk = Some r" for msk
    unfolding lowest_containing_vertex_def by (rule topology_search.lowest_from_total [OF assms(2) w(2)])
  moreover have "\<forall>obj \<in> set (get_root_obj (sys_hwloc S) # forest_objects ts).
      hwloc_cpu_affinity_mask B H (sys_hwloc S) (sys_nprocs S) obj \<noteq> None"
    by (rule iffD1 [OF machine_online_masks [OF _ assms(6)] assms(7)]) (use assms(2) in \<open>simp add: topology_search_def\<close>)
  ultimately show ?thesis using init w(1,2,4) at by blast
qed

theorem init_builds_topology_witness:
  "\<exists>w. init insertion_sort
      (rev (list_modules bool_list_ops index_list_ops adjlist_ops insertion_sort sample_system))
      (root_graph adjlist_ops) = Some (YLOC_STATUS_SUCCESS, w) \<and>
    process_at bool_list_ops adjlist_ops 2 ''h'' w 0 ''h'' 1 \<and>
    (\<exists>r. lowest_containing_vertex bool_list_ops adjlist_ops insertion_sort w [True, False] = Some r)"
proof -
  have "hwloc_types (sys_hwloc sample_system)" "detected (sys_hwloc sample_system) sample_tree"
    "distinct (forest_identifiers (sys_hwloc sample_system) sample_tree)" "hwloc_bitmap index_list_ops"
    "machine_online index_list_ops (sys_hwloc sample_system) (sys_nprocs sample_system) sample_tree"
    "sys_mpi_initialized sample_system"
    using hwloc_types_sample sample_detected sample_distinct hwloc_bitmap_index_list sample_online
    by (simp_all add: sample_system_def)
  from init_builds_topology [OF std_sort_insertion_sort topology_search_lists this, of
      "rev (list_modules bool_list_ops index_list_ops adjlist_ops insertion_sort sample_system)"]
  show ?thesis by (auto simp: sample_system_def)
qed

text \<open>
  C18. Initialisation keeps the invariants of the topology whatever the libraries return and whatever
  subset of the modules is built: if it returns, all edges and adapter pointers are valid, every
  process reports a rank, CHILD and PARENT edges are paired and links between GPUs go both ways.
\<close>

theorem init_keeps_topology:
  assumes "std_sort srt'" and "topology_search G B srt" and "hwloc_types (sys_hwloc S)"
    and "set modules \<subseteq> set (all_modules B H G srt S N R L)" and "wf_world G w" and "paired G w"
    and "init srt' modules w = Some (s, w')"
  shows "wf_world G w' \<and> paired G w' \<and> s = YLOC_STATUS_SUCCESS"
proof -
  have suite: "module_suite srt' G modules" by (rule module_suiteI [OF assms(1-4)])
  have "s = YLOC_STATUS_SUCCESS" using assms(7) by (auto simp: init_def split: option.splits)
  with module_suite.init_keeps [OF suite assms(5,7)] assms(6) show ?thesis by blast
qed

text \<open>A build of all modules, on the machine of the samples: hwloc, NVML and ROCm run, then MPI.\<close>

lemma sample_first_modules:
  obtains w1 w2 w3 :: "(adjlist, bool list) world" and v where
    "ModuleHwloc_init_graph bool_list_ops index_list_ops adjlist_ops sample_api 2 ''h'' (root_graph adjlist_ops) =
      Some (YLOC_STATUS_SUCCESS, w1)"
    and "ModuleNvml_init_graph sample_one_gpu adjlist_ops w1 = Some (YLOC_STATUS_SUCCESS, w2)"
    and "ModuleRocm_init_graph sample_rocm sample_locals adjlist_ops w2 = Some (YLOC_STATUS_SUCCESS, w3)"
    and "wf_world adjlist_ops w3" and "acyclic (child_rel adjlist_ops (topology w3))"
    and "\<And>i. ids w3 (rank_identifier i) = None"
    and "gpu_at adjlist_ops w3 (bdfid_identifier 0x300) v (rocm_adapter sample_rocm 0)"
proof -
  let ?G = adjlist_ops and ?N = sample_one_gpu and ?R = sample_rocm and ?A = sample_api
  note detected = boost_graph_adjlist hwloc_types_sample sample_detected sample_distinct
  obtain w1 :: "(adjlist, bool list) world" where hwloc: "ModuleHwloc_init_graph bool_list_ops index_list_ops ?G ?A 2 ''h''
      (root_graph ?G) = Some (YLOC_STATUS_SUCCESS, w1)"
    and w1: "wf_world ?G w1" "increasing ?G (topology w1)"
    and dom: "dom (ids w1) = insert (''machine:'' @ ''h'') (set (forest_identifiers ?A sample_tree))"
    by (rule hwloc_phase [OF detected, of bool_list_ops index_list_ops 2 "''h''"]) (rule that)
  have dev: "\<forall>i < DeviceGetCount ?N. \<exists>obj \<in> set (forest_objects sample_tree). hwloc_bdfid ?A obj \<noteq> None \<and>
      hwloc_bdfid ?A obj = nvml_bdfid ?N (DeviceGetHandleByIndex ?N i)"
    using sample_gpu_address by (auto simp: sample_tree_def sample_one_gpu_def intro!: bexI [of _ 3])
  have "ModuleNvml_init_graph ?N ?G w1 \<noteq> None"
    by (rule nvml_after_hwloc [OF detected dev, of bool_list_ops index_list_ops 2 "''h''"]) (use hwloc in simp)
  then obtain w2 where nvml: "ModuleNvml_init_graph ?N ?G w1 = Some (YLOC_STATUS_SUCCESS, w2)" and w2: "wf_world ?G w2"
    "child_rel ?G (topology w2) = child_rel ?G (topology w1)" "ids w2 = ids w1"
    using adjlist.nvml_init_spec [OF w1(1), of ?N] by (auto split: if_splits)
  have reads: "bandwidths_in_bounds ?R sample_locals"
    using sample_rocm_bounds [of "num_monitor_devices sample_rocm"] by simp
  have device: "0 < rocm_num_devices ?R sample_locals" "dev_pci_id_get ?R 0 = Some 0x300"
    by (simp_all add: rocm_num_devices_def sample_rocm_def)
  with adjlist.rocm_init_own [OF w2(1) reads] obtain w3 v where
    rocm: "ModuleRocm_init_graph ?R sample_locals ?G w2 = Some (YLOC_STATUS_SUCCESS, w3)"
    and w3: "wf_world ?G w3" "child_rel ?G (topology w3) = child_rel ?G (topology w2)"
    and gpu: "gpu_at ?G w3 (bdfid_identifier 0x300) v (rocm_adapter ?R 0)"
    by blast
  have "dom (ids w3) \<subseteq> dom (ids w2) \<union> range bdfid_identifier"
    using adjlist.rocm_init_spec [OF w2(1) reads refl] rocm by auto
  moreover have "rank_identifier i \<notin> dom (ids w2) \<union> range bdfid_identifier" for i
    unfolding w2(3) dom by (auto simp: rank_identifier_def forest_identifiers_def obj_identifier_def
        bdfid_identifier_def split: option.splits)
  ultimately have "ids w3 (rank_identifier i) = None" for i by blast
  moreover have "acyclic (child_rel ?G (topology w3))" using increasing_acyclic [OF w1(2)] w2(2) w3(2) by simp
  ultimately show thesis using that hwloc nvml rocm w3(1) gpu by blast
qed

lemma sample_all_modules:
  obtains w :: "(adjlist, bool list) world" and v where
    "init insertion_sort (all_modules bool_list_ops index_list_ops adjlist_ops insertion_sort sample_system
       sample_one_gpu sample_rocm sample_locals) (root_graph adjlist_ops) = Some (YLOC_STATUS_SUCCESS, w)"
    and "gpu_at adjlist_ops w (bdfid_identifier 0x300) v (rocm_adapter sample_rocm 0)"
    and "process_at bool_list_ops adjlist_ops 2 ''h'' w 0 ''h'' 1"
proof (rule sample_first_modules, goal_cases)
  case (1 w1 w2 w3 v)
  let ?G = adjlist_ops
  let ?h = "hwloc_module bool_list_ops index_list_ops ?G sample_system" and ?s = "supermuc_module ?G sample_system"
    and ?m = "mpi_module bool_list_ops ?G insertion_sort sample_system"
  let ?ms = "[?h, ?s, nvml_module ?G sample_one_gpu, rocm_module ?G sample_rocm sample_locals, ?m]"
  have "\<forall>i < length [(''h'', 1 :: cpu_set_t), (''k'', 2)]. ids w3 (rank_identifier (0 + i)) = None" using 1(7) by simp
  from mpi_lists.mpi_processes_new [OF 1(5,6) this, of 2 "''h''"] obtain w where
    mpi: "make_mpi_graph bool_list_ops ?G insertion_sort 2 [(''h'', 1), (''k'', 2)] ''h'' w3 = Some w"
    and keep: "preserves ?G w3 w" and at: "process_at bool_list_ops ?G 2 ''h'' w 0 ''h'' 1"
    by (auto simp: make_mpi_graph_def)
  have sorted: "insertion_sort (\<lambda>a b. m_init_order a < m_init_order b) (all_modules bool_list_ops index_list_ops ?G
      insertion_sort sample_system sample_one_gpu sample_rocm sample_locals) = ?ms"
    by (simp add: all_modules_def list_modules_def less_init_order_def)
  have "run_modules ?ms (root_graph ?G) = Some w"
    using 1(2-4) mpi
    by (simp add: hwloc_module_def mpi_module_def supermuc_module_def nvml_module_def rocm_module_def ModuleMPI_def
        ModuleSuperMUC_def default_module_def ModuleMPI_init_graph_def sample_system_def)
  then have "init insertion_sort (all_modules bool_list_ops index_list_ops ?G insertion_sort sample_system sample_one_gpu
      sample_rocm sample_locals) (root_graph ?G) = Some (YLOC_STATUS_SUCCESS, w)"
    unfolding init_def sorted by (simp del: run_modules.simps)
  with gpu_at_extends [OF preserves_extends [OF keep] 1(8)] at show ?case using 1(1) by blast
qed

theorem init_keeps_topology_witness:
  "\<exists>w v. init insertion_sort (all_modules bool_list_ops index_list_ops adjlist_ops insertion_sort sample_system
      sample_one_gpu sample_rocm sample_locals) (root_graph adjlist_ops) = Some (YLOC_STATUS_SUCCESS, w) \<and>
    wf_world adjlist_ops (w :: (adjlist, bool list) world) \<and> paired adjlist_ops w \<and>
    gpu_at adjlist_ops w (bdfid_identifier 0x300) v (rocm_adapter sample_rocm 0) \<and>
    process_at bool_list_ops adjlist_ops 2 ''h'' w 0 ''h'' 1"
proof -
  obtain w :: "(adjlist, bool list) world" and v where run: "init insertion_sort (all_modules bool_list_ops index_list_ops
      adjlist_ops insertion_sort sample_system sample_one_gpu sample_rocm sample_locals) (root_graph adjlist_ops) =
      Some (YLOC_STATUS_SUCCESS, w)"
    and at: "gpu_at adjlist_ops w (bdfid_identifier 0x300) v (rocm_adapter sample_rocm 0)"
      "process_at bool_list_ops adjlist_ops 2 ''h'' w 0 ''h'' 1"
    by (rule sample_all_modules)
  have "hwloc_types (sys_hwloc sample_system)" using hwloc_types_sample by (simp add: sample_system_def)
  from init_keeps_topology [OF std_sort_insertion_sort topology_search_lists this order_refl
      adjlist.wf_root_graph adjlist.paired_root_graph run] run at
  show ?thesis by blast
qed

end
